(* ===== verification/Prelude.thy ===== *)
theory Prelude
  imports Main "HOL-Library.Word"
begin

text \<open>
  Shared ground of the FileDrop development: the machine integers the Rust code uses, the
  collections of simplification rules the component theories add to, interfaces stated as locales (a
  keyed store, which is what every \<^verbatim>\<open>HashMap<Uuid, _>\<close> of the program is used as, a transition system
  with an invariant, its refinements, and peers over a shared state), and a few generic lemmas on lists
  and maps.
\<close>

section \<open>Machine integers and identifiers\<close>

text \<open>
  \<^verbatim>\<open>u8\<close>, \<^verbatim>\<open>u16\<close>, \<^verbatim>\<open>u64\<close> are words. An \<^verbatim>\<open>i64\<close> is an \<open>int\<close> kept in range by \<open>i64_wrap\<close>, the
  two's complement wrap-around of a release build. A \<^verbatim>\<open>Uuid\<close> is its 128-bit value.
\<close>

type_synonym byte = "8 word"
type_synonym u16 = "16 word"
type_synonym u64 = "64 word"
type_synonym uuid = "128 word"
type_synonym i64 = int

definition i64_wrap :: "int \<Rightarrow> i64" where
  "i64_wrap x = (x + 2 ^ 63) mod 2 ^ 64 - 2 ^ 63"

definition i64_range :: "int \<Rightarrow> bool" where
  "i64_range x \<longleftrightarrow> - (2 ^ 63) \<le> x \<and> x < 2 ^ 63"

lemma i64_wrap_id [simp]: "i64_range x \<Longrightarrow> i64_wrap x = x"
  by (simp add: i64_wrap_def i64_range_def)

lemma i64_wrap_range [simp]: "i64_range (i64_wrap x)"
proof -
  have "0 \<le> (x + 2 ^ 63) mod 2 ^ 64" and "(x + 2 ^ 63) mod 2 ^ 64 < (2 ^ 64 :: int)"
    by simp_all
  then show ?thesis by (simp add: i64_wrap_def i64_range_def)
qed

section \<open>Rule collections\<close>

named_theorems text_defs \<open>definitions of the string operations, for evaluating closed terms\<close>
named_theorems disk_simps \<open>what a disk reads after an operation\<close>
named_theorems cell_simps \<open>what a session cell holds after an operation\<close>

section \<open>A keyed store\<close>

text \<open>
  The contract of a \<^verbatim>\<open>HashMap\<close> whose values carry their own key: \<open>insert(v.id, v)\<close> makes \<open>v\<close> the
  value at its key and leaves every other key alone.
\<close>

locale keyed_store =
  fixes lookup :: "'s \<Rightarrow> 'k \<Rightarrow> 'v option"
    and put :: "'v \<Rightarrow> 's \<Rightarrow> 's"
    and key :: "'v \<Rightarrow> 'k"
  assumes put_same: "lookup (put v s) (key v) = Some v"
    and put_other: "k \<noteq> key v \<Longrightarrow> lookup (put v s) k = lookup s k"
begin

lemma put_lookup: "lookup (put v s) k = (if k = key v then Some v else lookup s k)"
  by (simp add: put_same put_other)

text \<open>Keys agree with the values they lead to; a put keeps it so.\<close>

definition keyed :: "'s \<Rightarrow> bool" where
  "keyed s \<longleftrightarrow> (\<forall>k v. lookup s k = Some v \<longrightarrow> key v = k)"

lemma keyed_put: "keyed s \<Longrightarrow> keyed (put v s)"
  by (simp add: keyed_def put_lookup)

lemma keyed_puts: "keyed s \<Longrightarrow> keyed (fold put vs s)"
  by (induction vs arbitrary: s) (simp_all add: keyed_put)

text \<open>After a sequence of puts a key holds the last value put under it.\<close>

lemma puts_lookup:
  "lookup (fold put vs s) k =
     (case find (\<lambda>v. key v = k) (rev vs) of Some v \<Rightarrow> Some v | None \<Rightarrow> lookup s k)"
proof (induction vs rule: rev_induct)
  case Nil
  then show ?case by simp
next
  case (snoc v vs)
  then show ?case by (simp add: put_lookup)
qed

lemma puts_lookup_mem:
  "lookup (fold put vs s) k = Some v \<Longrightarrow> v \<in> set vs \<or> lookup s k = Some v"
  by (induction vs arbitrary: s) (fastforce simp: put_lookup split: if_splits)+

lemma puts_known: "v \<in> set vs \<Longrightarrow> lookup (fold put vs s) (key v) \<noteq> None"
  by (auto simp: puts_lookup find_None_iff split: option.splits)

end

section \<open>Transition systems with an invariant\<close>

locale invariant_system =
  fixes step :: "'s \<Rightarrow> 's \<Rightarrow> bool"
    and inv :: "'s \<Rightarrow> bool"
  assumes step_inv: "step s t \<Longrightarrow> inv s \<Longrightarrow> inv t"
begin

lemma run_inv: "step\<^sup>*\<^sup>* s t \<Longrightarrow> inv s \<Longrightarrow> inv t"
  by (induction rule: rtranclp_induct) (auto intro: step_inv)

end

text \<open>A refinement: every step from a state with the invariant is seen, through \<open>view\<close>, as some steps of another
  system.\<close>

locale refinement = invariant_system step inv
  for step :: "'s \<Rightarrow> 's \<Rightarrow> bool" and inv :: "'s \<Rightarrow> bool" +
  fixes spec :: "'a \<Rightarrow> 'a \<Rightarrow> bool"
    and view :: "'s \<Rightarrow> 'a"
  assumes step_view: "step s t \<Longrightarrow> inv s \<Longrightarrow> spec\<^sup>*\<^sup>* (view s) (view t)"
begin

lemma run_view: "step\<^sup>*\<^sup>* s t \<Longrightarrow> inv s \<Longrightarrow> spec\<^sup>*\<^sup>* (view s) (view t)"
proof (induction rule: rtranclp_induct)
  case base
  then show ?case by simp
next
  case (step t u)
  then have "spec\<^sup>*\<^sup>* (view t) (view u)" using step_view run_inv by blast
  with step show ?case by (meson rtranclp_trans)
qed

end

section \<open>Peers over a shared state\<close>

text \<open>Several machines of one kind over one shared state: what each relies on (\<open>own\<close>) is kept by its own steps and
  by the steps and arrivals of those it is apart from.\<close>

locale coexisting =
  fixes shared :: "'s \<Rightarrow> bool"
    and own :: "'s \<Rightarrow> 'l \<Rightarrow> bool"
    and apart :: "'l \<Rightarrow> 'l \<Rightarrow> bool"
    and arrive :: "'s \<Rightarrow> 'l \<Rightarrow> 's \<Rightarrow> bool"
    and step :: "'l \<Rightarrow> 's \<Rightarrow> 'l \<Rightarrow> 's \<Rightarrow> bool"
  assumes apart_sym: "apart l k \<Longrightarrow> apart k l"
    and arrive_own: "arrive s l s' \<Longrightarrow> shared s \<Longrightarrow> shared s' \<and> own s' l"
    and arrive_other: "arrive s l s' \<Longrightarrow> shared s \<Longrightarrow> own s k \<Longrightarrow> apart l k \<Longrightarrow> own s' k"
    and step_own: "step l s l' s' \<Longrightarrow> shared s \<Longrightarrow> own s l \<Longrightarrow> shared s' \<and> own s' l'"
    and step_other: "step l s l' s' \<Longrightarrow> shared s \<Longrightarrow> own s l \<Longrightarrow> own s k \<Longrightarrow> apart l k \<Longrightarrow> own s' k"
begin

definition all_own :: "'s \<Rightarrow> 'l list \<Rightarrow> bool" where
  "all_own s ls \<longleftrightarrow> shared s \<and> sorted_wrt apart ls \<and> (\<forall>l \<in> set ls. own s l)"

lemma all_own_nil: "shared s \<Longrightarrow> all_own s []"
  by (simp add: all_own_def)

lemma all_own_nth: "all_own s ls \<Longrightarrow> i < length ls \<Longrightarrow> shared s \<and> own s (ls ! i)"
  by (simp add: all_own_def)

lemma apart_nth:
  "sorted_wrt apart ls \<Longrightarrow> i < length ls \<Longrightarrow> j < length ls \<Longrightarrow> j \<noteq> i \<Longrightarrow> apart (ls ! i) (ls ! j)"
  by (metis apart_sym nat_neq_iff sorted_wrt_nth_less)

lemma all_own_arrive:
  assumes "arrive s l s'" and "all_own s ls" and "sorted_wrt apart (ls @ [l])"
  shows "all_own s' (ls @ [l])"
  using assms arrive_own [OF assms(1)] arrive_other [OF assms(1)]
  by (auto simp: all_own_def sorted_wrt_append intro: apart_sym)

lemma all_own_step:
  assumes "step (ls ! i) s l s'" and "i < length ls" and "all_own s ls" and "sorted_wrt apart (ls[i := l])"
  shows "all_own s' (ls[i := l])"
proof -
  have i: "shared s" "own s (ls ! i)" using assms(2,3) by (simp_all add: all_own_def)
  have "own s' (ls ! j)" if "j < length ls" "j \<noteq> i" for j
    using that assms(2,3) step_other [OF assms(1) i] apart_nth [of ls i j] by (simp add: all_own_def)
  then have "own s' k" if "k \<in> set (ls[i := l])" for k
    using that assms(2) step_own [OF assms(1) i] by (auto simp: in_set_conv_nth nth_list_update split: if_splits)
  with assms(4) step_own [OF assms(1) i] show ?thesis by (simp add: all_own_def)
qed

end

section \<open>Generic lemmas\<close>

lemma dropWhile_hd: "dropWhile P xs \<noteq> [] \<Longrightarrow> \<not> P (hd (dropWhile P xs))"
  by (induction xs) auto

lemma dropWhile_fixed: "xs = [] \<or> \<not> P (hd xs) \<Longrightarrow> dropWhile P xs = xs"
  by (cases xs) auto

lemma set_dropWhile_subset: "set (dropWhile P xs) \<subseteq> set xs"
  by (auto dest: set_dropWhileD)

lemma foldl_append_concat: "foldl (@) acc xss = acc @ concat xss"
  by (induction xss arbitrary: acc) auto

end
