(* ===== verification/Rust_Text.thy ===== *)
theory Rust_Text
  imports Prelude
begin

text \<open>
  The part of Rust's string library the program uses. A \<^verbatim>\<open>String\<close> is the list of its Unicode scalar
  values (code points); \<open>utf8\<close> is its byte representation, \<open>str_len\<close> what \<^verbatim>\<open>str::len\<close> counts, and
  every operation that takes a byte index (\<^verbatim>\<open>rfind\<close>, slicing, \<^verbatim>\<open>truncate\<close>) takes one here, with
  \<open>None\<close> for the panic of an index inside a character.
\<close>

section \<open>Characters and literals\<close>

type_synonym rchar = nat
type_synonym rstring = "rchar list"

definition lit :: "string \<Rightarrow> rstring" where
  "lit s = map of_char s"

definition scalar :: "rchar \<Rightarrow> bool" where
  "scalar c \<longleftrightarrow> c < 0xD800 \<or> 0xE000 \<le> c \<and> c < 0x110000"

definition rust_str :: "rstring \<Rightarrow> bool" where
  "rust_str s \<longleftrightarrow> (\<forall>c \<in> set s. scalar c)"

definition ascii :: "rstring \<Rightarrow> bool" where
  "ascii s \<longleftrightarrow> (\<forall>c \<in> set s. c < 128)"

text \<open>\<^verbatim>\<open>char::is_control\<close> is the general category Cc, \<^verbatim>\<open>char::is_whitespace\<close> the property
  White\_Space; both are fixed by the Unicode standard.\<close>

definition is_control :: "rchar \<Rightarrow> bool" where
  "is_control c \<longleftrightarrow> c < 32 \<or> 127 \<le> c \<and> c < 160"

definition is_whitespace :: "rchar \<Rightarrow> bool" where
  "is_whitespace c \<longleftrightarrow> 9 \<le> c \<and> c \<le> 13 \<or> c = 32 \<or> c = 0x85 \<or> c = 0xA0 \<or> c = 0x1680
     \<or> 0x2000 \<le> c \<and> c \<le> 0x200A \<or> c = 0x2028 \<or> c = 0x2029 \<or> c = 0x202F \<or> c = 0x205F \<or> c = 0x3000"

definition is_ascii_digit :: "rchar \<Rightarrow> bool" where
  "is_ascii_digit c \<longleftrightarrow> 48 \<le> c \<and> c \<le> 57"

section \<open>UTF-8\<close>

definition utf8_width :: "rchar \<Rightarrow> nat" where
  "utf8_width c = (if c < 0x80 then 1 else if c < 0x800 then 2 else if c < 0x10000 then 3 else 4)"

definition utf8_char :: "rchar \<Rightarrow> nat list" where
  "utf8_char c =
     (if c < 0x80 then [c]
      else if c < 0x800 then [0xC0 + c div 64, 0x80 + c mod 64]
      else if c < 0x10000 then [0xE0 + c div 4096, 0x80 + c div 64 mod 64, 0x80 + c mod 64]
      else [0xF0 + c div 262144, 0x80 + c div 4096 mod 64, 0x80 + c div 64 mod 64, 0x80 + c mod 64])"

definition utf8 :: "rstring \<Rightarrow> byte list" where
  "utf8 s = map of_nat (concat (map utf8_char s))"

text \<open>\<^verbatim>\<open>str::len\<close>: the number of bytes.\<close>

definition str_len :: "rstring \<Rightarrow> nat" where
  "str_len s = sum_list (map utf8_width s)"

text \<open>\<^verbatim>\<open>str::from_utf8\<close>: strict decoding, no overlong forms and no surrogates.\<close>

definition cont :: "nat \<Rightarrow> bool" where
  "cont b \<longleftrightarrow> 128 \<le> b \<and> b < 192"

fun utf8_decode :: "nat list \<Rightarrow> rstring option" where
  "utf8_decode [] = Some []"
| "utf8_decode (b # bs) =
     (if b < 128 then map_option ((#) b) (utf8_decode bs)
      else if 194 \<le> b \<and> b < 224 then
        (case bs of
           b1 # r \<Rightarrow>
             if cont b1 then map_option ((#) ((b - 192) * 64 + (b1 - 128))) (utf8_decode r) else None
         | _ \<Rightarrow> None)
      else if 224 \<le> b \<and> b < 240 then
        (case bs of
           b1 # b2 # r \<Rightarrow>
             (let c = (b - 224) * 4096 + (b1 - 128) * 64 + (b2 - 128) in
              if cont b1 \<and> cont b2 \<and> 0x800 \<le> c \<and> scalar c
              then map_option ((#) c) (utf8_decode r) else None)
         | _ \<Rightarrow> None)
      else if 240 \<le> b \<and> b < 245 then
        (case bs of
           b1 # b2 # b3 # r \<Rightarrow>
             (let c = (b - 240) * 262144 + (b1 - 128) * 4096 + (b2 - 128) * 64 + (b3 - 128) in
              if cont b1 \<and> cont b2 \<and> cont b3 \<and> 0x10000 \<le> c \<and> scalar c
              then map_option ((#) c) (utf8_decode r) else None)
         | _ \<Rightarrow> None)
      else None)"

definition from_utf8 :: "byte list \<Rightarrow> rstring option" where
  "from_utf8 bs = utf8_decode (map unat bs)"

lemma utf8_char_length: "length (utf8_char c) = utf8_width c"
  by (simp add: utf8_char_def utf8_width_def)

lemma utf8_length: "length (utf8 s) = str_len s"
  by (induction s) (simp_all add: utf8_def str_len_def utf8_char_length)

lemma utf8_char_byte: "scalar c \<Longrightarrow> \<forall>b \<in> set (utf8_char c). b < 256"
  by (auto simp: utf8_char_def scalar_def)

lemma base64_digits3: "c div 4096 * 4096 + c div 64 mod 64 * 64 + c mod 64 = (c :: nat)"
proof -
  have "c div 4096 = c div 64 div 64" by (simp flip: div_mult2_eq)
  moreover have "c div 64 div 64 * 64 + c div 64 mod 64 = c div 64" and "c div 64 * 64 + c mod 64 = c"
    by (rule div_mult_mod_eq)+
  ultimately show ?thesis by linarith
qed

lemma base64_digits4:
  "c div 262144 * 262144 + c div 4096 mod 64 * 4096 + c div 64 mod 64 * 64 + c mod 64 = (c :: nat)"
proof -
  have "c div 262144 = c div 4096 div 64" by (simp flip: div_mult2_eq)
  moreover have "c div 4096 div 64 * 64 + c div 4096 mod 64 = c div 4096" by (rule div_mult_mod_eq)
  ultimately show ?thesis using base64_digits3 [of c] by linarith
qed

lemma utf8_decode_char:
  assumes "scalar c"
  shows "utf8_decode (utf8_char c @ r) = map_option ((#) c) (utf8_decode r)"
proof -
  consider "c < 0x80" | "0x80 \<le> c" "c < 0x800" | "0x800 \<le> c" "c < 0x10000" | "0x10000 \<le> c"
    by linarith
  then show ?thesis
  proof cases
    case 1
    then show ?thesis by (simp add: utf8_char_def)
  next
    case 2
    have "2 \<le> c div 64" and "c div 64 < 32" using 2 by linarith+
    with 2 show ?thesis by (simp add: utf8_char_def cont_def)
  next
    case 3
    have "c div 4096 * 4096 + c div 64 mod 64 * 64 + c mod 64 = c" by (rule base64_digits3)
    moreover have "c div 4096 < 16" using 3 by linarith
    ultimately show ?thesis using 3 assms by (simp add: utf8_char_def cont_def Let_def)
  next
    case 4
    have "c div 262144 * 262144 + c div 4096 mod 64 * 4096 + c div 64 mod 64 * 64 + c mod 64 = c"
      by (rule base64_digits4)
    moreover have "c div 262144 < 5"
    proof -
      have "c < 1114112" using assms by (auto simp: scalar_def)
      then show ?thesis by linarith
    qed
    ultimately show ?thesis using 4 assms by (simp add: utf8_char_def cont_def Let_def)
  qed
qed

lemma utf8_decode_concat:
  "rust_str s \<Longrightarrow> utf8_decode (concat (map utf8_char s)) = Some s"
  by (induction s) (simp_all add: rust_str_def utf8_decode_char)

lemma unat_utf8: "rust_str s \<Longrightarrow> map unat (utf8 s) = concat (map utf8_char s)"
proof (induction s)
  case Nil
  then show ?case by (simp add: utf8_def)
next
  case (Cons c s)
  then have "\<forall>b \<in> set (utf8_char c). unat (of_nat b :: byte) = b"
    using utf8_char_byte by (auto simp: rust_str_def unat_of_nat)
  then have "map (unat \<circ> (of_nat :: nat \<Rightarrow> byte)) (utf8_char c) = utf8_char c"
    by (intro map_idI) simp
  with Cons show ?case by (simp add: utf8_def rust_str_def)
qed

text \<open>Decoding inverts encoding, so distinct strings have distinct bytes.\<close>

lemma from_utf8_utf8: "rust_str s \<Longrightarrow> from_utf8 (utf8 s) = Some s"
  by (simp add: from_utf8_def unat_utf8 utf8_decode_concat)

lemma utf8_inj: "rust_str s \<Longrightarrow> rust_str t \<Longrightarrow> utf8 s = utf8 t \<longleftrightarrow> s = t"
  using from_utf8_utf8 by (metis option.inject)

section \<open>Splitting and trimming\<close>

text \<open>\<^verbatim>\<open>str::split\<close> with a character predicate, its mirror \<^verbatim>\<open>rsplit\<close>, and the first item either yields.\<close>

fun str_split :: "(rchar \<Rightarrow> bool) \<Rightarrow> rstring \<Rightarrow> rstring list" where
  "str_split P [] = [[]]"
| "str_split P (c # cs) =
     (if P c then [] # str_split P cs
      else (case str_split P cs of [] \<Rightarrow> [[c]] | p # ps \<Rightarrow> (c # p) # ps))"

definition str_rsplit :: "(rchar \<Rightarrow> bool) \<Rightarrow> rstring \<Rightarrow> rstring list" where
  "str_rsplit P s = rev (str_split P s)"

definition iter_next :: "'a list \<Rightarrow> 'a option" where
  "iter_next xs = (case xs of [] \<Rightarrow> None | x # _ \<Rightarrow> Some x)"

definition unwrap_or :: "'a option \<Rightarrow> 'a \<Rightarrow> 'a" where
  "unwrap_or x d = (case x of Some v \<Rightarrow> v | None \<Rightarrow> d)"

definition trim_matches :: "(rchar \<Rightarrow> bool) \<Rightarrow> rstring \<Rightarrow> rstring" where
  "trim_matches P s = rev (dropWhile P (rev (dropWhile P s)))"

lemma str_split_not_Nil [simp]: "str_split P s \<noteq> []"
  by (induction s) (auto split: list.splits)

lemma str_split_hd: "hd (str_split P s) = takeWhile (\<lambda>c. \<not> P c) s"
proof (induction s)
  case Nil
  then show ?case by simp
next
  case (Cons c s)
  then show ?case by (cases "str_split P s") auto
qed

lemma str_split_free: "p \<in> set (str_split P s) \<Longrightarrow> c \<in> set p \<Longrightarrow> \<not> P c \<and> c \<in> set s"
proof (induction s arbitrary: p)
  case Nil
  then show ?case by simp
next
  case (Cons d s)
  show ?case
  proof (cases "P d")
    case True
    with Cons show ?thesis by (cases "p = []") auto
  next
    case False
    obtain q qs where q: "str_split P s = q # qs" by (cases "str_split P s") auto
    with Cons.prems False have "p = d # q \<or> p \<in> set qs" by simp
    then show ?thesis using Cons.IH [of q] Cons.IH [of p] Cons.prems(2) q False by auto
  qed
qed

lemma str_split_none: "\<forall>c \<in> set s. \<not> P c \<Longrightarrow> str_split P s = [s]"
  by (induction s) auto

lemma iter_next_split [simp]: "iter_next (str_split P s) = Some (takeWhile (\<lambda>c. \<not> P c) s)"
  using str_split_hd [of P s] by (cases "str_split P s") (auto simp: iter_next_def)

lemma iter_next_rsplit: "iter_next (str_rsplit P s) = Some (last (str_split P s))"
  by (cases "str_split P s" rule: rev_cases) (auto simp: iter_next_def str_rsplit_def)

lemma unwrap_or_Some [simp]: "unwrap_or (Some v) d = v"
  and unwrap_or_None [simp]: "unwrap_or None d = d"
  by (simp_all add: unwrap_or_def)

lemma trim_matches_subset: "set (trim_matches P s) \<subseteq> set s"
  unfolding trim_matches_def using set_dropWhile_subset [of P "rev (dropWhile P s)"]
    set_dropWhile_subset [of P s] by auto

lemma trim_matches_last: "trim_matches P s \<noteq> [] \<Longrightarrow> \<not> P (last (trim_matches P s))"
  unfolding trim_matches_def using dropWhile_hd [of P "rev (dropWhile P s)"]
  by (simp add: last_rev)

lemma trim_matches_hd: "trim_matches P s \<noteq> [] \<Longrightarrow> \<not> P (hd (trim_matches P s))"
proof -
  assume ne: "trim_matches P s \<noteq> []"
  define u where "u = dropWhile P s"
  define w where "w = dropWhile P (rev u)"
  have w: "trim_matches P s = rev w" and "w \<noteq> []" using ne by (simp_all add: w_def u_def trim_matches_def)
  have "rev u = takeWhile P (rev u) @ w" by (simp add: w_def)
  then have "u = rev w @ rev (takeWhile P (rev u))" by (metis rev_append rev_rev_ident)
  then have "hd u = hd (rev w)" and "u \<noteq> []" using \<open>w \<noteq> []\<close> by (metis Nil_is_rev_conv hd_append2, auto)
  moreover have "\<not> P (hd u)" using \<open>u \<noteq> []\<close> dropWhile_hd unfolding u_def by blast
  ultimately show ?thesis using w by simp
qed

lemma trim_matches_Nil: "trim_matches P s = [] \<longleftrightarrow> (\<forall>c \<in> set s. P c)"
proof
  assume "trim_matches P s = []"
  then have "\<forall>c \<in> set (dropWhile P s). P c" by (simp add: trim_matches_def dropWhile_eq_Nil_conv)
  moreover have "set s = set (takeWhile P s) \<union> set (dropWhile P s)"
    by (metis set_append takeWhile_dropWhile_id)
  ultimately show "\<forall>c \<in> set s. P c" by (auto dest: set_takeWhileD)
next
  assume "\<forall>c \<in> set s. P c"
  then have "dropWhile P s = []" by simp
  then show "trim_matches P s = []" by (simp only: trim_matches_def rev.simps dropWhile.simps)
qed

lemma trim_matches_fixed:
  "s = [] \<or> \<not> P (hd s) \<and> \<not> P (last s) \<Longrightarrow> trim_matches P s = s"
  by (auto simp: trim_matches_def dropWhile_fixed hd_rev)

section \<open>Byte indices\<close>

text \<open>\<open>byte_split n s\<close> is \<^verbatim>\<open>(&s[..n], &s[n..])\<close>; \<open>None\<close> is the panic of an index that is out of range or
  inside a character.\<close>

fun byte_split :: "nat \<Rightarrow> rstring \<Rightarrow> (rstring \<times> rstring) option" where
  "byte_split n [] = (if n = 0 then Some ([], []) else None)"
| "byte_split n (c # cs) =
     (if n = 0 then Some ([], c # cs)
      else if utf8_width c \<le> n
        then map_option (\<lambda>(a, b). (c # a, b)) (byte_split (n - utf8_width c) cs)
      else None)"

definition str_truncate :: "nat \<Rightarrow> rstring \<Rightarrow> rstring option" where
  "str_truncate n s = (if n \<le> str_len s then map_option fst (byte_split n s) else Some s)"

definition rfind :: "rchar \<Rightarrow> rstring \<Rightarrow> nat option" where
  "rfind c s =
     (if c \<in> set s then Some (str_len (rev (tl (dropWhile (\<lambda>d. d \<noteq> c) (rev s))))) else None)"

lemma utf8_width_pos [simp]: "0 < utf8_width c"
  by (simp add: utf8_width_def)

lemma str_len_append [simp]: "str_len (a @ b) = str_len a + str_len b"
  and str_len_Nil [simp]: "str_len [] = 0"
  and str_len_Cons: "str_len (c # s) = utf8_width c + str_len s"
  by (simp_all add: str_len_def)

lemma str_len_0 [simp]: "str_len s = 0 \<longleftrightarrow> s = []"
  by (cases s) (auto simp: str_len_Cons)

lemma str_len_ascii: "ascii s \<Longrightarrow> str_len s = length s"
  by (induction s) (simp_all add: ascii_def str_len_Cons utf8_width_def)

lemma byte_split_append [simp]: "byte_split (str_len a) (a @ b) = Some (a, b)"
proof (induction a)
  case Nil
  then show ?case by (cases b) simp_all
next
  case (Cons c a)
  then show ?case by (simp add: str_len_Cons)
qed

lemma byte_split_Some: "byte_split n s = Some (a, b) \<Longrightarrow> s = a @ b \<and> str_len a = n"
proof (induction n s arbitrary: a b rule: byte_split.induct)
  case (1 n)
  then show ?case by (simp split: if_splits)
next
  case (2 n c cs)
  then show ?case by (fastforce simp: str_len_Cons split: if_splits)
qed

lemma byte_split_ascii:
  assumes "ascii s" and "n \<le> length s"
  shows "byte_split n s = Some (take n s, drop n s)"
proof -
  have "ascii (take n s)" using assms(1) by (auto simp: ascii_def dest: in_set_takeD)
  then have "str_len (take n s) = n" using assms(2) by (simp add: str_len_ascii)
  then show ?thesis using byte_split_append [of "take n s" "drop n s"] by simp
qed

lemma str_truncate_Some: "str_truncate n s = Some t \<Longrightarrow> \<exists>u. s = t @ u \<and> str_len t \<le> n"
  by (auto simp: str_truncate_def dest!: byte_split_Some split: if_splits)

lemma str_truncate_ascii: "ascii s \<Longrightarrow> str_truncate n s = Some (take n s)"
  by (simp add: str_truncate_def str_len_ascii byte_split_ascii)

lemma rfind_None [simp]: "rfind c s = None \<longleftrightarrow> c \<notin> set s"
  by (simp add: rfind_def)

lemma rfind_Some:
  assumes "rfind c s = Some i"
  obtains a b where "s = a @ c # b" "c \<notin> set b" "i = str_len a" "byte_split i s = Some (a, c # b)"
proof -
  from assms have "c \<in> set (rev s)" by (auto simp: rfind_def split: if_splits)
  then obtain b a where ba: "rev s = b @ c # a" "c \<notin> set b" by (meson split_list_first)
  then have s: "s = rev a @ c # rev b" using rev_rev_ident by (metis append_assoc append_Cons append_Nil rev.simps(2) rev_append)
  have "dropWhile (\<lambda>d. d \<noteq> c) (rev s) = c # a"
    using ba by (subst ba(1), subst dropWhile_append2) auto
  then have "i = str_len (rev a)" using assms s by (auto simp: rfind_def split: if_splits)
  then show ?thesis using that [of "rev a" "rev b"] s ba by simp
qed

lemma rfind_last: "c \<notin> set b \<Longrightarrow> rfind c (a @ c # b) = Some (str_len a)"
proof -
  assume "c \<notin> set b"
  then have "dropWhile (\<lambda>d. d \<noteq> c) (rev b @ c # rev a) = c # rev a"
    by (subst dropWhile_append2) auto
  then show ?thesis by (simp add: rfind_def)
qed

end
