(* ===== verification/Rust_Num.thy ===== *)
theory Rust_Num
  imports Rust_Text
begin

text \<open>
  Formatting and parsing of numbers (\<^verbatim>\<open>u64::to_string\<close>, \<^verbatim>\<open>str::parse\<close>, \<^verbatim>\<open>{:02x}\<close>), and the remaining
  string operations: \<^verbatim>\<open>replace\<close>, \<^verbatim>\<open>to_ascii_uppercase\<close>, \<^verbatim>\<open>strip_prefix\<close>.
\<close>

section \<open>Decimal numbers\<close>

fun nat_to_string :: "nat \<Rightarrow> rstring" where
  "nat_to_string n = (if n < 10 then [48 + n] else nat_to_string (n div 10) @ [48 + n mod 10])"

declare nat_to_string.simps [simp del]

definition digits_value :: "rstring \<Rightarrow> nat" where
  "digits_value s = foldl (\<lambda>v c. 10 * v + (c - 48)) 0 s"

text \<open>\<^verbatim>\<open>from_str\<close> of an unsigned type with \<open>bits\<close> bits: an optional \<^verbatim>\<open>+\<close>, at least one digit, no
  overflow.\<close>

definition parse_uint :: "nat \<Rightarrow> rstring \<Rightarrow> nat option" where
  "parse_uint bits s =
     (let ds = (case s of c # cs \<Rightarrow> if c = 43 then cs else s | [] \<Rightarrow> []) in
      if ds = [] \<or> \<not> list_all is_ascii_digit ds then None
      else if digits_value ds < 2 ^ bits then Some (digits_value ds) else None)"

definition parse_u64 :: "rstring \<Rightarrow> u64 option" where
  "parse_u64 s = map_option of_nat (parse_uint 64 s)"

definition u64_to_string :: "u64 \<Rightarrow> rstring" where
  "u64_to_string n = nat_to_string (unat n)"

lemma nat_to_string_not_Nil [simp]: "nat_to_string n \<noteq> []"
  by (subst nat_to_string.simps) simp

lemma nat_to_string_digits: "list_all is_ascii_digit (nat_to_string n)"
proof (induction n rule: nat_to_string.induct)
  case (1 n)
  moreover have "is_ascii_digit (48 + n mod 10)" and "n < 10 \<Longrightarrow> is_ascii_digit (48 + n)"
    by (auto simp: is_ascii_digit_def)
  ultimately show ?case by (subst nat_to_string.simps) simp
qed

lemma nat_to_string_value: "digits_value (nat_to_string n) = n"
proof (induction n rule: nat_to_string.induct)
  case (1 n)
  then show ?case by (subst nat_to_string.simps) (auto simp: digits_value_def)
qed

lemma nat_to_string_ascii: "c \<in> set (nat_to_string n) \<Longrightarrow> 48 \<le> c \<and> c \<le> 57"
  using nat_to_string_digits [of n] by (auto simp: list_all_iff is_ascii_digit_def)

lemma nat_to_string_no_plus: "(case nat_to_string n of c # cs \<Rightarrow> if c = 43 then cs else nat_to_string n | [] \<Rightarrow> [])
    = nat_to_string n"
  using nat_to_string_ascii [of _ n] by (cases "nat_to_string n") fastforce+

text \<open>Printing and parsing a number are inverse.\<close>

lemma parse_uint_nat_to_string: "n < 2 ^ bits \<Longrightarrow> parse_uint bits (nat_to_string n) = Some n"
  by (simp add: parse_uint_def nat_to_string_no_plus nat_to_string_digits nat_to_string_value)

lemma parse_u64_to_string: "parse_u64 (u64_to_string n) = Some n"
proof -
  have "unat n < 2 ^ LENGTH(64)" by (rule unsigned_less)
  then show ?thesis by (simp add: parse_u64_def u64_to_string_def parse_uint_nat_to_string)
qed

lemma parse_uint_bound: "parse_uint bits s = Some n \<Longrightarrow> n < 2 ^ bits"
  by (auto simp: parse_uint_def Let_def split: if_splits)

section \<open>Hexadecimal\<close>

definition hex_digit :: "nat \<Rightarrow> rchar" where
  "hex_digit n = (if n < 10 then 48 + n else 87 + n)"

text \<open>\<^verbatim>\<open>format!("{b:02x}")\<close>: two lower-case digits.\<close>

definition hex2 :: "byte \<Rightarrow> rstring" where
  "hex2 b = [hex_digit (unat b div 16), hex_digit (unat b mod 16)]"

definition is_lower_hex :: "rchar \<Rightarrow> bool" where
  "is_lower_hex c \<longleftrightarrow> is_ascii_digit c \<or> 97 \<le> c \<and> c \<le> 102"

lemma hex_digit_lower: "n < 16 \<Longrightarrow> is_lower_hex (hex_digit n)"
  by (auto simp: hex_digit_def is_lower_hex_def is_ascii_digit_def)

lemma hex_digit_inj: "m < 16 \<Longrightarrow> n < 16 \<Longrightarrow> hex_digit m = hex_digit n \<longleftrightarrow> m = n"
  by (auto simp: hex_digit_def)

lemma byte_bound: "unat (b :: byte) < 256"
proof -
  have "unat b < 2 ^ LENGTH(8)" by (rule unsigned_less)
  then show ?thesis by simp
qed

lemma byte_div16: "unat (b :: byte) div 16 < 16"
  using byte_bound [of b] by (simp add: less_mult_imp_div_less)

lemma hex2_inj: "hex2 a = hex2 b \<longleftrightarrow> a = b"
proof
  assume "hex2 a = hex2 b"
  then have "unat a div 16 = unat b div 16" and "unat a mod 16 = unat b mod 16"
    by (simp_all add: hex2_def hex_digit_inj byte_div16)
  then have "unat a = unat b" by (metis div_mult_mod_eq)
  then show "a = b" by (simp add: word_unat_eq_iff)
qed simp

section \<open>Other operations\<close>

definition str_replace :: "rchar \<Rightarrow> rchar \<Rightarrow> rstring \<Rightarrow> rstring" where
  "str_replace a b s = map (\<lambda>c. if c = a then b else c) s"

definition to_ascii_uppercase :: "rstring \<Rightarrow> rstring" where
  "to_ascii_uppercase s = map (\<lambda>c. if 97 \<le> c \<and> c \<le> 122 then c - 32 else c) s"

definition strip_prefix :: "rstring \<Rightarrow> rstring \<Rightarrow> rstring option" where
  "strip_prefix p s = (if take (length p) s = p then Some (drop (length p) s) else None)"

lemma strip_prefix_append [simp]: "strip_prefix p (p @ s) = Some s"
  by (simp add: strip_prefix_def)

lemma str_replace_free: "a \<noteq> b \<Longrightarrow> a \<notin> set (str_replace a b s)"
  by (auto simp: str_replace_def split: if_splits)

lemma str_replace_id: "a \<notin> set s \<Longrightarrow> str_replace a b s = s"
  unfolding str_replace_def by (rule map_idI) auto

declare lit_def [text_defs] str_len_def [text_defs] utf8_width_def [text_defs]
  is_control_def [text_defs] is_whitespace_def [text_defs] iter_next_def [text_defs]
  unwrap_or_def [text_defs] trim_matches_def [text_defs] str_rsplit_def [text_defs]
  to_ascii_uppercase_def [text_defs] str_replace_def [text_defs] rfind_def [text_defs]
  str_truncate_def [text_defs]

end
