(* ===== verification/Rust_Path.thy ===== *)
theory Rust_Path
  imports Rust_Num
begin

text \<open>
  The part of \<^verbatim>\<open>std::path\<close> the program uses, for the Unix path syntax of its Android target: a path is
  its text, \<open>components\<close> parses it (repeated slashes and inner dots vanish, a leading dot does not),
  and \<open>path_push\<close> is \<^verbatim>\<open>PathBuf::push\<close>. Two texts name the same file when their components agree.
\<close>

datatype component = Prefix rstring | RootDir | CurDir | ParentDir | Normal rstring

definition is_slash :: "rchar \<Rightarrow> bool" where
  "is_slash c \<longleftrightarrow> c = 47"

definition piece :: "rstring \<Rightarrow> component list" where
  "piece s = (if s = [] \<or> s = lit ''.'' then [] else if s = lit ''..'' then [ParentDir] else [Normal s])"

definition path_body :: "rstring \<Rightarrow> component list" where
  "path_body p = concat (map piece (str_split is_slash p))"

definition path_lead :: "rstring \<Rightarrow> component list" where
  "path_lead p =
     (if p \<noteq> [] \<and> is_slash (hd p) then [RootDir]
      else if takeWhile (\<lambda>c. \<not> is_slash c) p = lit ''.'' then [CurDir] else [])"

definition components :: "rstring \<Rightarrow> component list" where
  "components p = path_lead p @ path_body p"

definition path_push :: "rstring \<Rightarrow> rstring \<Rightarrow> rstring" where
  "path_push base p =
     (if p \<noteq> [] \<and> is_slash (hd p) then p
      else if base \<noteq> [] \<and> \<not> is_slash (last base) then base @ 47 # p
      else base @ p)"

definition path_join :: "rstring \<Rightarrow> rstring \<Rightarrow> rstring" where
  "path_join base p = path_push base p"

definition path_starts_with :: "rstring \<Rightarrow> rstring \<Rightarrow> bool" where
  "path_starts_with p base \<longleftrightarrow> take (length (components base)) (components p) = components base"

text \<open>\<^verbatim>\<open>Path::file_name\<close>: the last component, when it is a normal one.\<close>

definition path_file_name :: "rstring \<Rightarrow> rstring option" where
  "path_file_name p =
     (case rev (components p) of Normal n # _ \<Rightarrow> Some n | _ \<Rightarrow> None)"

text \<open>A text that is one normal component.\<close>

definition normal_part :: "rstring \<Rightarrow> bool" where
  "normal_part p \<longleftrightarrow> p \<noteq> [] \<and> (\<forall>c \<in> set p. \<not> is_slash c) \<and> p \<noteq> lit ''.'' \<and> p \<noteq> lit ''..''"

declare is_slash_def [text_defs] piece_def [text_defs] path_body_def [text_defs] path_lead_def [text_defs]
  components_def [text_defs] path_push_def [text_defs] path_join_def [text_defs]

section \<open>Parsing a pushed path\<close>

lemma str_split_append: "P c \<Longrightarrow> str_split P (a @ c # b) = str_split P a @ str_split P b"
proof (induction a)
  case Nil
  then show ?case by simp
next
  case (Cons d a)
  then show ?case by (cases "str_split P a") auto
qed

lemma path_body_append: "path_body (a @ 47 # b) = path_body a @ path_body b"
  by (simp add: path_body_def str_split_append is_slash_def)

lemma takeWhile_slash: "takeWhile (\<lambda>c. \<not> is_slash c) (a @ 47 # b) = takeWhile (\<lambda>c. \<not> is_slash c) a"
  by (induction a) (auto simp: is_slash_def)

lemma path_lead_append: "a \<noteq> [] \<Longrightarrow> path_lead (a @ 47 # b) = path_lead a"
  by (simp add: path_lead_def takeWhile_slash)

lemma components_slash: "components (a @ 47 # b) = components (if a = [] then [47] else a) @ path_body b"
proof (cases "a = []")
  case True
  have "path_body ([] @ 47 # b) = path_body b" by (simp add: path_body_def is_slash_def piece_def)
  with True show ?thesis by (simp add: components_def path_lead_def path_body_def is_slash_def piece_def)
next
  case False
  then show ?thesis by (simp add: components_def path_lead_append path_body_append)
qed

lemma components_trailing_slash: "a \<noteq> [] \<Longrightarrow> components (a @ [47]) = components a"
  using components_slash [of a "[]"] by (simp add: path_body_def piece_def)

lemma components_normal: "normal_part p \<Longrightarrow> path_body p = [Normal p] \<and> path_lead p = []"
proof -
  assume n: "normal_part p"
  then have "str_split is_slash p = [p]" by (intro str_split_none) (simp add: normal_part_def)
  moreover have tw: "takeWhile (\<lambda>c. \<not> is_slash c) p = p"
    using n by (auto simp: normal_part_def takeWhile_eq_all_conv)
  moreover have "\<not> is_slash (hd p)" using n by (cases p) (auto simp: normal_part_def)
  ultimately show ?thesis using n by (simp add: path_body_def path_lead_def piece_def normal_part_def tw)
qed

lemma normal_part_hd: "normal_part p \<Longrightarrow> p \<noteq> [] \<and> \<not> is_slash (hd p)"
  by (cases p) (auto simp: normal_part_def)

text \<open>Pushing a path with no leading root or dot appends its body, whatever the base looks like.\<close>

lemma components_push_body:
  assumes "path_lead p = []"
  shows "components (path_push base p) = components base @ path_body p"
proof -
  from assms have p: "\<not> (p \<noteq> [] \<and> is_slash (hd p))" by (auto simp: path_lead_def split: if_splits)
  consider "base = []" | a where "base = a @ [47]" | "base \<noteq> []" "\<not> is_slash (last base)"
    by (cases base rule: rev_cases) (auto simp: is_slash_def)
  then show ?thesis
  proof cases
    case 1
    with p assms show ?thesis
      by (simp add: path_push_def) (simp add: components_def path_lead_def path_body_def piece_def lit_def)
  next
    case (2 a)
    have "components (a @ [47]) = components (if a = [] then [47] else a)"
      using components_trailing_slash by simp
    with 2 p components_slash [of a p] show ?thesis by (auto simp: path_push_def is_slash_def)
  next
    case 3
    with p components_slash [of base p] show ?thesis by (auto simp: path_push_def)
  qed
qed

lemma components_push: "normal_part p \<Longrightarrow> components (path_push base p) = components base @ [Normal p]"
  using components_push_body [of p base] components_normal by simp

lemma components_push_all:
  "\<forall>p \<in> set parts. normal_part p \<Longrightarrow>
    components (foldl path_push base parts) = components base @ map Normal parts"
  by (induction parts arbitrary: base) (simp_all add: components_push)

lemma components_Normal: "Normal n \<in> set (components p) \<Longrightarrow> normal_part n"
proof -
  assume "Normal n \<in> set (components p)"
  then have "Normal n \<in> set (path_body p)" by (auto simp: components_def path_lead_def split: if_splits)
  then have "n \<in> set (str_split is_slash p)" and "n \<noteq> []" and "n \<noteq> lit ''.''" and "n \<noteq> lit ''..''"
    by (auto simp: path_body_def piece_def split: if_splits)
  then show ?thesis using str_split_free [of n is_slash p] by (auto simp: normal_part_def)
qed

lemma path_push_not_Nil: "normal_part p \<Longrightarrow> path_push base p \<noteq> []"
  by (auto simp: path_push_def normal_part_def)

lemma components_Nil [simp]: "components [] = []"
  by (simp add: components_def path_lead_def path_body_def piece_def lit_def)

lemma push_all_Nil: "\<forall>p \<in> set parts. normal_part p \<Longrightarrow> foldl path_push [] parts = [] \<longleftrightarrow> parts = []"
  using components_push_all [of parts "[]"] by (cases "parts = []") (auto simp flip: map_is_Nil_conv)

text \<open>A path all of whose components are normal has no lead.\<close>

lemma components_all_normal:
  assumes "components p = map Normal parts"
  shows "path_lead p = [] \<and> path_body p = map Normal parts"
proof -
  have "\<forall>c \<in> set (path_lead p). \<forall>n. c \<noteq> Normal n" by (simp add: path_lead_def)
  with assms have "path_lead p = []"
    unfolding components_def by (cases "path_lead p") (auto simp: Cons_eq_map_conv append_eq_map_conv)
  with assms show ?thesis by (simp add: components_def)
qed

lemma components_join_all:
  assumes "\<forall>p \<in> set parts. normal_part p"
  shows "components (path_join base (foldl path_push [] parts)) = components base @ map Normal parts"
proof -
  have "components (foldl path_push [] parts) = map Normal parts"
    using components_push_all [OF assms, of "[]"] by simp
  from components_all_normal [OF this] show ?thesis
    by (simp add: path_join_def components_push_body)
qed

lemma starts_with_append: "components p = components base @ cs \<Longrightarrow> path_starts_with p base"
  by (simp add: path_starts_with_def)

end
