(* ===== verification/Errors.thy ===== *)
theory Errors
  imports Rust_Num
begin

text \<open>
  \<^verbatim>\<open>filedrop-core/src/error.rs\<close>: the crate-wide error type, its \<^verbatim>\<open>Display\<close> text, and the result
  type the fallible operations return (\<open>Inl\<close> the error). A \<^verbatim>\<open>std::io::Error\<close> and a
  \<^verbatim>\<open>serde_json::Error\<close> are represented by the text they display.
\<close>

datatype fd_error =
    Io rstring
  | UnsafePath rstring
  | InvalidFilename rstring
  | InvalidPairingToken
  | ChecksumMismatch rstring rstring
  | TransferNotFound uuid
  | DeviceNotFound uuid
  | Storage rstring
  | Discovery rstring
  | Network rstring
  | Serde rstring
  | UnsupportedOnPlatform rstring
  | InvalidState rstring

type_synonym 'a result = "fd_error + 'a"

text \<open>The \<^verbatim>\<open>#[error(...)]\<close> formats; \<open>show_uuid\<close> is the \<^verbatim>\<open>Display\<close> of the uuid crate.\<close>

fun display_error :: "(uuid \<Rightarrow> rstring) \<Rightarrow> fd_error \<Rightarrow> rstring" where
  "display_error show_uuid (Io e) = lit ''io error: '' @ e"
| "display_error show_uuid (UnsafePath p) = lit ''invalid or unsafe path: '' @ p"
| "display_error show_uuid (InvalidFilename f) = lit ''invalid filename: '' @ f"
| "display_error show_uuid InvalidPairingToken = lit ''pairing token invalid or expired''"
| "display_error show_uuid (ChecksumMismatch e a) =
     lit ''checksum mismatch: expected '' @ e @ lit '', got '' @ a"
| "display_error show_uuid (TransferNotFound u) = lit ''transfer not found: '' @ show_uuid u"
| "display_error show_uuid (DeviceNotFound u) = lit ''device not found: '' @ show_uuid u"
| "display_error show_uuid (Storage e) = lit ''storage error: '' @ e"
| "display_error show_uuid (Discovery e) = lit ''discovery error: '' @ e"
| "display_error show_uuid (Network e) = lit ''network error: '' @ e"
| "display_error show_uuid (Serde e) = lit ''serialization error: '' @ e"
| "display_error show_uuid (UnsupportedOnPlatform e) =
     lit ''operation not supported on this platform: '' @ e"
| "display_error show_uuid (InvalidState e) = lit ''invalid state transition: '' @ e"

definition map_ok :: "('a \<Rightarrow> 'b) \<Rightarrow> 'e + 'a \<Rightarrow> 'e + 'b" where
  "map_ok f r = (case r of Inl e \<Rightarrow> Inl e | Inr x \<Rightarrow> Inr (f x))"

definition map_err :: "('e \<Rightarrow> 'f) \<Rightarrow> 'e + 'a \<Rightarrow> 'f + 'a" where
  "map_err f r = (case r of Inl e \<Rightarrow> Inl (f e) | Inr x \<Rightarrow> Inr x)"

definition and_then :: "'e + 'a \<Rightarrow> ('a \<Rightarrow> 'e + 'b) \<Rightarrow> 'e + 'b" where
  "and_then r f = (case r of Inl e \<Rightarrow> Inl e | Inr x \<Rightarrow> f x)"

lemma result_simps [simp]:
  "map_ok f (Inl e) = Inl e" "map_ok f (Inr x) = Inr (f x)"
  "map_err g (Inl e) = Inl (g e)" "map_err g (Inr x) = Inr x"
  "and_then (Inl e) h = Inl e" "and_then (Inr x) h = h x"
  by (simp_all add: map_ok_def map_err_def and_then_def)

text \<open>What the two text parameters of the uuid crate are documented to be: the hyphenated lower-case
  form, and a parser that accepts it.\<close>

definition uuid_text :: "(uuid \<Rightarrow> rstring) \<Rightarrow> bool" where
  "uuid_text show_uuid \<longleftrightarrow>
     (\<forall>u. length (show_uuid u) = 36 \<and> (\<forall>c \<in> set (show_uuid u). is_lower_hex c \<or> c = 45)) \<and> inj show_uuid"

definition uuid_parses :: "(uuid \<Rightarrow> rstring) \<Rightarrow> (rstring \<Rightarrow> uuid option) \<Rightarrow> bool" where
  "uuid_parses show_uuid parse_uuid \<longleftrightarrow> (\<forall>u. parse_uuid (show_uuid u) = Some u)"

end
