(* ===== verification/Filename.thy ===== *)
theory Filename
  imports Rust_Num
begin

text \<open>
  \<^verbatim>\<open>filedrop-core/src/security/filename.rs\<close>: \<^verbatim>\<open>sanitize_filename\<close>, stage by stage. The result is an
  option because \<^verbatim>\<open>String::truncate\<close> panics when the cut falls inside a character.
\<close>

definition WINDOWS_RESERVED :: "rstring list" where
  "WINDOWS_RESERVED = map lit
     [''CON'', ''PRN'', ''AUX'', ''NUL'', ''COM1'', ''COM2'', ''COM3'', ''COM4'', ''COM5'', ''COM6'',
      ''COM7'', ''COM8'', ''COM9'', ''LPT1'', ''LPT2'', ''LPT3'', ''LPT4'', ''LPT5'', ''LPT6'',
      ''LPT7'', ''LPT8'', ''LPT9'']"

definition MAX_FILENAME_LEN :: nat where
  "MAX_FILENAME_LEN = 255"

text \<open>\<^verbatim>\<open>< > : " | ? *\<close>\<close>

definition windows_invalid :: "rchar \<Rightarrow> bool" where
  "windows_invalid c \<longleftrightarrow> c = 60 \<or> c = 62 \<or> c = 58 \<or> c = 34 \<or> c = 124 \<or> c = 63 \<or> c = 42"

definition path_separator :: "rchar \<Rightarrow> bool" where
  "path_separator c \<longleftrightarrow> c = 47 \<or> c = 92"

definition dot_or_space :: "rchar \<Rightarrow> bool" where
  "dot_or_space c \<longleftrightarrow> c = 46 \<or> is_whitespace c"

definition strip_path :: "rstring \<Rightarrow> rstring" where
  "strip_path untrusted = unwrap_or (iter_next (str_rsplit path_separator untrusted)) untrusted"

definition strip_invalid :: "rstring \<Rightarrow> rstring" where
  "strip_invalid s = filter (\<lambda>c. \<not> windows_invalid c \<and> \<not> is_control c) s"

definition name_or_default :: "rstring \<Rightarrow> rstring" where
  "name_or_default trimmed = (if trimmed = [] then lit ''unnamed_file'' else trimmed)"

definition stem_upper :: "rstring \<Rightarrow> rstring" where
  "stem_upper result = to_ascii_uppercase (unwrap_or (iter_next (str_split (\<lambda>c. c = 46) result)) result)"

definition guard_reserved :: "rstring \<Rightarrow> rstring" where
  "guard_reserved result =
     (if stem_upper result \<in> set WINDOWS_RESERVED then 95 # result else result)"

definition stem_ext :: "rstring \<Rightarrow> (rstring \<times> rstring) option" where
  "stem_ext result =
     (case rfind 46 result of
        Some idx \<Rightarrow> if idx > 0 then byte_split idx result else Some (result, [])
      | None \<Rightarrow> Some (result, []))"

definition limit_length :: "rstring \<Rightarrow> rstring option" where
  "limit_length result =
     (if str_len result > MAX_FILENAME_LEN then
        (case stem_ext result of
           None \<Rightarrow> None
         | Some (stem, ext) \<Rightarrow>
             (let keep = MAX_FILENAME_LEN - str_len ext in
              map_option (\<lambda>truncated_stem. truncated_stem @ ext) (str_truncate keep stem)))
      else Some result)"

text \<open>Everything before the length limit.\<close>

definition clean_name :: "rstring \<Rightarrow> rstring" where
  "clean_name untrusted =
     guard_reserved (name_or_default (trim_matches dot_or_space (strip_invalid (strip_path untrusted))))"

definition sanitize_filename :: "rstring \<Rightarrow> rstring option" where
  "sanitize_filename untrusted = limit_length (clean_name untrusted)"

declare WINDOWS_RESERVED_def [text_defs] MAX_FILENAME_LEN_def [text_defs] windows_invalid_def [text_defs]
  path_separator_def [text_defs] dot_or_space_def [text_defs] strip_path_def [text_defs]
  strip_invalid_def [text_defs] name_or_default_def [text_defs] stem_upper_def [text_defs]
  guard_reserved_def [text_defs] stem_ext_def [text_defs] limit_length_def [text_defs]
  clean_name_def [text_defs] sanitize_filename_def [text_defs]

section \<open>What a cleaned name looks like\<close>

text \<open>No separator, no control or NTFS-invalid character, not empty, and no dot or blank at either
  end.\<close>

definition name_char :: "rchar \<Rightarrow> bool" where
  "name_char c \<longleftrightarrow> \<not> path_separator c \<and> \<not> windows_invalid c \<and> \<not> is_control c"

definition clean :: "rstring \<Rightarrow> bool" where
  "clean s \<longleftrightarrow> s \<noteq> [] \<and> (\<forall>c \<in> set s. name_char c) \<and> \<not> dot_or_space (hd s) \<and> \<not> dot_or_space (last s)"

lemma strip_path_free: "c \<in> set (strip_path s) \<Longrightarrow> \<not> path_separator c \<and> c \<in> set s"
  using str_split_free [of "last (str_split path_separator s)" path_separator s c]
  by (simp add: strip_path_def iter_next_rsplit)

lemma strip_path_id: "\<forall>c \<in> set s. \<not> path_separator c \<Longrightarrow> strip_path s = s"
  by (simp add: strip_path_def iter_next_rsplit str_split_none)

lemma clean_unnamed: "clean (lit ''unnamed_file'')"
  by (simp add: clean_def name_char_def text_defs)

lemma clean_guard: "clean s \<Longrightarrow> clean (guard_reserved s)"
  by (auto simp: guard_reserved_def clean_def name_char_def text_defs)

lemma clean_clean_name: "clean (clean_name s)"
proof -
  define t where "t = trim_matches dot_or_space (strip_invalid (strip_path s))"
  have "name_char c" if "c \<in> set t" for c
  proof -
    have "c \<in> set (strip_invalid (strip_path s))" using that trim_matches_subset by (auto simp: t_def)
    then show ?thesis using strip_path_free by (auto simp: strip_invalid_def name_char_def)
  qed
  then have "clean (name_or_default t)"
    using clean_unnamed trim_matches_hd [of dot_or_space] trim_matches_last [of dot_or_space]
    by (auto simp: name_or_default_def t_def clean_def)
  then show ?thesis by (simp add: clean_name_def t_def clean_guard)
qed

section \<open>The length limit\<close>

text \<open>A cleaned name splits at its last dot into a non-empty stem and an extension that is more than
  the dot, or has no dot at all.\<close>

lemma stem_ext_clean:
  assumes "clean s"
  obtains (ext) a b where "s = a @ 46 # b" "46 \<notin> set b" "a \<noteq> []" "b \<noteq> []" "stem_ext s = Some (a, 46 # b)"
    | (no_ext) "46 \<notin> set s" "stem_ext s = Some (s, [])"
proof (cases "rfind 46 s")
  case None
  then have "stem_ext s = Some (s, [])" by (simp only: stem_ext_def option.case)
  moreover have "46 \<notin> set s" using None by simp
  ultimately show ?thesis by (intro no_ext)
next
  case (Some i)
  then obtain a b where ab: "s = a @ 46 # b" "46 \<notin> set b" "i = str_len a" "byte_split i s = Some (a, 46 # b)"
    by (rule rfind_Some)
  with assms have "a \<noteq> []" and "b \<noteq> []" by (auto simp: clean_def dot_or_space_def)
  moreover from this ab Some have "stem_ext s = Some (a, 46 # b)" by (simp add: stem_ext_def)
  ultimately show ?thesis using ab by (intro ext [of a b])
qed

text \<open>What the length limit makes of a cleaned name: nothing, a cut stem with the whole extension, or a
  cut name without one.\<close>

lemma limit_length_cases:
  assumes "clean s" and "limit_length s = Some r"
  obtains (short) "str_len s \<le> MAX_FILENAME_LEN" "r = s"
    | (cut) a b t u where "MAX_FILENAME_LEN < str_len s" "s = a @ 46 # b" "46 \<notin> set b" "b \<noteq> []" "a = t @ u"
        "r = t @ 46 # b" "str_len t \<le> MAX_FILENAME_LEN - str_len (46 # b)"
    | (cut_plain) u where "MAX_FILENAME_LEN < str_len s" "46 \<notin> set s" "s = r @ u" "str_len r = MAX_FILENAME_LEN"
proof (cases "str_len s \<le> MAX_FILENAME_LEN")
  case True
  with assms(2) have "r = s" by (simp add: limit_length_def)
  with True show ?thesis by (rule short)
next
  case False
  from assms(1) show ?thesis
  proof (cases rule: stem_ext_clean)
    case (ext a b)
    with False assms(2) obtain t where t: "str_truncate (MAX_FILENAME_LEN - str_len (46 # b)) a = Some t" "r = t @ 46 # b"
      by (auto simp: limit_length_def Let_def)
    from str_truncate_Some [OF t(1)]
    obtain u where "a = t @ u" and "str_len t \<le> MAX_FILENAME_LEN - str_len (46 # b)" by blast
    with False ext t show ?thesis by (intro cut [of a b t u]) simp_all
  next
    case no_ext
    with False assms(2) have "str_truncate MAX_FILENAME_LEN s = Some r"
      by (auto simp: limit_length_def)
    with False obtain u where "s = r @ u" and "str_len r = MAX_FILENAME_LEN"
      by (auto simp: str_truncate_def dest!: byte_split_Some)
    moreover from False have "MAX_FILENAME_LEN < str_len s" by simp
    ultimately show ?thesis using no_ext by (intro cut_plain [of u])
  qed
qed

text \<open>A name that is safe as one path component.\<close>

definition safe_name :: "rstring \<Rightarrow> bool" where
  "safe_name r \<longleftrightarrow> r \<noteq> [] \<and> (\<forall>c \<in> set r. name_char c) \<and> r \<noteq> lit ''.'' \<and> r \<noteq> lit ''..''
     \<and> (\<exists>c \<in> set r. \<not> is_whitespace c)"

lemma last_dots [simp]: "last (lit ''.'') = 46" "last (lit ''..'') = 46"
  by (simp_all add: lit_def)

lemma dot_not_space: "\<not> is_whitespace 46"
  by (simp add: is_whitespace_def)

lemma safe_name_ext:
  assumes "\<forall>c \<in> set (t @ 46 # b). name_char c" and "b \<noteq> []" and "46 \<notin> set b"
  shows "safe_name (t @ 46 # b)"
proof -
  have "last b \<in> set b" using assms(2) by simp
  with assms(2,3) have "last (t @ 46 # b) \<noteq> 46" by (metis last_ConsR last_appendR list.distinct(1))
  then have "t @ 46 # b \<noteq> lit ''.''" and "t @ 46 # b \<noteq> lit ''..''" by (metis last_dots)+
  with assms(1) show ?thesis using dot_not_space by (auto simp: safe_name_def)
qed

lemma safe_name_no_dot:
  assumes "\<forall>c \<in> set r. name_char c" and "r \<noteq> []" and "46 \<notin> set r" and "\<not> is_whitespace (hd r)"
  shows "safe_name r"
  using assms hd_in_set [of r] by (auto simp: safe_name_def lit_def)

lemma safe_name_clean:
  assumes "clean r"
  shows "safe_name r"
proof -
  have "last r \<noteq> 46" and "hd r \<in> set r" and "\<not> is_whitespace (hd r)"
    using assms by (auto simp: clean_def dot_or_space_def)
  then have "r \<noteq> lit ''.''" and "r \<noteq> lit ''..''" by (metis last_dots)+
  with \<open>hd r \<in> set r\<close> \<open>\<not> is_whitespace (hd r)\<close> assms show ?thesis by (auto simp: safe_name_def clean_def)
qed

lemma limit_length_safe:
  assumes "clean s" and "limit_length s = Some r"
  shows "safe_name r"
  using assms
proof (cases rule: limit_length_cases)
  case short
  with assms(1) show ?thesis by (simp add: safe_name_clean)
next
  case (cut a b t u)
  then show ?thesis using assms(1) by (auto intro!: safe_name_ext simp: clean_def)
next
  case (cut_plain u)
  then have "r \<noteq> []" by (auto simp: MAX_FILENAME_LEN_def)
  then have "hd s = hd r" using cut_plain by simp
  with cut_plain \<open>r \<noteq> []\<close> assms(1) show ?thesis
    by (auto intro!: safe_name_no_dot simp: clean_def dot_or_space_def)
qed

lemma sanitize_filename_name: "sanitize_filename n = Some r \<Longrightarrow> safe_name r"
  unfolding sanitize_filename_def by (rule limit_length_safe [OF clean_clean_name])

section \<open>Reserved names and idempotence\<close>

lemma stem_upper_eq: "stem_upper s = to_ascii_uppercase (takeWhile (\<lambda>c. c \<noteq> 46) s)"
  by (simp add: stem_upper_def)

lemma guard_not_reserved: "stem_upper (guard_reserved s) \<notin> set WINDOWS_RESERVED"
proof (cases "stem_upper s \<in> set WINDOWS_RESERVED")
  case True
  have "hd (stem_upper (95 # s)) = 95" by (simp add: stem_upper_eq to_ascii_uppercase_def)
  moreover have "\<forall>w \<in> set WINDOWS_RESERVED. hd w \<noteq> 95" by (simp add: WINDOWS_RESERVED_def lit_def)
  ultimately show ?thesis using True by (auto simp: guard_reserved_def)
next
  case False
  then show ?thesis by (simp add: guard_reserved_def)
qed

lemma clean_name_fixed:
  assumes "clean s" and "stem_upper s \<notin> set WINDOWS_RESERVED"
  shows "clean_name s = s"
proof -
  from assms(1) have "strip_path s = s" and "strip_invalid s = s"
    by (auto simp: clean_def name_char_def strip_path_id strip_invalid_def filter_id_conv)
  moreover have "trim_matches dot_or_space s = s" using assms(1) by (simp add: trim_matches_fixed clean_def)
  ultimately show ?thesis using assms by (simp add: clean_name_def name_or_default_def clean_def guard_reserved_def)
qed

lemma clean_name_idem: "clean_name (clean_name s) = clean_name s"
  by (rule clean_name_fixed [OF clean_clean_name]) (simp add: clean_name_def guard_not_reserved)

section \<open>ASCII input never panics\<close>

lemma clean_name_ascii:
  assumes "ascii s"
  shows "ascii (clean_name s)"
proof -
  have "set (trim_matches dot_or_space (strip_invalid (strip_path s))) \<subseteq> set s"
    using trim_matches_subset [of dot_or_space] strip_path_free by (fastforce simp: strip_invalid_def)
  with assms have "ascii (trim_matches dot_or_space (strip_invalid (strip_path s)))"
    by (auto simp: ascii_def)
  then show ?thesis
    by (auto simp: clean_name_def guard_reserved_def name_or_default_def ascii_def lit_def)
qed

lemma limit_length_ascii:
  assumes "clean s" and "ascii s"
  shows "\<exists>r. limit_length s = Some r \<and> ascii r"
  using assms(1)
proof (cases rule: stem_ext_clean)
  case (ext a b)
  with assms(2) have "ascii a" and "ascii (46 # b)" by (auto simp: ascii_def)
  with ext assms(2) show ?thesis
    by (auto simp: limit_length_def Let_def str_truncate_ascii ascii_def dest: in_set_takeD)
next
  case no_ext
  with assms(2) show ?thesis
    by (auto simp: limit_length_def str_truncate_ascii ascii_def dest: in_set_takeD)
qed

lemma sanitize_ascii_total: "ascii untrusted \<Longrightarrow> \<exists>r. sanitize_filename untrusted = Some r \<and> ascii r"
  unfolding sanitize_filename_def by (intro limit_length_ascii clean_clean_name clean_name_ascii)

section \<open>Properties\<close>

text \<open>C31: whatever the peer sends, a name that \<^verbatim>\<open>sanitize_filename\<close> returns is one safe path component: not
  empty, not \<^verbatim>\<open>.\<close> or \<^verbatim>\<open>..\<close>, not blank, with no separator, no control character and no character
  NTFS refuses.\<close>

theorem sanitize_filename_safe:
  "sanitize_filename untrusted = Some r \<Longrightarrow>
    r \<noteq> [] \<and> (\<forall>c \<in> set r. \<not> path_separator c \<and> \<not> windows_invalid c \<and> \<not> is_control c)
    \<and> r \<noteq> lit ''.'' \<and> r \<noteq> lit ''..'' \<and> (\<exists>c \<in> set r. \<not> is_whitespace c)"
  using sanitize_filename_name [of untrusted r] unfolding safe_name_def name_char_def by blast

theorem sanitize_filename_safe_witness:
  "sanitize_filename (lit ''../../etc/passwd'') = Some (lit ''passwd'') \<and>
   list_all (\<lambda>c. \<not> path_separator c \<and> \<not> windows_invalid c \<and> \<not> is_control c) (lit ''passwd'')"
proof -
  have e: "sanitize_filename (lit ''../../etc/passwd'') = Some (lit ''passwd'')" by (simp add: text_defs)
  from e sanitize_filename_safe [OF e] show ?thesis unfolding list_all_iff by blast
qed

text \<open>C40: sanitizing ASCII text (all a header value can be) always returns, and returns ASCII text.\<close>

theorem sanitize_filename_ascii:
  "ascii untrusted \<Longrightarrow> \<exists>r. sanitize_filename untrusted = Some r \<and> ascii r"
  by (rule sanitize_ascii_total)

theorem sanitize_filename_ascii_witness:
  "ascii (lit ''a:b.txt'') \<and> (\<exists>r. sanitize_filename (lit ''a:b.txt'') = Some r \<and> ascii r)"
proof -
  have "ascii (lit ''a:b.txt'')" by (simp add: ascii_def lit_def)
  then show ?thesis using sanitize_filename_ascii by blast
qed

text \<open>The name fits \<open>MAX_FILENAME_LEN\<close> bytes, or else the cleaned name's extension alone is at least
  that long and is what is returned; in both cases an extension is kept whole.\<close>

theorem sanitize_filename_length:
  assumes "sanitize_filename untrusted = Some r"
  shows "str_len r \<le> MAX_FILENAME_LEN \<and> (46 \<in> set (clean_name untrusted) \<longrightarrow>
      (\<exists>stem t b. clean_name untrusted = stem @ 46 # b \<and> 46 \<notin> set b \<and> r = t @ 46 # b))
    \<or> (\<exists>stem b. clean_name untrusted = stem @ 46 # b \<and> 46 \<notin> set b \<and> r = 46 # b \<and> MAX_FILENAME_LEN \<le> str_len r)"
  using clean_clean_name assms [unfolded sanitize_filename_def]
proof (cases rule: limit_length_cases)
  case short
  then show ?thesis using split_list_last [of 46 r] by auto
next
  case (cut a b t u)
  show ?thesis
  proof (cases "str_len (46 # b) \<le> MAX_FILENAME_LEN")
    case True
    with cut have "str_len r \<le> MAX_FILENAME_LEN" by simp
    with cut show ?thesis by blast
  next
    case False
    with cut have "t = []" and "MAX_FILENAME_LEN \<le> str_len (46 # b)" by auto
    with cut show ?thesis by auto
  qed
next
  case (cut_plain u)
  then show ?thesis by simp
qed

theorem sanitize_filename_length_witness:
  "sanitize_filename (lit ''con.txt'') = Some (lit ''_con.txt'') \<and> str_len (lit ''_con.txt'') \<le> MAX_FILENAME_LEN"
proof -
  have e: "sanitize_filename (lit ''con.txt'') = Some (lit ''_con.txt'')" by (simp add: text_defs)
  from sanitize_filename_length [OF e] have "str_len (lit ''_con.txt'') \<le> MAX_FILENAME_LEN" by (auto simp: text_defs)
  with e show ?thesis by blast
qed

text \<open>A name that needs no cut is not a reserved Windows device name (its stem, whatever the case,
  is none of them), and sanitizing it again changes nothing.\<close>

theorem sanitize_filename_idempotent:
  assumes "sanitize_filename untrusted = Some r" and "str_len (clean_name untrusted) \<le> MAX_FILENAME_LEN"
  shows "sanitize_filename r = Some r \<and> stem_upper r \<notin> set WINDOWS_RESERVED"
proof -
  from assms have "r = clean_name untrusted" by (simp add: sanitize_filename_def limit_length_def)
  with assms(2) show ?thesis
    by (simp add: sanitize_filename_def clean_name_idem limit_length_def)
      (simp add: clean_name_def guard_not_reserved)
qed

theorem sanitize_filename_idempotent_witness:
  "sanitize_filename (lit ''nul'') = Some (lit ''_nul'') \<and> sanitize_filename (lit ''_nul'') = Some (lit ''_nul'')
    \<and> stem_upper (lit ''_nul'') \<notin> set WINDOWS_RESERVED"
proof -
  have e: "sanitize_filename (lit ''nul'') = Some (lit ''_nul'')" by (simp add: text_defs)
  have l: "str_len (clean_name (lit ''nul'')) \<le> MAX_FILENAME_LEN" by (simp add: text_defs)
  from e sanitize_filename_idempotent [OF e l] show ?thesis by blast
qed

section \<open>Corners of the code\<close>

lemma stem_ext_last: "46 \<notin> set b \<Longrightarrow> a \<noteq> [] \<Longrightarrow> stem_ext (a @ 46 # b) = Some (a, 46 # b)"
  by (simp add: stem_ext_def rfind_last)

lemma sanitize_cut:
  assumes "clean (a @ 46 # b)" and "stem_upper (a @ 46 # b) \<notin> set WINDOWS_RESERVED"
    and "a \<noteq> []" and "46 \<notin> set b" and "MAX_FILENAME_LEN < str_len (a @ 46 # b)"
  shows "sanitize_filename (a @ 46 # b) =
    map_option (\<lambda>t. t @ 46 # b) (str_truncate (MAX_FILENAME_LEN - str_len (46 # b)) a)"
  using assms by (simp add: sanitize_filename_def clean_name_fixed limit_length_def stem_ext_last)

lemma clean_replicate:
  assumes "name_char c" and "\<not> dot_or_space c" and "0 < n" and "clean (lit stem)"
  shows "clean (lit stem @ 46 # replicate n c)"
  using assms by (auto simp: clean_def name_char_def text_defs last_replicate)

text \<open>An extension of 255 bytes or more is returned whole, so the limit is not kept.\<close>

lemma sanitize_long_extension:
  "sanitize_filename (lit ''a'' @ 46 # replicate 300 98) = Some (46 # replicate 300 98)"
  "MAX_FILENAME_LEN < str_len (46 # replicate 300 98)"
proof -
  have n: "str_len (46 # replicate 300 98) = 301" by (simp add: str_len_ascii ascii_def)
  have "clean (lit ''a'' @ 46 # replicate 300 98)"
    by (rule clean_replicate) (simp_all add: text_defs clean_def name_char_def)
  moreover have "stem_upper (lit ''a'' @ 46 # replicate 300 98) \<notin> set WINDOWS_RESERVED"
    by (simp add: stem_upper_eq text_defs)
  ultimately show "sanitize_filename (lit ''a'' @ 46 # replicate 300 98) = Some (46 # replicate 300 98)"
    using n by (subst sanitize_cut) (auto simp: text_defs)
  show "MAX_FILENAME_LEN < str_len (46 # replicate 300 98)" by (simp only: n MAX_FILENAME_LEN_def)
qed

text \<open>The reserved-name check is made before the cut, and the cut can produce a reserved name:
  \<^verbatim>\<open>CONx.bbb\<dots>\<close> becomes \<^verbatim>\<open>CON.bbb\<dots>\<close>.\<close>

lemma sanitize_cut_reserved:
  "sanitize_filename (lit ''CONx'' @ 46 # replicate 251 98) = Some (lit ''CON'' @ 46 # replicate 251 98)"
  "stem_upper (lit ''CON'' @ 46 # replicate 251 98) \<in> set WINDOWS_RESERVED"
proof -
  have n: "str_len (46 # replicate 251 98) = 252" by (simp add: str_len_ascii ascii_def)
  have "clean (lit ''CONx'' @ 46 # replicate 251 98)"
    by (rule clean_replicate) (simp_all add: text_defs clean_def name_char_def)
  moreover have "stem_upper (lit ''CONx'' @ 46 # replicate 251 98) \<notin> set WINDOWS_RESERVED"
    by (simp add: stem_upper_eq text_defs)
  ultimately show "sanitize_filename (lit ''CONx'' @ 46 # replicate 251 98) = Some (lit ''CON'' @ 46 # replicate 251 98)"
    using n by (subst sanitize_cut) (simp_all add: text_defs)
  show "stem_upper (lit ''CON'' @ 46 # replicate 251 98) \<in> set WINDOWS_RESERVED"
    by (simp add: stem_upper_eq text_defs)
qed

text \<open>Outside ASCII the cut can fall inside a character, and \<^verbatim>\<open>String::truncate\<close> panics: 128 times U+00E9
  is 256 bytes, and byte 255 is the middle of the last one.\<close>

lemma byte_split_wide: "byte_split (Suc (2 * n)) (replicate m 233) = None"
proof (induction m arbitrary: n)
  case 0
  then show ?case by simp
next
  case (Suc m)
  show ?case
  proof (cases n)
    case 0
    then show ?thesis by (simp add: utf8_width_def)
  next
    case (Suc k)
    have "2 * n + 1 - utf8_width 233 = Suc (2 * k)" by (simp add: utf8_width_def Suc)
    then show ?thesis using Suc.IH [of k] by (simp add: Suc)
  qed
qed

lemma sanitize_panics: "sanitize_filename (replicate 128 233) = None"
proof -
  have c: "clean (replicate 128 233)" by (simp add: clean_def name_char_def text_defs)
  have "hd (stem_upper (replicate 128 233)) = 233"
    by (simp add: stem_upper_eq to_ascii_uppercase_def)
  then have "stem_upper (replicate 128 233) \<notin> set WINDOWS_RESERVED"
    by (auto simp: WINDOWS_RESERVED_def lit_def)
  with c have "clean_name (replicate 128 233) = replicate 128 233" by (rule clean_name_fixed)
  moreover have "str_len (replicate 128 233) = 256" by (simp add: str_len_def utf8_width_def sum_list_replicate)
  moreover have "stem_ext (replicate 128 233) = Some (replicate 128 233, [])" by (simp add: stem_ext_def rfind_def)
  ultimately show ?thesis using byte_split_wide [of 127 128]
    by (simp add: sanitize_filename_def limit_length_def MAX_FILENAME_LEN_def str_truncate_def)
qed

text \<open>Dots inside a name are kept, contrary to the comment that \<^verbatim>\<open>..\<close> sequences are stripped.\<close>

lemma sanitize_keeps_dots: "sanitize_filename (lit ''a..b'') = Some (lit ''a..b'')"
  by (simp add: text_defs)

end
