(* ===== verification/Safe_Join.thy ===== *)
theory Safe_Join
  imports Rust_Path Errors Filename
begin

text \<open>
  \<^verbatim>\<open>filedrop-core/src/security/path.rs\<close>: \<^verbatim>\<open>safe_join\<close> with its checks in the code's order, its
  complete functional behaviour, and confinement: what it returns lies under the base directory. At
  the end, the interface the transfer server relies on (a sanitized name joins to one component under
  the directory) as a locale, interpreted on \<^verbatim>\<open>sanitize_filename\<close> and \<^verbatim>\<open>safe_join\<close>.
\<close>

text \<open>The loop over the components of the normalized path.\<close>

fun resolve_components :: "rstring \<Rightarrow> component list \<Rightarrow> rstring \<Rightarrow> rstring result" where
  "resolve_components untrusted [] resolved = Inr resolved"
| "resolve_components untrusted (Normal part # cs) resolved =
     resolve_components untrusted cs (path_push resolved part)"
| "resolve_components untrusted (CurDir # cs) resolved = resolve_components untrusted cs resolved"
| "resolve_components untrusted (ParentDir # cs) resolved =
     Inl (UnsafePath (lit ''parent directory traversal rejected: '' @ untrusted))"
| "resolve_components untrusted (RootDir # cs) resolved =
     Inl (UnsafePath (lit ''absolute path rejected: '' @ untrusted))"
| "resolve_components untrusted (Prefix p # cs) resolved =
     Inl (UnsafePath (lit ''absolute path rejected: '' @ untrusted))"

definition safe_join :: "rstring \<Rightarrow> rstring \<Rightarrow> rstring result" where
  "safe_join base untrusted =
     (if 0 \<in> set untrusted then Inl (UnsafePath (lit ''embedded NUL byte in path''))
      else if trim_matches is_whitespace untrusted = [] then Inl (UnsafePath (lit ''empty path''))
      else
        (let normalized = str_replace 92 47 untrusted in
         and_then (resolve_components untrusted (components normalized) [])
           (\<lambda>resolved.
              if resolved = [] then Inl (UnsafePath (lit ''resolves to empty path''))
              else
                (let joined = path_join base resolved in
                 if \<not> path_starts_with joined base
                 then Inl (UnsafePath (lit ''resolved path escapes base directory: '' @ untrusted))
                 else Inr joined))))"

declare safe_join_def [text_defs] path_starts_with_def [text_defs]

fun_cases resolve_Normal: "resolve_components u (Normal part # cs) r = Inr s"
  and resolve_Cur: "resolve_components u (CurDir # cs) r = Inr s"

section \<open>The loop\<close>

definition harmless :: "component \<Rightarrow> bool" where
  "harmless c \<longleftrightarrow> (case c of Normal _ \<Rightarrow> True | CurDir \<Rightarrow> True | _ \<Rightarrow> False)"

fun normal_parts :: "component list \<Rightarrow> rstring list" where
  "normal_parts [] = []"
| "normal_parts (Normal p # cs) = p # normal_parts cs"
| "normal_parts (c # cs) = normal_parts cs"

text \<open>The loop returns an error for the first component that is not harmless, and otherwise pushes
  the normal ones.\<close>

lemma resolve_ok:
  "\<forall>c \<in> set cs. harmless c \<Longrightarrow>
    resolve_components u cs r = Inr (foldl path_push r (normal_parts cs))"
  by (induction u cs r rule: resolve_components.induct) (simp_all add: harmless_def)

lemma resolve_err:
  "\<not> (\<forall>c \<in> set cs. harmless c) \<Longrightarrow>
    resolve_components u cs r =
      Inl (UnsafePath ((if find (\<lambda>c. \<not> harmless c) cs = Some ParentDir
         then lit ''parent directory traversal rejected: '' else lit ''absolute path rejected: '') @ u))"
  by (induction u cs r rule: resolve_components.induct) (simp_all add: harmless_def)

lemma normal_parts_mem: "p \<in> set (normal_parts cs) \<longleftrightarrow> Normal p \<in> set cs"
  by (induction cs rule: normal_parts.induct) auto

lemma normal_parts_of_path: "p \<in> set (normal_parts (components q)) \<Longrightarrow> normal_part p"
  by (simp add: normal_parts_mem components_Normal)

section \<open>The whole function\<close>

lemma safe_join_eq:
  "safe_join base untrusted =
     (let cs = components (str_replace 92 47 untrusted) in
      if 0 \<in> set untrusted then Inl (UnsafePath (lit ''embedded NUL byte in path''))
      else if trim_matches is_whitespace untrusted = [] then Inl (UnsafePath (lit ''empty path''))
      else if \<not> list_all harmless cs then
        Inl (UnsafePath ((if find (\<lambda>c. \<not> harmless c) cs = Some ParentDir
          then lit ''parent directory traversal rejected: '' else lit ''absolute path rejected: '') @ untrusted))
      else if normal_parts cs = [] then Inl (UnsafePath (lit ''resolves to empty path''))
      else Inr (path_join base (foldl path_push [] (normal_parts cs))))"
proof -
  define cs where "cs = components (str_replace 92 47 untrusted)"
  have n: "\<forall>p \<in> set (normal_parts cs). normal_part p" by (simp add: cs_def normal_parts_of_path)
  show ?thesis
  proof (cases "\<forall>c \<in> set cs. harmless c")
    case True
    then show ?thesis
      using push_all_Nil [OF n] starts_with_append [OF components_join_all [OF n]]
      by (simp add: safe_join_def resolve_ok list_all_iff flip: cs_def)
  next
    case False
    then show ?thesis by (simp add: safe_join_def resolve_err Let_def list_all_iff flip: cs_def)
  qed
qed

section \<open>Properties\<close>

text \<open>The complete behaviour of \<^verbatim>\<open>safe_join\<close>: the four rejections in the code's order, and otherwise the
  normal components of the path (backslashes read as separators) pushed below the base. The last check
  of the code, that the joined path still starts with the base, never fires.\<close>

theorem safe_join_behaviour:
  "safe_join base untrusted =
     (let cs = components (str_replace 92 47 untrusted) in
      if 0 \<in> set untrusted then Inl (UnsafePath (lit ''embedded NUL byte in path''))
      else if trim_matches is_whitespace untrusted = [] then Inl (UnsafePath (lit ''empty path''))
      else if \<not> list_all harmless cs then
        Inl (UnsafePath ((if find (\<lambda>c. \<not> harmless c) cs = Some ParentDir
          then lit ''parent directory traversal rejected: '' else lit ''absolute path rejected: '') @ untrusted))
      else if normal_parts cs = [] then Inl (UnsafePath (lit ''resolves to empty path''))
      else Inr (path_join base (foldl path_push [] (normal_parts cs))))"
  by (rule safe_join_eq)

text \<open>C11: confinement: a path \<^verbatim>\<open>safe_join\<close> returns has the components of the base followed by at least one
  normal component and nothing else, so no \<^verbatim>\<open>..\<close>, root or dot can lead out of the base.\<close>

theorem safe_join_confined:
  assumes "safe_join base untrusted = Inr p"
  shows "\<exists>parts. parts \<noteq> [] \<and> list_all normal_part parts \<and> components p = components base @ map Normal parts"
proof -
  define parts where "parts = normal_parts (components (str_replace 92 47 untrusted))"
  have n: "\<forall>p \<in> set parts. normal_part p" by (simp add: parts_def normal_parts_of_path)
  from assms have "parts \<noteq> []" and "p = path_join base (foldl path_push [] parts)"
    by (auto simp: safe_join_eq Let_def parts_def split: if_splits)
  with n components_join_all [OF n] show ?thesis unfolding list_all_iff by blast
qed

theorem safe_join_confined_witness:
  "safe_join (lit ''/data/received'') (lit ''a/./b.txt'') = Inr (lit ''/data/received/a/b.txt'') \<and>
   (\<exists>parts. parts \<noteq> [] \<and> list_all normal_part parts \<and>
      components (lit ''/data/received/a/b.txt'') = components (lit ''/data/received'') @ map Normal parts)"
proof -
  have e: "safe_join (lit ''/data/received'') (lit ''a/./b.txt'') = Inr (lit ''/data/received/a/b.txt'')"
    by (simp add: text_defs)
  from e safe_join_confined [OF e] show ?thesis by blast
qed

section \<open>Names as path components\<close>

definition plain_name :: "rstring \<Rightarrow> bool" where
  "plain_name r \<longleftrightarrow> normal_part r \<and> 0 \<notin> set r \<and> 92 \<notin> set r \<and> (\<exists>c \<in> set r. \<not> is_whitespace c)"

lemma safe_join_plain:
  assumes "plain_name r"
  shows "safe_join base r = Inr (path_join base r)"
proof -
  from assms have r: "normal_part r" "0 \<notin> set r" "str_replace 92 47 r = r" "trim_matches is_whitespace r \<noteq> []"
    by (auto simp: plain_name_def str_replace_id trim_matches_Nil)
  have "components r = [Normal r]" using components_normal [OF r(1)] by (simp add: components_def)
  moreover have "path_push [] r = r" by (simp add: path_push_def)
  ultimately show ?thesis using r by (simp add: safe_join_eq harmless_def)
qed

lemma components_join_plain: "plain_name r \<Longrightarrow> components (path_join base r) = components base @ [Normal r]"
  by (simp add: path_join_def components_push plain_name_def)

lemma safe_name_plain: "safe_name r \<Longrightarrow> plain_name r"
  by (auto simp: safe_name_def plain_name_def normal_part_def name_char_def path_separator_def
      is_slash_def is_control_def)

text \<open>What the server needs of the two functions together, and what follows from it: a peer's name leads
  to exactly one entry of the directory, two names to the same entry only when they sanitize alike, and
  never to an entry of another directory.\<close>

locale upload_names =
  fixes sanitize :: "rstring \<Rightarrow> rstring option"
    and join :: "rstring \<Rightarrow> rstring \<Rightarrow> rstring result"
    and comps :: "rstring \<Rightarrow> component list"
  assumes join_sanitized:
    "sanitize n = Some r \<Longrightarrow> \<exists>p. join base r = Inr p \<and> comps p = comps base @ [Normal r]"
begin

lemma never_refused: "sanitize n = Some r \<Longrightarrow> join base r \<noteq> Inl e"
  using join_sanitized [of n r base] by auto

lemma entry: "sanitize n = Some r \<Longrightarrow> join base r = Inr p \<Longrightarrow> comps p = comps base @ [Normal r]"
  using join_sanitized [of n r base] by auto

lemma same_entry:
  "sanitize m = Some r \<Longrightarrow> sanitize n = Some s \<Longrightarrow> join base r = Inr p \<Longrightarrow> join base s = Inr q \<Longrightarrow>
    comps p = comps q \<longleftrightarrow> r = s"
  using entry [of m r base p] entry [of n s base q] by auto

lemma other_directory:
  "sanitize m = Some r \<Longrightarrow> join base r = Inr p \<Longrightarrow> comps q = comps dir @ [c] \<Longrightarrow> comps dir \<noteq> comps base \<Longrightarrow>
    comps p \<noteq> comps q"
  using entry [of m r base p] by auto

end

interpretation upload: upload_names sanitize_filename safe_join components
proof
  fix n r base
  assume "sanitize_filename n = Some r"
  then have "plain_name r" by (intro safe_name_plain sanitize_filename_name)
  then show "\<exists>p. safe_join base r = Inr p \<and> components p = components base @ [Normal r]"
    by (simp add: safe_join_plain components_join_plain)
qed

text \<open>C30: the two security functions composed, as the upload handler composes them: a sanitized name is
  never refused by \<^verbatim>\<open>safe_join\<close>, it denotes one entry directly inside the directory, and different
  sanitized names denote different entries.\<close>

theorem sanitized_name_joins:
  assumes "sanitize_filename n = Some r"
  shows "safe_join base r = Inr (path_join base r) \<and> components (path_join base r) = components base @ [Normal r]
    \<and> (\<forall>m s. sanitize_filename m = Some s \<longrightarrow>
         (components (path_join base s) = components (path_join base r) \<longleftrightarrow> s = r))"
proof -
  have j: "safe_join base s = Inr (path_join base s)" if "sanitize_filename m = Some s" for m s
    using that by (intro safe_join_plain safe_name_plain sanitize_filename_name)
  show ?thesis using upload.entry [OF assms j [OF assms]] upload.same_entry [OF _ assms j j [OF assms]] j assms
    by blast
qed

theorem sanitized_name_joins_witness:
  "sanitize_filename (lit ''/etc/a b.txt'') = Some (lit ''a b.txt'') \<and>
   safe_join (lit ''/r'') (lit ''a b.txt'') = Inr (lit ''/r/a b.txt'')"
proof -
  have e: "sanitize_filename (lit ''/etc/a b.txt'') = Some (lit ''a b.txt'')" by (simp add: text_defs)
  have "path_join (lit ''/r'') (lit ''a b.txt'') = lit ''/r/a b.txt''" by (simp add: text_defs)
  with e sanitized_name_joins [OF e, of "lit ''/r''"] show ?thesis by simp
qed

end
