(* ===== verification/Token.thy ===== *)
theory Token
  imports Errors
begin

unbundle bit_operations_syntax

text \<open>
  \<^verbatim>\<open>filedrop-core/src/security/token.rs\<close> (format check and constant-time comparison) and
  \<^verbatim>\<open>filedrop-core/src/pairing/token.rs\<close> (generation). The random source and the base64 encoder are
  third-party code and are parameters, \<open>rng\<close> and \<open>b64\<close>.
\<close>

definition TOKEN_BYTE_LEN :: nat where
  "TOKEN_BYTE_LEN = 32"

definition EXPECTED_ENCODED_LEN :: nat where
  "EXPECTED_ENCODED_LEN = 43"

definition is_ascii_alphanumeric :: "byte \<Rightarrow> bool" where
  "is_ascii_alphanumeric b \<longleftrightarrow>
     48 \<le> b \<and> b \<le> 57 \<or> 65 \<le> b \<and> b \<le> 90 \<or> 97 \<le> b \<and> b \<le> 122"

definition token_byte :: "byte \<Rightarrow> bool" where
  "token_byte b \<longleftrightarrow> is_ascii_alphanumeric b \<or> b = 45 \<or> b = 95"

definition validate_token_format :: "rstring \<Rightarrow> unit result" where
  "validate_token_format token =
     (if str_len token \<noteq> EXPECTED_ENCODED_LEN then Inl InvalidPairingToken
      else if \<not> list_all token_byte (utf8 token) then Inl InvalidPairingToken
      else Inr ())"

definition tokens_match :: "rstring \<Rightarrow> rstring \<Rightarrow> bool" where
  "tokens_match a b =
     (let a = utf8 a; b = utf8 b in
      if length a \<noteq> length b then False
      else foldl (\<lambda>diff (x, y). diff OR (x XOR y)) 0 (zip a b) = 0)"

definition generate_pairing_token :: "(nat \<Rightarrow> byte list) \<Rightarrow> (byte list \<Rightarrow> rstring) \<Rightarrow> rstring" where
  "generate_pairing_token rng b64 = (let bytes = rng TOKEN_BYTE_LEN in b64 bytes)"

text \<open>Documented behaviour of the parameters: the generator fills the whole buffer, and
  \<^verbatim>\<open>URL_SAFE_NO_PAD\<close> writes \<open>\<lceil>4 n / 3\<rceil>\<close> characters of the URL-safe alphabet for \<open>n\<close> bytes.\<close>

definition fills :: "(nat \<Rightarrow> byte list) \<Rightarrow> bool" where
  "fills rng \<longleftrightarrow> (\<forall>n. length (rng n) = n)"

definition b64_char :: "rchar \<Rightarrow> bool" where
  "b64_char c \<longleftrightarrow> 48 \<le> c \<and> c \<le> 57 \<or> 65 \<le> c \<and> c \<le> 90 \<or> 97 \<le> c \<and> c \<le> 122 \<or> c = 45 \<or> c = 95"

definition b64_url_safe :: "(byte list \<Rightarrow> rstring) \<Rightarrow> bool" where
  "b64_url_safe b64 \<longleftrightarrow>
     (\<forall>bs. length (b64 bs) = (4 * length bs + 2) div 3 \<and> (\<forall>c \<in> set (b64 bs). b64_char c))"

section \<open>The comparison\<close>

lemma or_eq_0: "(x :: byte) OR y = 0 \<longleftrightarrow> x = 0 \<and> y = 0"
  by (rule or_eq_0_iff)

lemma xor_eq_0: "(x :: byte) XOR y = 0 \<longleftrightarrow> x = y"
proof
  assume "x XOR y = 0"
  then have "x XOR (y XOR y) = 0 XOR y" by (simp only: flip: xor.assoc)
  then show "x = y" by (simp only: xor_self_eq xor.right_neutral xor.left_neutral)
qed simp

lemma diff_loop:
  "foldl (\<lambda>diff (x, y). diff OR (x XOR y)) (d :: byte) zs = 0 \<longleftrightarrow> d = 0 \<and> (\<forall>(x, y) \<in> set zs. x = y)"
proof (induction zs arbitrary: d)
  case Nil
  then show ?case by simp
next
  case (Cons z zs)
  then show ?case by (cases z) (auto simp: or_eq_0 xor_eq_0)
qed

lemma zip_all_equal: "length xs = length ys \<Longrightarrow> (\<forall>(x, y) \<in> set (zip xs ys). x = y) \<longleftrightarrow> xs = ys"
  by (induction xs ys rule: list_induct2) auto

lemma tokens_match_bytes: "tokens_match a b \<longleftrightarrow> utf8 a = utf8 b"
  by (auto simp: tokens_match_def Let_def diff_loop zip_all_equal)

lemma tokens_match_refl [simp]: "tokens_match a a"
  by (simp add: tokens_match_bytes)

text \<open>The constant-time comparison accepts exactly the equal tokens.\<close>

theorem tokens_match_iff:
  assumes "rust_str a" and "rust_str b"
  shows "tokens_match a b \<longleftrightarrow> a = b"
  using utf8_inj [OF assms] by (simp add: tokens_match_bytes)

theorem tokens_match_iff_witness:
  "rust_str (lit ''tok-A'') \<and> rust_str (lit ''tok-B'') \<and> \<not> tokens_match (lit ''tok-A'') (lit ''tok-B'')"
proof -
  have a: "rust_str (lit ''tok-A'')" and b: "rust_str (lit ''tok-B'')"
    by (simp_all add: rust_str_def scalar_def lit_def)
  have "lit ''tok-A'' \<noteq> lit ''tok-B''" by (simp add: lit_def)
  with a b tokens_match_iff [OF a b] show ?thesis by blast
qed

section \<open>The format\<close>

lemma token_byte_unat: "token_byte b \<longleftrightarrow> b64_char (unat b)"
  unfolding token_byte_def is_ascii_alphanumeric_def b64_char_def word_le_nat_alt word_unat_eq_iff
  by simp

lemma token_byte_of_nat: "n < 256 \<Longrightarrow> token_byte (of_nat n) \<longleftrightarrow> b64_char n"
  by (simp add: token_byte_unat unat_of_nat)

lemma b64_char_ascii: "b64_char c \<Longrightarrow> c < 128"
  by (auto simp: b64_char_def)

lemma token_bytes_char: "scalar c \<Longrightarrow> list_all token_byte (map of_nat (utf8_char c)) \<longleftrightarrow> b64_char c"
proof (cases "c < 128")
  case True
  then show ?thesis by (simp add: utf8_char_def token_byte_of_nat)
next
  case False
  assume s: "scalar c"
  with False have "\<exists>b \<in> set (utf8_char c). 128 \<le> b \<and> b < 256"
    using utf8_char_byte [OF s] by (auto simp: utf8_char_def split: if_splits)
  then have "\<exists>b \<in> set (utf8_char c). \<not> token_byte (of_nat b)"
    using b64_char_ascii token_byte_of_nat by (metis not_le)
  with False b64_char_ascii show ?thesis by (auto simp: list_all_iff)
qed

lemma token_bytes: "rust_str t \<Longrightarrow> list_all token_byte (utf8 t) \<longleftrightarrow> (\<forall>c \<in> set t. b64_char c)"
  by (induction t) (simp_all add: utf8_def rust_str_def token_bytes_char)

text \<open>A token passes the format check exactly when it is 43 characters of the URL-safe base64 alphabet.\<close>

theorem validate_token_format_iff:
  assumes "rust_str token"
  shows "validate_token_format token = Inr () \<longleftrightarrow> length token = 43 \<and> (\<forall>c \<in> set token. b64_char c)"
proof (cases "\<forall>c \<in> set token. b64_char c")
  case True
  then have "ascii token" using b64_char_ascii by (auto simp: ascii_def)
  with True assms show ?thesis
    by (simp add: validate_token_format_def EXPECTED_ENCODED_LEN_def str_len_ascii token_bytes)
next
  case False
  with assms show ?thesis by (auto simp: validate_token_format_def token_bytes)
qed

theorem validate_token_format_iff_witness:
  "rust_str (replicate 43 65) \<and> validate_token_format (replicate 43 65) = Inr ()"
proof -
  have r: "rust_str (replicate 43 65)" by (simp add: rust_str_def scalar_def)
  from r validate_token_format_iff [OF r] show ?thesis by (simp add: b64_char_def)
qed

text \<open>A generated token has the format the validator wants.\<close>

theorem generated_token_valid:
  assumes "fills rng" and "b64_url_safe b64"
  shows "validate_token_format (generate_pairing_token rng b64) = Inr ()"
proof -
  have l: "length (generate_pairing_token rng b64) = 43"
    using assms by (simp add: generate_pairing_token_def fills_def b64_url_safe_def TOKEN_BYTE_LEN_def)
  have c: "\<forall>c \<in> set (generate_pairing_token rng b64). b64_char c"
    using assms(2) by (simp add: generate_pairing_token_def b64_url_safe_def)
  then have "rust_str (generate_pairing_token rng b64)"
    using b64_char_ascii by (fastforce simp: rust_str_def scalar_def)
  from this l c show ?thesis
    by (simp add: validate_token_format_def token_bytes EXPECTED_ENCODED_LEN_def)
      (metis ascii_def b64_char_ascii str_len_ascii)
qed

text \<open>A base64 encoder as RFC 4648 defines it, to show that the assumption on \<open>b64\<close> can hold.\<close>

definition b64_digit :: "nat \<Rightarrow> rchar" where
  "b64_digit n = (if n < 26 then 65 + n else if n < 52 then 71 + n else if n < 62 then n - 4 else if n = 62 then 45 else 95)"

fun rfc4648 :: "nat list \<Rightarrow> rstring" where
  "rfc4648 (a # b # c # r) =
     [b64_digit (a div 4), b64_digit (a mod 4 * 16 + b div 16), b64_digit (b mod 16 * 4 + c div 64), b64_digit (c mod 64)]
     @ rfc4648 r"
| "rfc4648 [a, b] = [b64_digit (a div 4), b64_digit (a mod 4 * 16 + b div 16), b64_digit (b mod 16 * 4)]"
| "rfc4648 [a] = [b64_digit (a div 4), b64_digit (a mod 4 * 16)]"
| "rfc4648 [] = []"

lemma rfc4648_length: "length (rfc4648 bs) = (4 * length bs + 2) div 3"
  by (induction bs rule: rfc4648.induct) simp_all

lemma b64_digit_char: "b64_char (b64_digit n)"
  unfolding b64_char_def b64_digit_def by (simp split: if_splits; linarith)

lemma rfc4648_chars: "c \<in> set (rfc4648 bs) \<Longrightarrow> b64_char c"
  by (induction bs rule: rfc4648.induct) (auto simp: b64_digit_char)

theorem generated_token_valid_witness:
  "validate_token_format (generate_pairing_token (\<lambda>n. replicate n 7) (rfc4648 \<circ> map unat)) = Inr ()"
proof -
  have f: "fills (\<lambda>n. replicate n 7)" by (simp add: fills_def)
  have b: "b64_url_safe (rfc4648 \<circ> map unat)" by (simp add: b64_url_safe_def rfc4648_length rfc4648_chars)
  from generated_token_valid [OF f b] show ?thesis .
qed

end
