(* ===== verification/Pairing.thy ===== *)
theory Pairing
  imports Token
begin

text \<open>
  \<^verbatim>\<open>filedrop-core/src/pairing/state.rs\<close> and \<^verbatim>\<open>pairing/qr.rs\<close>: the pairing requests, the state machine's
  operations with the current time as an argument, and runs of operations. Each operation takes the
  write lock once and awaits nothing while it holds it, so it is one atomic step.
\<close>

datatype PairingState = Pending | AwaitingConfirmation | Paired | Rejected

record PairingRequest =
  pr_peer_device_id :: uuid
  pr_peer_name :: rstring
  pr_token :: rstring
  pr_state :: PairingState
  pr_created_at :: i64
  pr_expires_at :: i64

record PairingStateMachine =
  requests :: "uuid \<rightharpoonup> PairingRequest"

text \<open>\<^verbatim>\<open>now_unix\<close>: the seconds of \<^verbatim>\<open>duration_since(UNIX_EPOCH)\<close> (\<open>None\<close>: the clock is before the epoch).\<close>

definition now_unix :: "u64 option \<Rightarrow> i64" where
  "now_unix since_epoch = i64_wrap (int (unat (unwrap_or since_epoch 0)))"

definition is_expired :: "PairingRequest \<Rightarrow> i64 \<Rightarrow> bool" where
  "is_expired r now \<longleftrightarrow> now \<ge> pr_expires_at r"

definition psm_new :: PairingStateMachine where
  "psm_new = \<lparr>requests = Map.empty\<rparr>"

definition insert_request :: "PairingRequest \<Rightarrow> PairingStateMachine \<Rightarrow> PairingStateMachine" where
  "insert_request r m = m\<lparr>requests := (requests m)(pr_peer_device_id r \<mapsto> r)\<rparr>"

definition set_state :: "uuid \<Rightarrow> PairingRequest \<Rightarrow> PairingState \<Rightarrow> PairingStateMachine \<Rightarrow> PairingStateMachine" where
  "set_state peer r st m = m\<lparr>requests := (requests m)(peer \<mapsto> r\<lparr>pr_state := st\<rparr>)\<rparr>"

definition create_request ::
  "uuid \<Rightarrow> rstring \<Rightarrow> rstring \<Rightarrow> i64 \<Rightarrow> i64 \<Rightarrow> PairingStateMachine \<Rightarrow> PairingRequest \<times> PairingStateMachine" where
  "create_request peer name tok ttl_secs now m =
     (let request = \<lparr>pr_peer_device_id = peer, pr_peer_name = name, pr_token = tok, pr_state = Pending,
                     pr_created_at = now, pr_expires_at = i64_wrap (now + ttl_secs)\<rparr>
      in (request, insert_request request m))"

definition present_token ::
  "uuid \<Rightarrow> rstring \<Rightarrow> i64 \<Rightarrow> PairingStateMachine \<Rightarrow> unit result \<times> PairingStateMachine" where
  "present_token peer presented now m =
     (case requests m peer of
        None \<Rightarrow> (Inl InvalidPairingToken, m)
      | Some r \<Rightarrow>
          if is_expired r now then (Inl InvalidPairingToken, set_state peer r Rejected m)
          else if \<not> tokens_match (pr_token r) presented then (Inl InvalidPairingToken, m)
          else (Inr (), set_state peer r AwaitingConfirmation m))"

definition confirm ::
  "uuid \<Rightarrow> bool \<Rightarrow> PairingStateMachine \<Rightarrow> PairingState result \<times> PairingStateMachine" where
  "confirm peer accept m =
     (case requests m peer of
        None \<Rightarrow> (Inl (DeviceNotFound peer), m)
      | Some r \<Rightarrow>
          (let st = (if accept then Paired else Rejected) in (Inr st, set_state peer r st m)))"

definition get_request :: "uuid \<Rightarrow> PairingStateMachine \<Rightarrow> PairingRequest option" where
  "get_request peer m = requests m peer"

definition is_paired :: "uuid \<Rightarrow> PairingStateMachine \<Rightarrow> bool" where
  "is_paired peer m = (case requests m peer of Some r \<Rightarrow> pr_state r = Paired | None \<Rightarrow> False)"

definition sweep_request :: "i64 \<Rightarrow> PairingRequest \<Rightarrow> PairingRequest" where
  "sweep_request now r =
     (if pr_state r \<noteq> Paired \<and> is_expired r now then r\<lparr>pr_state := Rejected\<rparr> else r)"

definition sweep_expired :: "i64 \<Rightarrow> PairingStateMachine \<Rightarrow> PairingStateMachine" where
  "sweep_expired now m = m\<lparr>requests := (\<lambda>peer. map_option (sweep_request now) (requests m peer))\<rparr>"

section \<open>The QR payload\<close>

definition QR_PAYLOAD_VERSION :: byte where
  "QR_PAYLOAD_VERSION = 1"

record QrPairingPayload =
  qr_version :: byte
  qr_device_id :: uuid
  qr_device_name :: rstring
  qr_address :: rstring
  qr_port :: u16
  qr_token :: rstring
  qr_expires_at :: i64

text \<open>\<open>to_json\<close> and \<open>from_json\<close> are \<^verbatim>\<open>serde_json::to_string\<close> and \<^verbatim>\<open>from_str\<close> at this type, their errors as
  the text they display; \<^verbatim>\<open>?\<close> converts them.\<close>

definition to_qr_string ::
  "(QrPairingPayload \<Rightarrow> rstring + rstring) \<Rightarrow> QrPairingPayload \<Rightarrow> rstring result" where
  "to_qr_string to_json p = map_err Serde (to_json p)"

definition from_qr_string ::
  "(rstring \<Rightarrow> rstring + QrPairingPayload) \<Rightarrow> rstring \<Rightarrow> QrPairingPayload result" where
  "from_qr_string from_json s = map_err Serde (from_json s)"

section \<open>Runs\<close>

datatype pair_action =
    Create uuid rstring rstring i64
  | Present uuid rstring
  | Confirm uuid bool
  | Sweep

text \<open>An action at a time.\<close>

fun pair_step :: "i64 \<times> pair_action \<Rightarrow> PairingStateMachine \<Rightarrow> PairingStateMachine" where
  "pair_step (now, Create peer name tok ttl) m = snd (create_request peer name tok ttl now m)"
| "pair_step (now, Present peer tok) m = snd (present_token peer tok now m)"
| "pair_step (now, Confirm peer accept) m = snd (confirm peer accept m)"
| "pair_step (now, Sweep) m = sweep_expired now m"

definition pair_run :: "(i64 \<times> pair_action) list \<Rightarrow> PairingStateMachine \<Rightarrow> PairingStateMachine" where
  "pair_run acts m = fold pair_step acts m"

lemma pair_run_simps [simp]:
  "pair_run [] m = m" "pair_run (a # as) m = pair_run as (pair_step a m)"
  "pair_run (as @ bs) m = pair_run bs (pair_run as m)"
  by (simp_all add: pair_run_def)

fun peer_of :: "pair_action \<Rightarrow> uuid option" where
  "peer_of (Create p _ _ _) = Some p"
| "peer_of (Present p _) = Some p"
| "peer_of (Confirm p _) = Some p"
| "peer_of Sweep = None"

lemmas pairing_defs = create_request_def present_token_def confirm_def sweep_expired_def
  insert_request_def set_state_def sweep_request_def

interpretation peers: keyed_store "\<lambda>m. requests m" insert_request pr_peer_device_id
  by unfold_locales (simp_all add: insert_request_def)

text \<open>Every request is stored under its own peer id, at every point of a run.\<close>

inductive pairing_moves :: "PairingStateMachine \<Rightarrow> PairingStateMachine \<Rightarrow> bool" where
  move: "pairing_moves m (pair_step (now, act) m)"

lemma pair_step_keyed: "peers.keyed m \<Longrightarrow> peers.keyed (pair_step a m)"
proof (cases a)
  case (Pair now act)
  assume "peers.keyed m"
  with Pair show ?thesis
    by (cases act) (auto simp: pairing_defs peers.keyed_def Let_def split: option.splits if_splits)
qed

interpretation pairing: invariant_system pairing_moves peers.keyed
  by unfold_locales (auto elim!: pairing_moves.cases simp: pair_step_keyed)

lemma pair_run_moves: "pairing_moves\<^sup>*\<^sup>* m (pair_run acts m)"
proof (induction acts arbitrary: m)
  case Nil
  then show ?case by simp
next
  case (Cons a acts)
  have "pairing_moves m (pair_step a m)" by (cases a) (auto intro: move)
  with Cons show ?case by (metis converse_rtranclp_into_rtranclp pair_run_simps(2))
qed

lemma psm_new_keyed: "peers.keyed psm_new"
  by (simp add: peers.keyed_def psm_new_def)

section \<open>What one action does to one peer\<close>

text \<open>An action for another peer leaves a request alone.\<close>

lemma pair_step_frame:
  "peer_of act \<noteq> Some p \<Longrightarrow> act \<noteq> Sweep \<Longrightarrow> requests (pair_step (now, act) m) p = requests m p"
  by (cases act) (auto simp: pairing_defs Let_def split: option.splits)

definition creates :: "uuid \<Rightarrow> pair_action \<Rightarrow> bool" where
  "creates p act \<longleftrightarrow> (case act of Create q _ _ _ \<Rightarrow> q = p | _ \<Rightarrow> False)"

definition revokes :: "uuid \<Rightarrow> pair_action \<Rightarrow> bool" where
  "revokes p act \<longleftrightarrow> creates p act \<or> act = Confirm p False"

text \<open>Only a creation sets the token, the expiry and the other fixed fields.\<close>

definition same_request :: "PairingRequest \<Rightarrow> PairingRequest \<Rightarrow> bool" where
  "same_request r s \<longleftrightarrow> r\<lparr>pr_state := Pending\<rparr> = s\<lparr>pr_state := Pending\<rparr>"

lemma same_request_simps [simp]:
  "same_request r r" "same_request r (r\<lparr>pr_state := st\<rparr>)" "same_request (r\<lparr>pr_state := st\<rparr>) r"
  by (simp_all add: same_request_def)

lemma same_request_trans: "same_request r s \<Longrightarrow> same_request s t \<Longrightarrow> same_request r t"
  by (simp add: same_request_def)

lemma same_request_fields:
  assumes "same_request r s"
  shows "pr_token s = pr_token r" "pr_expires_at s = pr_expires_at r"
proof -
  from assms have "pr_token (r\<lparr>pr_state := Pending\<rparr>) = pr_token (s\<lparr>pr_state := Pending\<rparr>)"
    and "pr_expires_at (r\<lparr>pr_state := Pending\<rparr>) = pr_expires_at (s\<lparr>pr_state := Pending\<rparr>)"
    by (simp_all only: same_request_def)
  then show "pr_token s = pr_token r" "pr_expires_at s = pr_expires_at r" by simp_all
qed

lemma pair_step_same:
  assumes "requests m p = Some r" and "\<not> creates p act"
  shows "\<exists>s. requests (pair_step (now, act) m) p = Some s \<and> same_request r s"
proof (cases "peer_of act = Some p \<or> act = Sweep")
  case True
  with assms show ?thesis by (cases act) (auto simp: pairing_defs creates_def Let_def)
next
  case False
  with assms(1) show ?thesis by (auto simp: pair_step_frame)
qed

lemma pair_run_same:
  "requests m p = Some r \<Longrightarrow> list_all (\<lambda>a. \<not> creates p (snd a)) acts \<Longrightarrow>
    \<exists>s. requests (pair_run acts m) p = Some s \<and> same_request r s"
proof (induction acts arbitrary: m r)
  case Nil
  then show ?case by simp
next
  case (Cons a acts)
  obtain now act where a: "a = (now, act)" by (cases a)
  with Cons.prems pair_step_same [of m p r act now]
  obtain s where s: "requests (pair_step a m) p = Some s" "same_request r s" by auto
  with Cons.IH [OF s(1)] Cons.prems(2) show ?case using same_request_trans by (auto simp: a)
qed

text \<open>One step can only reach \<open>Paired\<close> by an accepting confirmation, and only stay there when nothing
  revokes it.\<close>

lemma is_paired_step:
  assumes "is_paired p (pair_step (now, act) m)"
  shows "act = Confirm p True \<and> requests m p \<noteq> None \<or> is_paired p m \<and> \<not> revokes p act"
proof (cases "peer_of act = Some p \<or> act = Sweep")
  case True
  with assms show ?thesis
    by (cases act) (auto simp: is_paired_def pairing_defs revokes_def creates_def Let_def split: option.splits if_splits)
next
  case False
  with assms have "is_paired p m" by (simp add: is_paired_def pair_step_frame)
  moreover from False have "\<not> revokes p act" by (cases act) (auto simp: revokes_def creates_def)
  ultimately show ?thesis by blast
qed

text \<open>The sweep, one request at a time.\<close>

lemma sweep_request_cases:
  "sweep_request now (sweep_request now r) = sweep_request now r"
  "pr_state (sweep_request now r) = Paired \<longleftrightarrow> pr_state r = Paired"
  by (simp_all add: sweep_request_def)

lemma sweep_request_live:
  "pr_state q \<noteq> Paired \<Longrightarrow> \<not> now < pr_expires_at (sweep_request now q) \<Longrightarrow>
    pr_state (sweep_request now q) = Rejected"
  by (auto simp: sweep_request_def is_expired_def)

lemma sweep_lookup:
  "requests (sweep_expired now m) p = map_option (sweep_request now) (requests m p)"
  "get_request p (sweep_expired now m) = map_option (sweep_request now) (requests m p)"
  "get_request p m = requests m p"
  by (simp_all add: sweep_expired_def get_request_def)

lemma sweep_twice: "sweep_expired now (sweep_expired now m) = sweep_expired now m"
  by (simp add: sweep_expired_def option.map_comp comp_def sweep_request_cases)

section \<open>Properties\<close>

text \<open>C16: a peer is paired only because the local user accepted it: every run that ends with the peer paired
  contains an accepting confirmation of a request that existed then, with no rejection and no new
  request for that peer after it.\<close>

theorem paired_by_user:
  assumes "is_paired p (pair_run acts psm_new)"
  shows "\<exists>before now after. acts = before @ (now, Confirm p True) # after
    \<and> get_request p (pair_run before psm_new) \<noteq> None
    \<and> list_all (\<lambda>a. \<not> revokes p (snd a)) after"
  using assms
proof (induction acts rule: rev_induct)
  case Nil
  then show ?case by (simp add: is_paired_def psm_new_def)
next
  case (snoc a acts)
  obtain now act where a: "a = (now, act)" by (cases a)
  from snoc.prems have "is_paired p (pair_step (now, act) (pair_run acts psm_new))" by (simp add: a)
  then consider "act = Confirm p True" "requests (pair_run acts psm_new) p \<noteq> None"
    | "is_paired p (pair_run acts psm_new)" "\<not> revokes p act"
    using is_paired_step by blast
  then show ?case
  proof cases
    case 1
    have "acts @ [a] = acts @ (now, Confirm p True) # []" using 1(1) a by simp
    moreover have "get_request p (pair_run acts psm_new) \<noteq> None" using 1(2) by (simp add: get_request_def)
    moreover have "list_all (\<lambda>a. \<not> revokes p (snd a)) []" by simp
    ultimately show ?thesis by blast
  next
    case 2
    from snoc.IH [OF 2(1)] obtain as n bs where b: "acts = as @ (n, Confirm p True) # bs"
      "get_request p (pair_run as psm_new) \<noteq> None" "list_all (\<lambda>a. \<not> revokes p (snd a)) bs" by blast
    with 2(2) a have "acts @ [a] = as @ (n, Confirm p True) # (bs @ [a])"
      "list_all (\<lambda>a. \<not> revokes p (snd a)) (bs @ [a])" by simp_all
    with b(2) show ?thesis by blast
  qed
qed

theorem paired_by_user_witness:
  "is_paired 7 (pair_run [(0, Create 7 [] [65] 300), (1, Present 7 [65]), (2, Confirm 7 True)] psm_new) \<and>
   (\<exists>before now after. [(0 :: i64, Create 7 [] [65] 300), (1, Present 7 [65]), (2, Confirm 7 True)]
      = before @ (now, Confirm 7 True) # after)"
proof -
  have p: "is_paired 7 (pair_run [(0, Create 7 [] [65] 300), (1, Present 7 [65]), (2, Confirm 7 True)] psm_new)"
    by (simp add: pairing_defs is_paired_def psm_new_def Let_def is_expired_def i64_range_def)
  from p paired_by_user [OF p] show ?thesis by blast
qed



text \<open>The sweep rejects every unpaired request past its deadline, touches no paired one, forgets none,
  and does nothing the second time.\<close>

theorem sweep_expired_effect:
  "sweep_expired now (sweep_expired now m) = sweep_expired now m
    \<and> is_paired p (sweep_expired now m) = is_paired p m
    \<and> (get_request p (sweep_expired now m) = None) = (get_request p m = None)
    \<and> (get_request p (sweep_expired now m) = Some r \<longrightarrow>
         pr_state r = Paired \<or> pr_state r = Rejected \<or> now < pr_expires_at r)"
  by (intro conjI sweep_twice) (auto simp: is_paired_def sweep_lookup sweep_request_cases intro: sweep_request_live
      split: option.splits)

theorem sweep_expired_effect_witness:
  "map_option pr_state (get_request 7 (sweep_expired 400 (snd (create_request 7 [] [65] 300 0 psm_new))))
    = Some Rejected"
proof -
  let ?m = "snd (create_request 7 [] [65] 300 0 psm_new)"
  obtain r where r: "get_request 7 (sweep_expired 400 ?m) = Some r" "pr_expires_at r = 300" "pr_state r \<noteq> Paired"
    by (simp add: pairing_defs get_request_def psm_new_def Let_def is_expired_def i64_range_def)
  with sweep_expired_effect [of 400 ?m 7 r] show ?thesis by auto
qed

text \<open>Requests stay under their own key: whatever the run, the request found for a peer is that peer's.\<close>

theorem requests_keyed:
  "get_request p (pair_run acts psm_new) = Some r \<Longrightarrow> pr_peer_device_id r = p"
  using pairing.run_inv [OF pair_run_moves psm_new_keyed] by (simp add: peers.keyed_def get_request_def)

theorem requests_keyed_witness:
  "map_option pr_peer_device_id (get_request 7 (pair_run [(0, Create 7 [] [65] 300), (9, Confirm 7 False)] psm_new))
    = Some 7"
proof -
  obtain r where r: "get_request 7 (pair_run [(0, Create 7 [] [65] 300), (9, Confirm 7 False)] psm_new) = Some r"
    by (simp add: pairing_defs get_request_def psm_new_def Let_def)
  from r requests_keyed [OF r] show ?thesis by simp
qed

section \<open>Corners of the code\<close>

text \<open>\<^verbatim>\<open>confirm\<close> asks neither for \<open>AwaitingConfirmation\<close> nor for the deadline: a pending request whose token was
  never presented, or that was rejected, is paired by an accept, at any time.\<close>

lemma confirm_without_token:
  "is_paired p (pair_run [(t0, Create p name tok ttl), (t1, Confirm p True)] m)"
  "is_paired p (pair_run [(t0, Create p name tok ttl), (t1, Confirm p False), (t2, Confirm p True)] m)"
  by (simp_all add: pairing_defs is_paired_def Let_def)

text \<open>A token is not single-use: it can be presented again, also after a rejection, and presenting it
  demotes a paired peer.\<close>

lemma token_replay:
  assumes "t < i64_wrap (t0 + ttl)"
  shows "fst (present_token p tok t (pair_run [(t0, Create p name tok ttl), (t, Present p tok), (t, Confirm p b)] m))
    = Inr ()"
  and "\<not> is_paired p (pair_run [(t0, Create p name tok ttl), (t, Confirm p True), (t, Present p tok)] m)"
  using assms by (simp_all add: pairing_defs is_paired_def Let_def is_expired_def)

end
