(* ===== verification/Checksum.thy ===== *)
theory Checksum
  imports Errors
begin

text \<open>
  \<^verbatim>\<open>filedrop-core/src/security/checksum.rs\<close>: the incremental hasher, the file hash and the hex form.
  SHA-256 itself is the sha2 crate: a record of its three operations, with the documented law that the
  digest depends only on the concatenation of what was fed in.
\<close>

definition HASH_BUF_SIZE :: nat where
  "HASH_BUF_SIZE = 1024 * 1024"

record 'h hash_api =
  h_new :: 'h
  h_update :: "'h \<Rightarrow> byte list \<Rightarrow> 'h"
  h_finalize :: "'h \<Rightarrow> byte list"

definition digest_law :: "'h hash_api \<Rightarrow> (byte list \<Rightarrow> byte list) \<Rightarrow> bool" where
  "digest_law H sha \<longleftrightarrow>
     (\<forall>cs. h_finalize H (foldl (h_update H) (h_new H) cs) = sha (concat cs)) \<and> (\<forall>m. length (sha m) = 32)"

definition hex_encode :: "byte list \<Rightarrow> rstring" where
  "hex_encode bytes = concat (map hex2 bytes)"

record 'h Sha256Hasher =
  inner :: 'h

definition hasher_new :: "'h hash_api \<Rightarrow> 'h Sha256Hasher" where
  "hasher_new H = \<lparr>inner = h_new H\<rparr>"

definition hasher_update :: "'h hash_api \<Rightarrow> 'h Sha256Hasher \<Rightarrow> byte list \<Rightarrow> 'h Sha256Hasher" where
  "hasher_update H s chunk = s\<lparr>inner := h_update H (inner s) chunk\<rparr>"

definition finalize_hex :: "'h hash_api \<Rightarrow> 'h Sha256Hasher \<Rightarrow> rstring" where
  "finalize_hex H s = hex_encode (h_finalize H (inner s))"

text \<open>The read loop of \<^verbatim>\<open>sha256_file\<close> over the outcomes of its reads; an empty read is the end of file. A
  sequence that ends before that is a read still outstanding: \<open>None\<close>.\<close>

datatype read_outcome = Got "byte list" | ReadErr rstring

fun hash_loop :: "'h hash_api \<Rightarrow> 'h \<Rightarrow> read_outcome list \<Rightarrow> 'h result option" where
  "hash_loop H h [] = None"
| "hash_loop H h (ReadErr e # rs) = Some (Inl (Io e))"
| "hash_loop H h (Got b # rs) =
     (if length b = 0 then Some (Inr h) else hash_loop H (h_update H h b) rs)"

definition sha256_file :: "'h hash_api \<Rightarrow> rstring option \<Rightarrow> read_outcome list \<Rightarrow> rstring result option" where
  "sha256_file H open_err reads =
     (case open_err of
        Some e \<Rightarrow> Some (Inl (Io e))
      | None \<Rightarrow> map_option (map_ok (\<lambda>h. hex_encode (h_finalize H h))) (hash_loop H (h_new H) reads))"

text \<open>The reads of a healthy file: any non-empty pieces of at most the buffer size, then the end.\<close>

definition reads_of :: "byte list \<Rightarrow> read_outcome list \<Rightarrow> bool" where
  "reads_of content reads \<longleftrightarrow>
     (\<exists>cs. reads = map Got cs @ [Got []] \<and> concat cs = content \<and> (\<forall>c \<in> set cs. c \<noteq> [] \<and> length c \<le> HASH_BUF_SIZE))"

text \<open>One such sequence: full buffers.\<close>

function buffer_reads :: "byte list \<Rightarrow> byte list list" where
  "buffer_reads content =
     (if content = [] then [] else take HASH_BUF_SIZE content # buffer_reads (drop HASH_BUF_SIZE content))"
  by pat_completeness auto
termination
  by (relation "measure length") (auto simp: HASH_BUF_SIZE_def)

declare buffer_reads.simps [simp del]

lemma buffer_reads_concat: "concat (buffer_reads content) = content"
  by (induction content rule: buffer_reads.induct) (subst buffer_reads.simps, simp)

lemma buffer_reads_sizes: "c \<in> set (buffer_reads content) \<Longrightarrow> c \<noteq> [] \<and> length c \<le> HASH_BUF_SIZE"
proof (induction content rule: buffer_reads.induct)
  case (1 content)
  show ?case
  proof (cases "content = []")
    case True
    with 1 show ?thesis by (simp add: buffer_reads.simps)
  next
    case False
    with 1 show ?thesis by (subst (asm) buffer_reads.simps) (auto simp: HASH_BUF_SIZE_def)
  qed
qed

lemma reads_of_buffer: "reads_of content (map Got (buffer_reads content) @ [Got []])"
  unfolding reads_of_def using buffer_reads_concat buffer_reads_sizes by blast

section \<open>Hexadecimal digests\<close>

lemma hex_encode_length: "length (hex_encode bs) = 2 * length bs"
  by (induction bs) (simp_all add: hex_encode_def hex2_def)

lemma hex_encode_lower: "c \<in> set (hex_encode bs) \<Longrightarrow> is_lower_hex c"
  by (auto simp: hex_encode_def hex2_def byte_div16 intro!: hex_digit_lower)

lemma hex_encode_inj: "hex_encode a = hex_encode b \<longleftrightarrow> a = b"
proof (induction a arbitrary: b)
  case Nil
  then show ?case by (cases b) (simp_all add: hex_encode_def hex2_def)
next
  case (Cons x a)
  then show ?case using hex2_inj [of x] by (cases b) (auto simp: hex_encode_def hex2_def)
qed

section \<open>Properties\<close>

lemma hash_loop_pieces:
  "\<forall>c \<in> set cs. c \<noteq> [] \<Longrightarrow>
    hash_loop H h (map Got cs @ Got [] # rest) = Some (Inr (foldl (h_update H) h cs))"
  by (induction cs arbitrary: h) simp_all

lemma hash_loop_fails: "\<forall>c \<in> set cs. c \<noteq> [] \<Longrightarrow> hash_loop H h (map Got cs @ [ReadErr e]) = Some (Inl (Io e))"
  by (induction cs arbitrary: h) simp_all

lemma sha256_file_healthy:
  assumes "digest_law H sha" and "reads_of content reads"
  shows "sha256_file H None reads = Some (Inr (hex_encode (sha content)))"
  using assms by (auto simp: sha256_file_def reads_of_def hash_loop_pieces digest_law_def)

lemma hasher_fold: "inner (foldl (hasher_update H) s cs) = foldl (h_update H) (inner s) cs"
  by (induction cs arbitrary: s) (simp_all add: hasher_update_def)

lemma hasher_digest:
  "digest_law H sha \<Longrightarrow> finalize_hex H (foldl (hasher_update H) (hasher_new H) cs) = hex_encode (sha (concat cs))"
  by (simp add: finalize_hex_def hasher_fold hasher_new_def digest_law_def)

text \<open>C39: hashing a file from disk returns, and gives what the incremental hasher gives for the same bytes
  in whatever chunks they arrived: 64 lower-case hexadecimal digits.\<close>

theorem file_hash_is_stream_hash:
  assumes "digest_law H sha" and "reads_of content reads" and "concat chunks = content"
  shows "sha256_file H None reads = Some (Inr (finalize_hex H (foldl (hasher_update H) (hasher_new H) chunks)))
    \<and> length (finalize_hex H (foldl (hasher_update H) (hasher_new H) chunks)) = 64
    \<and> (\<forall>c \<in> set (finalize_hex H (foldl (hasher_update H) (hasher_new H) chunks)). is_lower_hex c)"
proof -
  have "length (sha content) = 32" using assms(1) by (simp add: digest_law_def)
  with assms show ?thesis
    using hex_encode_lower by (simp add: hasher_digest sha256_file_healthy hex_encode_length)
qed

text \<open>A hash with the law, for witnesses: feed everything, then fold the bytes into 32.\<close>

definition toy_hash :: "byte list hash_api" where
  "toy_hash = \<lparr>h_new = [], h_update = (@), h_finalize = (\<lambda>m. replicate 31 0 @ [sum_list m])\<rparr>"

definition toy_sha :: "byte list \<Rightarrow> byte list" where
  "toy_sha m = replicate 31 0 @ [sum_list m]"

lemma toy_hash_law: "digest_law toy_hash toy_sha"
  by (simp add: digest_law_def toy_hash_def toy_sha_def foldl_append_concat)

theorem file_hash_is_stream_hash_witness:
  "sha256_file toy_hash None [Got [1, 2], Got [3], Got []] =
     Some (Inr (finalize_hex toy_hash (foldl (hasher_update toy_hash) (hasher_new toy_hash) [[1], [2, 3]])))"
proof -
  have "reads_of [1, 2, 3] [Got [1, 2], Got [3], Got []]"
    unfolding reads_of_def by (rule exI [of _ "[[1, 2], [3]]"]) (simp add: HASH_BUF_SIZE_def)
  moreover have "concat [[1], [2, 3]] = [1, 2, 3 :: byte]" by simp
  ultimately show ?thesis using file_hash_is_stream_hash [OF toy_hash_law] by blast
qed

end
