(* ===== verification/Disk.thy ===== *)
theory Disk
  imports Rust_Path
begin

text \<open>
  The file system as the code uses it through \<^verbatim>\<open>tokio::fs\<close>: names (paths up to their components) lead to
  files, an open handle is the file itself, so that a file stays reachable through its handle when its
  name is removed or changed. Failures of the operating system are inputs of the operations of the
  other theories; here is what an operation does when it succeeds.
\<close>

type_synonym file_id = nat

record disk =
  names :: "component list \<rightharpoonup> file_id"
  contents :: "file_id \<Rightarrow> byte list"
  next_file :: file_id
  dirs :: "component list set"

definition disk_read :: "rstring \<Rightarrow> disk \<Rightarrow> byte list option" where
  "disk_read p d = map_option (contents d) (names d (components p))"

definition create_dir_all :: "rstring \<Rightarrow> disk \<Rightarrow> disk" where
  "create_dir_all p d = d\<lparr>dirs := dirs d \<union> {take n (components p) | n. n \<le> length (components p)}\<rparr>"

text \<open>\<^verbatim>\<open>OpenOptions::new().create(true).write(true).truncate(t).open(p)\<close>.\<close>

definition disk_open :: "bool \<Rightarrow> rstring \<Rightarrow> disk \<Rightarrow> file_id \<times> disk" where
  "disk_open t p d =
     (case names d (components p) of
        Some f \<Rightarrow> (f, if t then d\<lparr>contents := (contents d)(f := [])\<rparr> else d)
      | None \<Rightarrow>
          (next_file d,
           d\<lparr>names := (names d)(components p \<mapsto> next_file d),
             contents := (contents d)(next_file d := []),
             next_file := Suc (next_file d)\<rparr>))"

text \<open>Writing \<open>bs\<close> at an offset: a gap beyond the end reads as zeros, an empty write does nothing.\<close>

definition patch :: "nat \<Rightarrow> byte list \<Rightarrow> byte list \<Rightarrow> byte list" where
  "patch off bs c =
     (if bs = [] then c
      else take off (c @ replicate (off - length c) 0) @ bs @ drop (off + length bs) c)"

definition disk_write :: "file_id \<Rightarrow> nat \<Rightarrow> byte list \<Rightarrow> disk \<Rightarrow> disk" where
  "disk_write f off bs d = d\<lparr>contents := (contents d)(f := patch off bs (contents d f))\<rparr>"

definition disk_remove :: "rstring \<Rightarrow> disk \<Rightarrow> disk" where
  "disk_remove p d = d\<lparr>names := (names d)(components p := None)\<rparr>"

text \<open>\<^verbatim>\<open>rename\<close>: \<open>None\<close> when the source does not exist; an existing destination is replaced.\<close>

definition disk_rename :: "rstring \<Rightarrow> rstring \<Rightarrow> disk \<Rightarrow> disk option" where
  "disk_rename p q d =
     (case names d (components p) of
        None \<Rightarrow> None
      | Some f \<Rightarrow> Some (d\<lparr>names := (names d)(components p := None, components q \<mapsto> f)\<rparr>))"

section \<open>Patches\<close>

lemma patch_append_end: "patch (length c) bs c = c @ bs"
  by (simp add: patch_def)

lemma patch_inside: "off \<le> length c \<Longrightarrow> patch off bs c = take off c @ bs @ drop (off + length bs) c"
  by (simp add: patch_def)

lemma patch_length: "length (patch off bs c) = (if bs = [] then length c else max (length c) (off + length bs))"
  by (simp add: patch_def) arith

lemma patch_comp: "patch (off + length a) b (patch off a c) = patch off (a @ b) c"
proof (cases "a = [] \<or> b = []")
  case True
  then show ?thesis by (auto simp: patch_def)
next
  case False
  define z where "z = take off (c @ replicate (off - length c) 0)"
  have l: "length z = off" by (simp add: z_def)
  have e: "patch off a c = z @ a @ drop (off + length a) c" using False by (simp add: patch_def z_def)
  have "off + length a \<le> length (patch off a c)" by (simp add: e l)
  then have "patch (off + length a) b (patch off a c) = z @ a @ b @ drop (off + length a + length b) c"
    using l by (simp add: patch_inside) (simp add: e add.commute add.left_commute)
  then show ?thesis using False by (simp add: patch_def z_def add.assoc)
qed

section \<open>Sequential writing\<close>

text \<open>What a writer of successive chunks needs of a file store.\<close>

locale file_store =
  fixes contents_of :: "'d \<Rightarrow> 'f \<Rightarrow> byte list"
    and put_at :: "'f \<Rightarrow> nat \<Rightarrow> byte list \<Rightarrow> 'd \<Rightarrow> 'd"
  assumes write_same: "contents_of (put_at f off bs d) f = patch off bs (contents_of d f)"
    and write_other: "g \<noteq> f \<Longrightarrow> contents_of (put_at f off bs d) g = contents_of d g"
begin

primrec write_all :: "'f \<Rightarrow> nat \<Rightarrow> byte list list \<Rightarrow> 'd \<Rightarrow> 'd" where
  "write_all f off [] d = d"
| "write_all f off (c # cs) d = write_all f (off + length c) cs (put_at f off c d)"

text \<open>Chunks written one after the other make one patch of their concatenation.\<close>

lemma write_all_same: "contents_of (write_all f off cs d) f = patch off (concat cs) (contents_of d f)"
proof (induction cs arbitrary: off d)
  case Nil
  then show ?case by (simp add: patch_def)
next
  case (Cons c cs)
  then show ?case by (simp add: write_same patch_comp)
qed

lemma write_all_other: "g \<noteq> f \<Longrightarrow> contents_of (write_all f off cs d) g = contents_of d g"
  by (induction cs arbitrary: off d) (simp_all add: write_other)

lemma write_all_fresh: "contents_of d f = [] \<Longrightarrow> contents_of (write_all f 0 cs d) f = concat cs"
  by (simp add: write_all_same patch_def)

lemma write_all_resumed:
  "off = length (contents_of d f) \<Longrightarrow> contents_of (write_all f off cs d) f = contents_of d f @ concat cs"
  by (simp add: write_all_same patch_append_end)

end

interpretation files: file_store contents disk_write
  by unfold_locales (simp_all add: disk_write_def)

section \<open>What is read after an operation\<close>

text \<open>Names lead to allocated files, and no two names to the same file.\<close>

definition disk_ok :: "disk \<Rightarrow> bool" where
  "disk_ok d \<longleftrightarrow> (\<forall>p f. names d p = Some f \<longrightarrow> f < next_file d)
    \<and> (\<forall>p q f. names d p = Some f \<longrightarrow> names d q = Some f \<longrightarrow> p = q)"

definition empty_disk :: disk where
  "empty_disk = \<lparr>names = Map.empty, contents = (\<lambda>_. []), next_file = 0, dirs = {}\<rparr>"

lemma disk_ok_empty: "disk_ok empty_disk"
  by (simp add: disk_ok_def empty_disk_def)

lemma disk_write_names [disk_simps]:
  "names (disk_write f off bs d) = names d" "next_file (disk_write f off bs d) = next_file d"
  by (simp_all add: disk_write_def)

lemma disk_remove_simps [disk_simps]:
  "names (disk_remove p d) = (names d)(components p := None)" "contents (disk_remove p d) = contents d"
  "next_file (disk_remove p d) = next_file d"
  by (simp_all add: disk_remove_def)

lemma disk_ok_open: "disk_ok d \<Longrightarrow> disk_ok (snd (disk_open t p d))"
  by (fastforce simp: disk_ok_def disk_open_def split: option.splits)

lemma disk_ok_write: "disk_ok (disk_write f off bs d) = disk_ok d"
  by (simp add: disk_ok_def disk_simps)

lemma disk_ok_remove: "disk_ok d \<Longrightarrow> disk_ok (disk_remove p d)"
  by (auto simp: disk_ok_def disk_simps split: if_splits)

lemma disk_ok_rename: "disk_ok d \<Longrightarrow> disk_rename p q d = Some e \<Longrightarrow> disk_ok e"
  by (fastforce simp: disk_ok_def disk_rename_def split: option.splits if_splits)

lemma disk_open_name: "names (snd (disk_open t p d)) (components p) = Some (fst (disk_open t p d))"
  by (simp add: disk_open_def split: option.splits)

lemma disk_open_contents:
  "contents (snd (disk_open t p d)) (fst (disk_open t p d)) = (if t then [] else case disk_read p d of Some c \<Rightarrow> c | None \<Rightarrow> [])"
  by (simp add: disk_open_def disk_read_def split: option.splits)

lemma disk_open_other:
  assumes "disk_ok d" and "components q \<noteq> components p"
  shows "disk_read q (snd (disk_open t p d)) = disk_read q d"
proof (cases "names d (components q)")
  case None
  with assms(2) show ?thesis by (simp add: disk_read_def disk_open_def split: option.splits)
next
  case (Some g)
  with assms have "g < next_file d" and "names d (components p) \<noteq> Some g" by (auto simp: disk_ok_def)
  with Some assms(2) show ?thesis by (auto simp: disk_read_def disk_open_def split: option.splits)
qed

lemma disk_write_read:
  assumes "disk_ok d" and "names d (components p) = Some f"
  shows "disk_read p (disk_write f off bs d) = Some (patch off bs (contents d f))"
    and "components q \<noteq> components p \<Longrightarrow> disk_read q (disk_write f off bs d) = disk_read q d"
proof -
  show "disk_read p (disk_write f off bs d) = Some (patch off bs (contents d f))"
    using assms by (simp add: disk_read_def disk_write_def)
  assume "components q \<noteq> components p"
  with assms have "names d (components q) \<noteq> Some f" by (auto simp: disk_ok_def)
  then show "disk_read q (disk_write f off bs d) = disk_read q d"
    by (cases "names d (components q)") (auto simp: disk_read_def disk_write_def)
qed

lemma disk_remove_read:
  "disk_read p (disk_remove p d) = None"
  "components q \<noteq> components p \<Longrightarrow> disk_read q (disk_remove p d) = disk_read q d"
  by (simp_all add: disk_read_def disk_simps)

lemma disk_rename_read:
  assumes "disk_rename p q d = Some e" and "components p \<noteq> components q"
  shows "disk_read q e = disk_read p d" and "disk_read p e = None"
    and "components r \<noteq> components p \<Longrightarrow> components r \<noteq> components q \<Longrightarrow> disk_read r e = disk_read r d"
  using assms by (auto simp: disk_rename_def disk_read_def split: option.splits)

lemma disk_rename_Some: "names d (components p) = Some f \<Longrightarrow> \<exists>e. disk_rename p q d = Some e"
  by (simp add: disk_rename_def)

end
