(* ===== verification/Storage_Paths.thy ===== *)
theory Storage_Paths
  imports Disk
begin

text \<open>
  \<^verbatim>\<open>filedrop-core/src/storage/paths.rs\<close>: where files live under the application's data directory.
\<close>

record StoragePaths =
  app_data_dir :: rstring

definition received_files_dir :: "StoragePaths \<Rightarrow> rstring" where
  "received_files_dir sp = path_join (app_data_dir sp) (lit ''received'')"

definition staging_dir :: "StoragePaths \<Rightarrow> rstring" where
  "staging_dir sp = path_join (app_data_dir sp) (lit ''staging'')"

definition history_file :: "StoragePaths \<Rightarrow> rstring" where
  "history_file sp = path_join (app_data_dir sp) (lit ''history.json'')"

text \<open>\<open>io p\<close> is the error creating \<open>p\<close> fails with, if it does.\<close>

fun create_all :: "(rstring \<Rightarrow> rstring option) \<Rightarrow> rstring list \<Rightarrow> disk \<Rightarrow> (rstring + unit) \<times> disk" where
  "create_all io [] d = (Inr (), d)"
| "create_all io (p # ps) d =
     (case io p of Some e \<Rightarrow> (Inl e, d) | None \<Rightarrow> create_all io ps (create_dir_all p d))"

definition ensure_dirs ::
  "(rstring \<Rightarrow> rstring option) \<Rightarrow> StoragePaths \<Rightarrow> disk \<Rightarrow> (rstring + unit) \<times> disk" where
  "ensure_dirs io sp d = create_all io [app_data_dir sp, received_files_dir sp, staging_dir sp] d"

lemma dir_parts:
  "normal_part (lit ''received'')" "normal_part (lit ''staging'')" "normal_part (lit ''history.json'')"
  by (simp_all add: normal_part_def text_defs)

lemma components_dirs:
  "components (received_files_dir sp) = components (app_data_dir sp) @ [Normal (lit ''received'')]"
  "components (staging_dir sp) = components (app_data_dir sp) @ [Normal (lit ''staging'')]"
  "components (history_file sp) = components (app_data_dir sp) @ [Normal (lit ''history.json'')]"
  by (simp_all add: received_files_dir_def staging_dir_def history_file_def path_join_def components_push dir_parts)

lemma dirs_apart: "components (staging_dir sp) \<noteq> components (received_files_dir sp)"
  by (simp add: components_dirs lit_def)

text \<open>Entries of the two directories are never the history file, nor each other.\<close>

lemma entries_apart:
  "components (staging_dir sp) @ [c] \<noteq> components (received_files_dir sp) @ [e]"
  "components (staging_dir sp) @ [c] \<noteq> components (history_file sp)"
  "components (received_files_dir sp) @ [c] \<noteq> components (history_file sp)"
  by (simp_all add: components_dirs lit_def)

lemma create_dir_all_dirs: "components p \<in> dirs (create_dir_all p d)" "dirs d \<subseteq> dirs (create_dir_all p d)"
  by (auto simp: create_dir_all_def intro: exI [of _ "length (components p)"])

lemma create_dir_all_keeps: "c \<in> dirs d \<Longrightarrow> c \<in> dirs (create_dir_all p d)"
  using create_dir_all_dirs(2) by blast

lemma ensure_dirs_creates:
  "fst (ensure_dirs io sp d) = Inr () \<Longrightarrow>
    {components (app_data_dir sp), components (received_files_dir sp), components (staging_dir sp)}
      \<subseteq> dirs (snd (ensure_dirs io sp d))"
  by (auto simp: ensure_dirs_def create_dir_all_dirs(1) create_dir_all_keeps split: option.splits)

lemma create_all_files: "names (snd (create_all io ps d)) = names d \<and> contents (snd (create_all io ps d)) = contents d"
  by (induction io ps d rule: create_all.induct) (auto simp: create_dir_all_def split: option.splits)

end
