(* ===== verification/History.thy ===== *)
theory History
  imports Storage_Paths Errors "HOL-Library.Multiset"
begin

text \<open>
  \<^verbatim>\<open>filedrop-core/src/storage/history.rs\<close>: the transfer history, in memory a map by id, on disk one JSON
  file replaced by writing a temporary file and renaming it. Persisting is a sequence of file
  operations any of which can fail (or be the last one before a crash); the JSON encoder and decoder
  are the parameters \<open>ser\<close> and \<open>de\<close>. The iteration order of the \<^verbatim>\<open>HashMap\<close> is an argument \<open>ks\<close>.
\<close>

datatype TransferRecordStatus = RecCompleted | RecFailed | RecCancelled

record TransferRecord =
  rec_id :: uuid
  rec_file_name :: rstring
  rec_file_size_bytes :: u64
  rec_peer_device_id :: uuid
  rec_peer_name :: rstring
  rec_outgoing :: bool
  rec_status :: TransferRecordStatus
  rec_sha256 :: "rstring option"
  rec_started_at :: i64
  rec_completed_at :: i64
  rec_saved_path :: "rstring option"

record HistoryStore =
  hs_path :: rstring
  hs_records :: "uuid \<rightharpoonup> TransferRecord"

section \<open>Descending order\<close>

text \<open>\<^verbatim>\<open>std::cmp::Reverse\<close>: the wrapped order turned around.\<close>

datatype 'a reverse = Reverse 'a

primrec unreverse :: "'a reverse \<Rightarrow> 'a" where
  "unreverse (Reverse x) = x"

instantiation reverse :: (linorder) linorder
begin

definition less_eq_reverse :: "'a reverse \<Rightarrow> 'a reverse \<Rightarrow> bool" where
  "less_eq_reverse a b \<longleftrightarrow> unreverse b \<le> unreverse a"

definition less_reverse :: "'a reverse \<Rightarrow> 'a reverse \<Rightarrow> bool" where
  "less_reverse a b \<longleftrightarrow> unreverse b < unreverse a"

instance
proof
  fix x y z :: "'a reverse"
  show "(x < y) = (x \<le> y \<and> \<not> y \<le> x)" by (auto simp: less_eq_reverse_def less_reverse_def)
  show "x \<le> x" by (simp add: less_eq_reverse_def)
  show "x \<le> y \<Longrightarrow> y \<le> z \<Longrightarrow> x \<le> z" by (simp add: less_eq_reverse_def)
  show "x \<le> y \<Longrightarrow> y \<le> x \<Longrightarrow> x = y"
    by (cases x; cases y) (simp add: less_eq_reverse_def)
  show "x \<le> y \<or> y \<le> x" by (auto simp: less_eq_reverse_def)
qed

end

lemma Reverse_le [simp]: "Reverse x \<le> Reverse y \<longleftrightarrow> y \<le> x"
  by (simp add: less_eq_reverse_def)

section \<open>The store in memory\<close>

definition insert_record :: "TransferRecord \<Rightarrow> HistoryStore \<Rightarrow> HistoryStore" where
  "insert_record r st = st\<lparr>hs_records := (hs_records st)(rec_id r \<mapsto> r)\<rparr>"

text \<open>An enumeration of the keys, in whatever order the hash map yields them.\<close>

definition enumerates :: "uuid list \<Rightarrow> (uuid \<rightharpoonup> 'v) \<Rightarrow> bool" where
  "enumerates ks m \<longleftrightarrow> distinct ks \<and> set ks = dom m"

definition map_values :: "uuid list \<Rightarrow> (uuid \<rightharpoonup> 'v) \<Rightarrow> 'v list" where
  "map_values ks m = map (\<lambda>k. the (m k)) ks"

definition history_list :: "uuid list \<Rightarrow> HistoryStore \<Rightarrow> TransferRecord list" where
  "history_list ks st = sort_key (\<lambda>r. Reverse (rec_completed_at r)) (map_values ks (hs_records st))"

definition history_get :: "uuid \<Rightarrow> HistoryStore \<Rightarrow> TransferRecord option" where
  "history_get u st = hs_records st u"

interpretation records: keyed_store "\<lambda>st. hs_records st" insert_record rec_id
  by unfold_locales (simp_all add: insert_record_def)

section \<open>Persisting\<close>

text \<open>\<^verbatim>\<open>Path::with_extension\<close>, for a path that ends with its file name.\<close>

definition file_stem :: "rstring \<Rightarrow> rstring" where
  "file_stem n =
     (case rfind 46 n of
        Some i \<Rightarrow> if i = 0 then n else (case byte_split i n of Some (a, _) \<Rightarrow> a | None \<Rightarrow> n)
      | None \<Rightarrow> n)"

definition path_with_extension :: "rstring \<Rightarrow> rstring \<Rightarrow> rstring" where
  "path_with_extension ext p =
     (case path_file_name p of
        None \<Rightarrow> p
      | Some n \<Rightarrow> take (length p - length n) p @ file_stem n @ 46 # ext)"

text \<open>\<^verbatim>\<open>Path::parent\<close> of such a path, up to its components.\<close>

definition path_parent :: "rstring \<Rightarrow> rstring" where
  "path_parent p =
     (case path_file_name p of None \<Rightarrow> p | Some n \<Rightarrow> take (length p - length n) p)"

text \<open>The file operations of one \<^verbatim>\<open>persist\<close>: the writes go to the handle the last open returned.\<close>

datatype file_op = MkDirs rstring | CreateTrunc rstring | Write nat "byte list" | RenameTo rstring rstring

definition ENOENT :: rstring where
  "ENOENT = lit ''No such file or directory (os error 2)''"

fun exec_op :: "file_op \<Rightarrow> file_id \<times> disk \<Rightarrow> rstring + file_id \<times> disk" where
  "exec_op (MkDirs p) (f, d) = Inr (f, create_dir_all p d)"
| "exec_op (CreateTrunc p) (f, d) = Inr (disk_open True p d)"
| "exec_op (Write off bs) (f, d) = Inr (f, disk_write f off bs d)"
| "exec_op (RenameTo p q) (f, d) =
     (case disk_rename p q d of None \<Rightarrow> Inl ENOENT | Some d' \<Rightarrow> Inr (f, d'))"

lemma exec_op_write: "exec_op (Write off bs) s = Inr (fst s, disk_write (fst s) off bs (snd s))"
  by (cases s) simp

text \<open>Run operations until one fails; \<open>io n\<close> is the failure of the \<open>n\<close>th, if it fails.\<close>

fun perform ::
  "(nat \<Rightarrow> rstring option) \<Rightarrow> nat \<Rightarrow> file_op list \<Rightarrow> file_id \<times> disk \<Rightarrow> (rstring + unit) \<times> (file_id \<times> disk)" where
  "perform io n [] s = (Inr (), s)"
| "perform io n (x # xs) s =
     (case io n of
        Some e \<Rightarrow> (Inl e, s)
      | None \<Rightarrow>
          (case exec_op x s of Inl e \<Rightarrow> (Inl e, s) | Inr s' \<Rightarrow> perform io (Suc n) xs s'))"

fun write_ops :: "nat \<Rightarrow> byte list list \<Rightarrow> file_op list" where
  "write_ops off [] = []"
| "write_ops off (b # bs) = Write off b # write_ops (off + length b) bs"

text \<open>\<open>pieces\<close>: how the write of the JSON text is cut into system calls.\<close>

definition persist_ops :: "rstring \<Rightarrow> byte list list \<Rightarrow> file_op list" where
  "persist_ops path pieces =
     (let tmp_path = path_with_extension (lit ''json.tmp'') path in
      [MkDirs (path_parent path), CreateTrunc tmp_path] @ write_ops 0 pieces @ [RenameTo tmp_path path])"

definition persist ::
  "(TransferRecord list \<Rightarrow> rstring + byte list) \<Rightarrow> (byte list \<Rightarrow> byte list list) \<Rightarrow> (nat \<Rightarrow> rstring option) \<Rightarrow>
   uuid list \<Rightarrow> HistoryStore \<Rightarrow> disk \<Rightarrow> unit result \<times> disk" where
  "persist ser pieces io ks st d =
     (case ser (map_values ks (hs_records st)) of
        Inl e \<Rightarrow> (Inl (Serde e), d)
      | Inr json \<Rightarrow>
          (case perform io 0 (persist_ops (hs_path st) (pieces json)) (0, d) of
             (Inl e, (f, d')) \<Rightarrow> (Inl (Io e), d')
           | (Inr _, (f, d')) \<Rightarrow> (Inr (), d')))"

definition history_add ::
  "(TransferRecord list \<Rightarrow> rstring + byte list) \<Rightarrow> (byte list \<Rightarrow> byte list list) \<Rightarrow> (nat \<Rightarrow> rstring option) \<Rightarrow>
   uuid list \<Rightarrow> TransferRecord \<Rightarrow> HistoryStore \<Rightarrow> disk \<Rightarrow> unit result \<times> HistoryStore \<times> disk" where
  "history_add ser pieces io ks r st d =
     (let st' = insert_record r st; (res, d') = persist ser pieces io ks st' d in (res, st', d'))"

definition history_clear ::
  "(TransferRecord list \<Rightarrow> rstring + byte list) \<Rightarrow> (byte list \<Rightarrow> byte list list) \<Rightarrow> (nat \<Rightarrow> rstring option) \<Rightarrow>
   HistoryStore \<Rightarrow> disk \<Rightarrow> unit result \<times> HistoryStore \<times> disk" where
  "history_clear ser pieces io st d =
     (let st' = st\<lparr>hs_records := Map.empty\<rparr>; (res, d') = persist ser pieces io [] st' d in (res, st', d'))"

text \<open>\<^verbatim>\<open>load\<close>: \<open>exists_ok\<close> is whether \<^verbatim>\<open>try_exists\<close> could answer, \<open>read_err\<close> the failure of the read.\<close>

definition history_load ::
  "(byte list \<Rightarrow> rstring + TransferRecord list) \<Rightarrow> bool \<Rightarrow> rstring option \<Rightarrow> rstring \<Rightarrow> disk \<Rightarrow> HistoryStore result" where
  "history_load de exists_ok read_err path d =
     map_ok (\<lambda>records. \<lparr>hs_path = path, hs_records = records\<rparr>)
      (case (if exists_ok then disk_read path d else None) of
         None \<Rightarrow> Inr Map.empty
       | Some raw \<Rightarrow>
           (case read_err of
              Some e \<Rightarrow> Inl (Io e)
            | None \<Rightarrow>
                if raw = [] then Inr Map.empty
                else map_ok (\<lambda>list. map_of (rev (map (\<lambda>r. (rec_id r, r)) list))) (map_err Serde (de raw))))"

section \<open>A file next to its temporary\<close>

lemma path_join_split: "\<exists>pre. \<forall>n. normal_part n \<longrightarrow> path_join base n = pre @ n"
  by (rule exI [of _ "if base \<noteq> [] \<and> \<not> is_slash (last base) then base @ [47] else base"])
    (auto simp: path_join_def path_push_def dest: normal_part_hd)

lemma file_name_join: "normal_part n \<Longrightarrow> path_file_name (path_join base n) = Some n"
  by (simp add: path_file_name_def path_join_def components_push)

lemma with_extension_join:
  assumes "normal_part n" and "normal_part (file_stem n @ 46 # ext)"
  shows "path_with_extension ext (path_join base n) = path_join base (file_stem n @ 46 # ext)"
proof -
  obtain pre where pre: "\<forall>n. normal_part n \<longrightarrow> path_join base n = pre @ n" using path_join_split by blast
  then have j: "path_join base n = pre @ n" "path_join base (file_stem n @ 46 # ext) = pre @ file_stem n @ 46 # ext"
    using assms by blast+
  have "path_file_name (pre @ n) = Some n" using file_name_join [OF assms(1)] j(1) by metis
  then show ?thesis by (simp add: path_with_extension_def j)
qed

definition history_tmp :: "StoragePaths \<Rightarrow> rstring" where
  "history_tmp sp = path_with_extension (lit ''json.tmp'') (history_file sp)"

lemma components_history_tmp:
  "components (history_tmp sp) = components (app_data_dir sp) @ [Normal (lit ''history.json.tmp'')]"
proof -
  have s: "file_stem (lit ''history.json'') = lit ''history''" by (simp add: file_stem_def text_defs)
  have "normal_part (lit ''history.json.tmp'')" by (simp add: normal_part_def text_defs)
  moreover have "lit ''history'' @ 46 # lit ''json.tmp'' = lit ''history.json.tmp''" by (simp add: lit_def)
  ultimately show ?thesis using with_extension_join [of "lit ''history.json''" "lit ''json.tmp''"] s dir_parts(3)
    by (simp add: history_tmp_def history_file_def) (simp add: path_join_def components_push)
qed

lemma history_tmp_apart: "components (history_tmp sp) \<noteq> components (history_file sp)"
  by (simp add: components_history_tmp components_dirs lit_def)

section \<open>What persisting leaves on disk\<close>

lemma perform_writes:
  "\<exists>d'. names d' = names d \<and> next_file d' = next_file d \<and> (\<forall>g. g \<noteq> f \<longrightarrow> contents d' g = contents d g) \<and>
    ((\<exists>e. perform io n (write_ops off bs @ rest) (f, d) = (Inl e, (f, d'))) \<or>
     d' = files.write_all f off bs d \<and>
     perform io n (write_ops off bs @ rest) (f, d) = perform io (n + length bs) rest (f, d'))"
proof (induction bs arbitrary: n off d)
  case Nil
  then show ?case by auto
next
  case (Cons b bs)
  show ?case
  proof (cases "io n")
    case None
    from Cons.IH [of "disk_write f off b d" "Suc n" "off + length b"] show ?thesis
      using None by (simp add: disk_simps files.write_other)
  next
    case (Some e)
    then show ?thesis by auto
  qed
qed

text \<open>Whichever operation fails, the file keeps its old contents, and it has the new ones if none does;
  nothing but the temporary file is touched besides.\<close>

lemma perform_persist:
  assumes d: "disk_ok d" and tmp: "path_with_extension (lit ''json.tmp'') path = tmp"
    and ne: "components tmp \<noteq> components path"
    and run: "perform io 0 (persist_ops path bs) (f0, d) = (res, (f1, d1))"
  shows "disk_read path d1 = (if res = Inr () then Some (concat bs) else disk_read path d)"
    and "components q \<noteq> components tmp \<Longrightarrow> components q \<noteq> components path \<Longrightarrow> disk_read q d1 = disk_read q d"
    and "disk_ok d1"
proof -
  define dm where "dm = create_dir_all (path_parent path) d"
  define f where "f = fst (disk_open True tmp dm)"
  define e where "e = snd (disk_open True tmp dm)"
  have dm: "disk_ok dm" "disk_read r dm = disk_read r d" for r
    using d by (simp_all add: dm_def create_dir_all_def disk_ok_def disk_read_def)
  have e: "disk_ok e" "names e (components tmp) = Some f" "contents e f = []"
    "\<And>r. components r \<noteq> components tmp \<Longrightarrow> disk_read r e = disk_read r d"
    using disk_ok_open [OF dm(1), of True tmp] disk_open_name [of True tmp dm] disk_open_contents [of True tmp dm]
      disk_open_other [OF dm(1)] dm(2) by (simp_all add: e_def f_def)
  obtain w where w: "names w = names e" "next_file w = next_file e" "\<forall>g. g \<noteq> f \<longrightarrow> contents w g = contents e g"
    "(\<exists>x. perform io 2 (write_ops 0 bs @ [RenameTo tmp path]) (f, e) = (Inl x, (f, w))) \<or>
     w = files.write_all f 0 bs e \<and>
     perform io 2 (write_ops 0 bs @ [RenameTo tmp path]) (f, e) = perform io (2 + length bs) [RenameTo tmp path] (f, w)"
    using perform_writes [of e f io 2 0 bs "[RenameTo tmp path]"] by blast
  have wok: "disk_ok w" using e(1) w(1,2) by (simp add: disk_ok_def)
  have wr: "disk_read r w = disk_read r d" if "components r \<noteq> components tmp" for r
  proof -
    have "names e (components r) \<noteq> Some f" using e(1,2) that by (auto simp: disk_ok_def)
    then have "disk_read r w = disk_read r e" using w(1,3)
      by (cases "names e (components r)") (auto simp: disk_read_def)
    with e(4) that show ?thesis by simp
  qed
  have run': "(res, (f1, d1)) = (case io 0 of Some x \<Rightarrow> (Inl x, (f0, d)) | None \<Rightarrow>
      (case io 1 of Some x \<Rightarrow> (Inl x, (f0, dm)) | None \<Rightarrow> perform io 2 (write_ops 0 bs @ [RenameTo tmp path]) (f, e)))"
    using run by (simp add: persist_ops_def tmp dm_def f_def e_def numeral_2_eq_2 split: option.splits)
  consider "res \<noteq> Inr ()" "d1 = d" | "res \<noteq> Inr ()" "d1 = dm" | "res \<noteq> Inr ()" "d1 = w"
    | "w = files.write_all f 0 bs e" "perform io (2 + length bs) [RenameTo tmp path] (f, w) = (res, (f1, d1))"
    using run' w(4) by (auto split: option.splits)
  then have "disk_read path d1 = (if res = Inr () then Some (concat bs) else disk_read path d) \<and>
    (components q \<noteq> components tmp \<longrightarrow> components q \<noteq> components path \<longrightarrow> disk_read q d1 = disk_read q d) \<and> disk_ok d1"
  proof cases
    case 1
    with d show ?thesis by simp
  next
    case 2
    with dm show ?thesis by simp
  next
    case 3
    with wr ne wok show ?thesis by simp
  next
    case 4
    have c: "disk_read tmp w = Some (concat bs)"
      using 4(1) e(2,3) w(1) by (simp add: disk_read_def files.write_all_fresh)
    obtain x where x: "disk_rename tmp path w = Some x" using disk_rename_Some e(2) w(1) by metis
    from 4(2) x have "res = Inr () \<and> d1 = x \<or> res \<noteq> Inr () \<and> d1 = w" by (auto split: option.splits)
    then show ?thesis
      using disk_rename_read [OF x ne] c wr ne wok disk_ok_rename [OF wok x] by auto
  qed
  then show "disk_read path d1 = (if res = Inr () then Some (concat bs) else disk_read path d)"
    and "components q \<noteq> components tmp \<Longrightarrow> components q \<noteq> components path \<Longrightarrow> disk_read q d1 = disk_read q d"
    and "disk_ok d1" by blast+
qed

text \<open>When no operation fails, persisting succeeds.\<close>

lemma perform_writes_healthy:
  "perform (\<lambda>_. None) n (write_ops off bs @ rest) (f, d) = perform (\<lambda>_. None) (n + length bs) rest (f, files.write_all f off bs d)"
  by (induction bs arbitrary: n off d) simp_all

lemma write_all_names: "names (files.write_all f off bs d) = names d"
  by (induction bs arbitrary: off d) (simp_all add: disk_simps)

lemma persist_succeeds:
  assumes "ser (map_values ks (hs_records st)) = Inr json"
  shows "fst (persist ser pieces (\<lambda>_. None) ks st d) = Inr ()"
proof -
  let ?t = "path_with_extension (lit ''json.tmp'') (hs_path st)"
  obtain f e where o: "disk_open True ?t (create_dir_all (path_parent (hs_path st)) d) = (f, e)" by fastforce
  have "names (files.write_all f 0 (pieces json) e) (components ?t) = Some f"
    using disk_open_name [of True ?t "create_dir_all (path_parent (hs_path st)) d"] o by (simp add: write_all_names)
  then obtain x where "disk_rename ?t (hs_path st) (files.write_all f 0 (pieces json) e) = Some x"
    using disk_rename_Some by blast
  with assms o show ?thesis by (simp add: persist_def persist_ops_def Let_def perform_writes_healthy)
qed

section \<open>Enumerations\<close>

lemma map_values_mem: "enumerates ks m \<Longrightarrow> v \<in> set (map_values ks m) \<longleftrightarrow> (\<exists>k. m k = Some v)"
  by (force simp: enumerates_def map_values_def)

lemma keyed_values: "enumerates ks m \<Longrightarrow> \<forall>k v. m k = Some v \<longrightarrow> rec_id v = k \<Longrightarrow>
    map rec_id (map_values ks m) = ks"
  unfolding map_values_def enumerates_def by (auto simp: comp_def intro!: map_idI)

text \<open>Reading the values back into a map gives the map, in whatever order they were listed.\<close>

lemma map_of_values:
  assumes "enumerates ks m" and "\<forall>k v. m k = Some v \<longrightarrow> rec_id v = k"
  shows "map_of (rev (map (\<lambda>r. (rec_id r, r)) (map_values ks m))) = m"
proof
  fix k
  let ?l = "rev (map (\<lambda>r. (rec_id r, r)) (map_values ks m))"
  have "map fst ?l = rev (map rec_id (map_values ks m))" by (simp add: rev_map comp_def)
  then have "map fst ?l = rev ks" by (simp only: keyed_values [OF assms])
  then have d: "distinct (map fst ?l)" using assms(1) by (simp add: enumerates_def)
  show "map_of ?l k = m k"
  proof (cases "m k")
    case None
    have "k \<notin> set ks" using None assms(1) by (auto simp: enumerates_def)
    moreover have "set (map fst ?l) = set ks" by (simp only: \<open>map fst ?l = rev ks\<close> set_rev)
    ultimately have "k \<notin> fst ` set ?l" by (simp only: set_map not_False_eq_True)
    then have "map_of ?l k = None" by (rule iffD2 [OF map_of_eq_None_iff])
    then show ?thesis using None by simp
  next
    case (Some v)
    then have "v \<in> set (map_values ks m)" using map_values_mem [OF assms(1)] by blast
    then have "(k, v) \<in> set ?l" using Some assms(2) by force
    then show ?thesis using Some map_of_is_SomeI [OF d] by simp
  qed
qed

definition cuts :: "(byte list \<Rightarrow> byte list list) \<Rightarrow> bool" where
  "cuts pieces \<longleftrightarrow> (\<forall>b. concat (pieces b) = b)"

text \<open>Documented behaviour of the JSON codec: what it wrote, it reads back.\<close>

definition codec ::
  "(TransferRecord list \<Rightarrow> rstring + byte list) \<Rightarrow> (byte list \<Rightarrow> rstring + TransferRecord list) \<Rightarrow> bool" where
  "codec ser de \<longleftrightarrow> (\<forall>xs b. ser xs = Inr b \<longrightarrow> b \<noteq> [] \<and> de b = Inr xs)"

lemma persist_effect:
  assumes "disk_ok d" and "cuts pieces" and "hs_path st = history_file sp"
    and "persist ser pieces io ks st d = (res, d1)"
  shows "disk_ok d1"
    and "res \<noteq> Inr () \<Longrightarrow> disk_read (history_file sp) d1 = disk_read (history_file sp) d"
    and "res = Inr () \<Longrightarrow> \<exists>json. ser (map_values ks (hs_records st)) = Inr json \<and> disk_read (history_file sp) d1 = Some json"
    and "components q \<noteq> components (history_tmp sp) \<Longrightarrow> components q \<noteq> components (history_file sp) \<Longrightarrow>
      disk_read q d1 = disk_read q d"
proof -
  have "disk_ok d1 \<and> (res \<noteq> Inr () \<longrightarrow> disk_read (history_file sp) d1 = disk_read (history_file sp) d) \<and>
    (res = Inr () \<longrightarrow> (\<exists>json. ser (map_values ks (hs_records st)) = Inr json \<and> disk_read (history_file sp) d1 = Some json)) \<and>
    (components q \<noteq> components (history_tmp sp) \<longrightarrow> components q \<noteq> components (history_file sp) \<longrightarrow>
      disk_read q d1 = disk_read q d)"
  proof (cases "ser (map_values ks (hs_records st))")
    case (Inl e)
    with assms(1,4) show ?thesis by (auto simp: persist_def)
  next
    case (Inr json)
    obtain r f where r: "perform io 0 (persist_ops (history_file sp) (pieces json)) (0, d) = (r, (f, d1))"
      "res = Inr () \<longleftrightarrow> r = Inr ()"
      using assms(3,4) Inr by (auto simp: persist_def split: sum.splits prod.splits)
    note p = perform_persist [OF assms(1) history_tmp_def [symmetric] history_tmp_apart r(1)]
    from p(1,3) p(2) [of q] r(2) Inr assms(2) show ?thesis by (simp add: cuts_def)
  qed
  then show "disk_ok d1"
    and "res \<noteq> Inr () \<Longrightarrow> disk_read (history_file sp) d1 = disk_read (history_file sp) d"
    and "res = Inr () \<Longrightarrow> \<exists>json. ser (map_values ks (hs_records st)) = Inr json \<and> disk_read (history_file sp) d1 = Some json"
    and "components q \<noteq> components (history_tmp sp) \<Longrightarrow> components q \<noteq> components (history_file sp) \<Longrightarrow>
      disk_read q d1 = disk_read q d"
    by blast+
qed

lemma load_same_bytes:
  "disk_read path d1 = disk_read path d \<Longrightarrow> history_load de b err path d1 = history_load de b err path d"
  by (simp add: history_load_def)

lemma load_written:
  assumes "codec ser de" and "ser (map_values ks m) = Inr json" and "disk_read path d = Some json"
    and "enumerates ks m" and "\<forall>k v. m k = Some v \<longrightarrow> rec_id v = k"
  shows "history_load de True None path d = Inr \<lparr>hs_path = path, hs_records = m\<rparr>"
  using assms map_of_values [OF assms(4,5)] by (simp add: history_load_def codec_def)

section \<open>Properties\<close>

text \<open>C15: a crash-safe store: whatever file operation of an \<^verbatim>\<open>add\<close> fails or is the last before a crash, loading
  the history again gives either exactly what it gave before or the store with the new record, and the
  latter whenever \<^verbatim>\<open>add\<close> reported success; no file but the history and its temporary is touched.\<close>

theorem history_add_crash_safe:
  assumes "disk_ok d" and "cuts pieces" and "codec ser de" and "hs_path st = history_file sp"
    and "records.keyed st" and "enumerates ks (hs_records (insert_record r st))"
    and "history_add ser pieces io ks r st d = (res, st', d')"
  shows "history_load de True None (history_file sp) d' =
      (if res = Inr () then Inr st' else history_load de True None (history_file sp) d)
    \<and> st' = insert_record r st
    \<and> (components q \<noteq> components (history_tmp sp) \<longrightarrow> components q \<noteq> components (history_file sp) \<longrightarrow>
        disk_read q d' = disk_read q d)"
proof -
  have st': "st' = insert_record r st" and p: "persist ser pieces io ks (insert_record r st) d = (res, d')"
    using assms(7) by (auto simp: history_add_def Let_def split: prod.splits)
  have path: "hs_path (insert_record r st) = history_file sp" using assms(4) by (simp add: insert_record_def)
  note e = persist_effect [OF assms(1,2) path p]
  have k: "\<forall>k v. hs_records (insert_record r st) k = Some v \<longrightarrow> rec_id v = k"
    using records.keyed_put [OF assms(5)] by (simp add: records.keyed_def)
  have "history_load de True None (history_file sp) d' = Inr st'" if "res = Inr ()"
    using e(3) [OF that] load_written [OF assms(3) _ _ assms(6) k] path st' by fastforce
  moreover have "history_load de True None (history_file sp) d' = history_load de True None (history_file sp) d"
    if "res \<noteq> Inr ()" using e(2) [OF that] by (rule load_same_bytes)
  ultimately show ?thesis using st' e(4) by auto
qed

text \<open>A record, a store and a codec of one list, for the witnesses.\<close>

definition sample_record :: "uuid \<Rightarrow> i64 \<Rightarrow> TransferRecord" where
  "sample_record u at = \<lparr>rec_id = u, rec_file_name = [97], rec_file_size_bytes = 3, rec_peer_device_id = 9,
     rec_peer_name = [98], rec_outgoing = False, rec_status = RecCompleted, rec_sha256 = None,
     rec_started_at = 0, rec_completed_at = at, rec_saved_path = None\<rparr>"

definition sample_paths :: StoragePaths where
  "sample_paths = \<lparr>app_data_dir = lit ''/data''\<rparr>"

definition sample_ser :: "TransferRecord list \<Rightarrow> rstring + byte list" where
  "sample_ser xs = (if xs = [sample_record 1 5] then Inr [1] else Inl [])"

definition sample_de :: "byte list \<Rightarrow> rstring + TransferRecord list" where
  "sample_de b = (if b = [1] then Inr [sample_record 1 5] else Inl [])"

lemma sample_codec: "codec sample_ser sample_de"
  by (simp add: codec_def sample_ser_def sample_de_def)

definition sample_store :: HistoryStore where
  "sample_store = \<lparr>hs_path = history_file sample_paths, hs_records = Map.empty\<rparr>"

definition fail_at :: "nat \<Rightarrow> nat \<Rightarrow> rstring option" where
  "fail_at k n = (if n = k then Some [120] else None)"

text \<open>The fourth operation, the rename, fails.\<close>

theorem history_add_crash_safe_witness:
  "fst (history_add sample_ser (\<lambda>b. [b]) (fail_at 3) [1] (sample_record 1 5) sample_store empty_disk) = Inl (Io [120])
   \<and> history_load sample_de True None (history_file sample_paths)
       (snd (snd (history_add sample_ser (\<lambda>b. [b]) (fail_at 3) [1] (sample_record 1 5) sample_store empty_disk)))
     = Inr sample_store"
proof -
  let ?a = "history_add sample_ser (\<lambda>b. [b]) (fail_at 3) [1] (sample_record 1 5) sample_store empty_disk"
  have f: "fst ?a = Inl (Io [120])"
    by (simp add: history_add_def persist_def persist_ops_def Let_def insert_record_def sample_store_def sample_ser_def
        map_values_def sample_record_def fail_at_def exec_op_write
        split: prod.splits sum.splits)
  have k: "records.keyed sample_store" and c: "cuts (\<lambda>b. [b])"
    and e: "enumerates [1] (hs_records (insert_record (sample_record 1 5) sample_store))"
    and p: "hs_path sample_store = history_file sample_paths"
    by (simp_all add: records.keyed_def sample_store_def cuts_def enumerates_def insert_record_def sample_record_def)
  have a: "?a = (fst ?a, fst (snd ?a), snd (snd ?a))" by (simp only: prod.collapse)
  note history_add_crash_safe [OF disk_ok_empty c sample_codec p k e a, THEN conjunct1]
  also have "(if fst ?a = Inr () then Inr (fst (snd ?a)) else history_load sample_de True None (history_file sample_paths) empty_disk)
      = Inr sample_store"
    unfolding f by (simp add: history_load_def disk_read_def empty_disk_def sample_store_def)
  finally show ?thesis using f by (intro conjI)
qed

text \<open>C38: the history listing is the recorded transfers, each once, most recent completion first; when no two
  completed at the same second it does not depend on the order the hash map yields them.\<close>

theorem history_list_sorted:
  assumes "enumerates ks (hs_records st)"
  shows "sorted_wrt (\<lambda>a b. rec_completed_at b \<le> rec_completed_at a) (history_list ks st)
    \<and> mset (history_list ks st) = mset (map_values ks (hs_records st))
    \<and> (v \<in> set (history_list ks st) \<longleftrightarrow> (\<exists>u. history_get u st = Some v))
    \<and> (inj_on rec_completed_at (ran (hs_records st)) \<longrightarrow> enumerates ls (hs_records st) \<longrightarrow>
        history_list ls st = history_list ks st)"
proof (intro conjI impI)
  show "sorted_wrt (\<lambda>a b. rec_completed_at b \<le> rec_completed_at a) (history_list ks st)"
    using sorted_sort_key [of "\<lambda>r. Reverse (rec_completed_at r)" "map_values ks (hs_records st)"]
    by (simp add: history_list_def sorted_map)
  show "mset (history_list ks st) = mset (map_values ks (hs_records st))" by (simp add: history_list_def)
  show "v \<in> set (history_list ks st) \<longleftrightarrow> (\<exists>u. history_get u st = Some v)"
    using map_values_mem [OF assms] by (simp add: history_list_def history_get_def)
  assume inj: "inj_on rec_completed_at (ran (hs_records st))" and ls: "enumerates ls (hs_records st)"
  have "mset ls = mset ks" using assms ls set_eq_iff_mset_eq_distinct [of ls ks] by (simp add: enumerates_def)
  then have "mset (map_values ls (hs_records st)) = mset (map_values ks (hs_records st))"
    by (simp add: map_values_def)
  moreover have "set (map_values ls (hs_records st)) = ran (hs_records st)"
    using map_values_mem [OF ls] by (auto simp: ran_def)
  then have "inj_on (\<lambda>r. Reverse (rec_completed_at r)) (set (map_values ls (hs_records st)))"
    using inj by (auto simp: inj_on_def)
  ultimately show "history_list ls st = history_list ks st"
    unfolding history_list_def by (intro sort_key_inj_key_eq) simp_all
qed

theorem history_list_sorted_witness:
  "map rec_completed_at (history_list [1, 2]
      (fold insert_record [sample_record 1 5, sample_record 2 8] sample_store)) = [8, 5]
   \<and> history_list [2, 1] (fold insert_record [sample_record 1 5, sample_record 2 8] sample_store)
     = history_list [1, 2] (fold insert_record [sample_record 1 5, sample_record 2 8] sample_store)"
proof -
  let ?s = "fold insert_record [sample_record 1 5, sample_record 2 8] sample_store"
  have e: "enumerates [1, 2] (hs_records ?s)" "enumerates [2, 1] (hs_records ?s)"
    by (auto simp: enumerates_def insert_record_def sample_record_def sample_store_def split: if_splits)
  have i: "inj_on rec_completed_at (ran (hs_records ?s))"
    by (auto simp: insert_record_def sample_record_def sample_store_def inj_on_def ran_def split: if_splits)
  have "map rec_completed_at (history_list [1, 2] ?s) = [8, 5]"
    by (simp add: history_list_def map_values_def insert_record_def sample_record_def sample_store_def)
  with history_list_sorted [OF e(1)] e(2) i show ?thesis by blast
qed

end
