(* ===== verification/Session.thy ===== *)
theory Session
  imports Complex_Main Rust_Num
begin

text \<open>
  \<^verbatim>\<open>filedrop-core/src/transfer/session.rs\<close> and \<^verbatim>\<open>transfer/progress.rs\<close>. A \<^verbatim>\<open>TransferSession\<close> is a
  cheap handle: its counter and its two flags live behind \<^verbatim>\<open>Arc\<close>s that every clone shares. Here the
  three shared atomics of a session are one cell of an explicit heap, and the handle holds the cell's
  address, so that a clone kept in a map and the one a loop works on see each other's updates.
\<close>

datatype TransferDirection = Send | Receive

datatype TransferStatus = Queued | Connecting | InProgress | Paused | Completed | Failed | Cancelled

record cell =
  bytes :: u64
  paused :: bool
  cancelled :: bool

record heap =
  cells :: "nat \<Rightarrow> cell"
  next_cell :: nat

text \<open>\<^verbatim>\<open>Instant\<close>: nanoseconds of a monotonic clock.\<close>

record TransferSession =
  ts_id :: uuid
  ts_file_name :: rstring
  ts_total_bytes :: u64
  ts_direction :: TransferDirection
  ts_cell :: nat
  ts_started_at :: nat

definition cell_of :: "TransferSession \<Rightarrow> heap \<Rightarrow> cell" where
  "cell_of s h = cells h (ts_cell s)"

definition update_cell :: "(cell \<Rightarrow> cell) \<Rightarrow> TransferSession \<Rightarrow> heap \<Rightarrow> heap" where
  "update_cell f s h = h\<lparr>cells := (cells h)(ts_cell s := f (cells h (ts_cell s)))\<rparr>"

definition session_new ::
  "uuid \<Rightarrow> rstring \<Rightarrow> u64 \<Rightarrow> TransferDirection \<Rightarrow> nat \<Rightarrow> heap \<Rightarrow> TransferSession \<times> heap" where
  "session_new uid file_name total_bytes direction now h =
     (\<lparr>ts_id = uid, ts_file_name = file_name, ts_total_bytes = total_bytes, ts_direction = direction,
       ts_cell = next_cell h, ts_started_at = now\<rparr>,
      h\<lparr>cells := (cells h)(next_cell h := \<lparr>bytes = 0, paused = False, cancelled = False\<rparr>),
        next_cell := Suc (next_cell h)\<rparr>)"

definition with_initial_bytes :: "u64 \<Rightarrow> TransferSession \<Rightarrow> heap \<Rightarrow> heap" where
  "with_initial_bytes initial s h = update_cell (\<lambda>c. c\<lparr>bytes := initial\<rparr>) s h"

text \<open>\<^verbatim>\<open>fetch_add\<close> wraps around.\<close>

definition add_bytes :: "u64 \<Rightarrow> TransferSession \<Rightarrow> heap \<Rightarrow> heap" where
  "add_bytes n s h = update_cell (\<lambda>c. c\<lparr>bytes := bytes c + n\<rparr>) s h"

definition bytes_transferred :: "TransferSession \<Rightarrow> heap \<Rightarrow> u64" where
  "bytes_transferred s h = bytes (cell_of s h)"

definition session_pause :: "TransferSession \<Rightarrow> heap \<Rightarrow> heap" where
  "session_pause s h = update_cell (\<lambda>c. c\<lparr>paused := True\<rparr>) s h"

definition session_resume :: "TransferSession \<Rightarrow> heap \<Rightarrow> heap" where
  "session_resume s h = update_cell (\<lambda>c. c\<lparr>paused := False\<rparr>) s h"

definition is_paused :: "TransferSession \<Rightarrow> heap \<Rightarrow> bool" where
  "is_paused s h = paused (cell_of s h)"

definition session_cancel :: "TransferSession \<Rightarrow> heap \<Rightarrow> heap" where
  "session_cancel s h = update_cell (\<lambda>c. c\<lparr>cancelled := True\<rparr>) s h"

definition is_cancelled :: "TransferSession \<Rightarrow> heap \<Rightarrow> bool" where
  "is_cancelled s h = cancelled (cell_of s h)"

lemmas session_ops = with_initial_bytes_def add_bytes_def session_pause_def session_resume_def
  session_cancel_def

section \<open>Progress\<close>

text \<open>An \<^verbatim>\<open>f64\<close> is the real it denotes; \<open>fl\<close> is the rounding of IEEE 754 to the nearest double. No value
  the program computes here is infinite or a NaN.\<close>

type_synonym f64 = real

record TransferProgress =
  tp_transfer_id :: uuid
  tp_file_name :: rstring
  tp_bytes_transferred :: u64
  tp_total_bytes :: u64
  tp_status :: TransferStatus
  tp_bytes_per_sec :: f64
  tp_error :: "rstring option"

definition percent :: "(real \<Rightarrow> f64) \<Rightarrow> TransferProgress \<Rightarrow> f64" where
  "percent fl p =
     (if tp_total_bytes p = 0 then 0
      else fl (fl (fl (unat (tp_bytes_transferred p)) / fl (unat (tp_total_bytes p))) * 100))"

text \<open>\<^verbatim>\<open>Duration::as_secs_f64\<close>.\<close>

definition as_secs_f64 :: "(real \<Rightarrow> f64) \<Rightarrow> nat \<Rightarrow> f64" where
  "as_secs_f64 fl ns = fl (fl (ns div 10 ^ 9) + fl (fl (ns mod 10 ^ 9) / 10 ^ 9))"

definition session_progress ::
  "(real \<Rightarrow> f64) \<Rightarrow> TransferStatus \<Rightarrow> rstring option \<Rightarrow> nat \<Rightarrow> TransferSession \<Rightarrow> heap \<Rightarrow> TransferProgress" where
  "session_progress fl status err now s h =
     (let elapsed = max (as_secs_f64 fl (now - ts_started_at s)) (fl (1 / 1000));
          transferred = fl (unat (bytes_transferred s h))
      in \<lparr>tp_transfer_id = ts_id s, tp_file_name = ts_file_name s,
          tp_bytes_transferred = bytes_transferred s h, tp_total_bytes = ts_total_bytes s,
          tp_status = status, tp_bytes_per_sec = fl (transferred / elapsed), tp_error = err\<rparr>)"

text \<open>What is used of the rounding: it is monotone and exact on integers up to \<open>2\<^sup>5\<^sup>3\<close>.\<close>

definition f64_rounding :: "(real \<Rightarrow> f64) \<Rightarrow> bool" where
  "f64_rounding fl \<longleftrightarrow> mono fl \<and> (\<forall>n :: nat. n \<le> 2 ^ 53 \<longrightarrow> fl (real n) = real n)"

section \<open>Cells\<close>

lemma cell_of_update [cell_simps]:
  "cell_of t (update_cell f s h) = (if ts_cell t = ts_cell s then f (cell_of t h) else cell_of t h)"
  "next_cell (update_cell f s h) = next_cell h"
  by (simp_all add: cell_of_def update_cell_def)

lemma cell_of_new [cell_simps]:
  "cell_of (fst (session_new u n b d now h)) (snd (session_new u n b d now h))
    = \<lparr>bytes = 0, paused = False, cancelled = False\<rparr>"
  "ts_cell t < next_cell h \<Longrightarrow> cell_of t (snd (session_new u n b d now h)) = cell_of t h"
  "next_cell (snd (session_new u n b d now h)) = Suc (next_cell h)"
  "ts_cell (fst (session_new u n b d now h)) = next_cell h"
  by (simp_all add: cell_of_def session_new_def)

lemma session_new_fields [simp]:
  "ts_id (fst (session_new u n b d now h)) = u"
  "ts_file_name (fst (session_new u n b d now h)) = n"
  "ts_total_bytes (fst (session_new u n b d now h)) = b"
  "ts_direction (fst (session_new u n b d now h)) = d"
  by (simp_all add: session_new_def)

section \<open>Properties\<close>

lemma f64_exact: "f64_rounding fl \<Longrightarrow> fl 0 = 0 \<and> fl 1 = 1 \<and> fl 100 = 100"
proof -
  assume f: "f64_rounding fl"
  then have "fl (real n) = real n" if "n \<le> 2 ^ 53" for n :: nat using that by (simp add: f64_rounding_def)
  from this [of 0] this [of 1] this [of 100] show ?thesis by simp
qed

lemma f64_mono: "f64_rounding fl \<Longrightarrow> x \<le> y \<Longrightarrow> fl x \<le> fl y"
  by (simp add: f64_rounding_def mono_def)

text \<open>The ratio of two byte counts, rounded as the code does.\<close>

definition ratio :: "(real \<Rightarrow> f64) \<Rightarrow> nat \<Rightarrow> nat \<Rightarrow> f64" where
  "ratio fl b t = fl (fl (fl (real b) / fl (real t)) * 100)"

lemma ratio_range:
  assumes "f64_rounding fl" and "0 < t" and "b \<le> t" and "c \<le> b"
  shows "0 \<le> ratio fl b t" "ratio fl b t \<le> 100" "ratio fl c t \<le> ratio fl b t" "ratio fl t t = 100"
proof -
  note e = f64_exact [OF assms(1)] and m = f64_mono [OF assms(1)]
  have t: "1 \<le> fl (real t)" using m [of 1 "real t"] e assms(2) by simp
  have c: "0 \<le> fl (real c)" using m [of 0 "real c"] e by simp
  have "fl (real c) \<le> fl (real b)" and "fl (real b) \<le> fl (real t)"
    using assms(3,4) by (auto intro!: m)
  with t c have q: "0 \<le> fl (real c) / fl (real t)" "fl (real c) / fl (real t) \<le> fl (real b) / fl (real t)"
    "fl (real b) / fl (real t) \<le> 1" by (simp_all add: divide_right_mono)
  have "0 \<le> fl (fl (real c) / fl (real t))" using m [OF q(1)] e by simp
  moreover have "fl (fl (real c) / fl (real t)) \<le> fl (fl (real b) / fl (real t))" by (rule m [OF q(2)])
  moreover have "fl (fl (real b) / fl (real t)) \<le> 1" using m [OF q(3)] e by simp
  ultimately have z: "0 \<le> fl (fl (real c) / fl (real t)) * 100"
    "fl (fl (real c) / fl (real t)) * 100 \<le> fl (fl (real b) / fl (real t)) * 100"
    "fl (fl (real b) / fl (real t)) * 100 \<le> 100" by simp_all
  show "ratio fl c t \<le> ratio fl b t" unfolding ratio_def by (rule m [OF z(2)])
  with m [OF z(1)] e show "0 \<le> ratio fl b t" by (simp add: ratio_def)
  show "ratio fl b t \<le> 100" using m [OF z(3)] e by (simp add: ratio_def)
  show "ratio fl t t = 100" using t e by (simp add: ratio_def)
qed

lemma percent_ratio:
  "percent fl p = (if tp_total_bytes p = 0 then 0
     else ratio fl (unat (tp_bytes_transferred p)) (unat (tp_total_bytes p)))"
  by (simp only: percent_def ratio_def)

text \<open>The progress percentage is between 0 and 100 as long as no more than the total has been transferred,
  exactly 100 at the end, and never falls while bytes come in, whatever the rounding of the divisions.\<close>

theorem percent_range:
  assumes "f64_rounding fl" and "tp_bytes_transferred p \<le> tp_total_bytes p"
    and "tp_bytes_transferred q \<le> tp_bytes_transferred p" and "tp_total_bytes q = tp_total_bytes p"
  shows "0 \<le> percent fl p \<and> percent fl p \<le> 100 \<and> percent fl q \<le> percent fl p
    \<and> (tp_bytes_transferred p = tp_total_bytes p \<and> tp_total_bytes p \<noteq> 0 \<longrightarrow> percent fl p = 100)"
proof (cases "tp_total_bytes p = 0")
  case True
  with assms(4) show ?thesis by (simp add: percent_ratio)
next
  case False
  then have "0 < unat (tp_total_bytes p)" by (simp add: unat_gt_0)
  moreover have "unat (tp_bytes_transferred p) \<le> unat (tp_total_bytes p)"
    and "unat (tp_bytes_transferred q) \<le> unat (tp_bytes_transferred p)"
    using assms(2,3) by (simp_all add: word_le_nat_alt)
  ultimately show ?thesis using False assms(4) ratio_range [OF assms(1)] by (simp add: percent_ratio)
qed

theorem percent_range_witness:
  "percent id (session_progress id InProgress None 0 \<lparr>ts_id = 1, ts_file_name = [], ts_total_bytes = 8,
      ts_direction = Send, ts_cell = 0, ts_started_at = 0\<rparr>
      \<lparr>cells = (\<lambda>_. \<lparr>bytes = 2, paused = False, cancelled = False\<rparr>), next_cell = 1\<rparr>) \<le> 100"
proof -
  let ?p = "session_progress id InProgress None 0 \<lparr>ts_id = 1, ts_file_name = [], ts_total_bytes = 8,
      ts_direction = Send, ts_cell = 0, ts_started_at = 0\<rparr>
      \<lparr>cells = (\<lambda>_. \<lparr>bytes = 2, paused = False, cancelled = False\<rparr>), next_cell = 1\<rparr>"
  have f: "f64_rounding id" by (simp add: f64_rounding_def mono_def)
  have l: "tp_bytes_transferred ?p \<le> tp_total_bytes ?p"
    by (simp add: session_progress_def Let_def bytes_transferred_def cell_of_def)
  from percent_range [OF f l order_refl refl] show ?thesis by blast
qed

end
