(* ===== verification/Queue.thy ===== *)
theory Queue
  imports Session
begin

text \<open>
  \<^verbatim>\<open>filedrop-core/src/transfer/queue.rs\<close>: the FIFO of transfers and the semaphore that bounds how many are
  active. A permit is held by whoever called \<^verbatim>\<open>next\<close> and comes back when it is dropped
  (\<open>drop_permit\<close>). The semaphore is never closed, so waiting for a permit has no error branch; waiting
  itself is \<open>None\<close>.
\<close>

definition MAX_PARALLEL_TRANSFERS :: nat where
  "MAX_PARALLEL_TRANSFERS = 3"

record QueuedTransfer =
  qt_id :: uuid
  qt_file_path :: rstring
  qt_file_name :: rstring
  qt_total_bytes :: u64
  qt_peer_device_id :: uuid
  qt_direction :: TransferDirection
  qt_status :: TransferStatus

record TransferQueue =
  pending :: "QueuedTransfer list"
  active :: "(QueuedTransfer \<times> TransferSession) list"
  permits :: nat

definition queue_new :: TransferQueue where
  "queue_new = \<lparr>pending = [], active = [], permits = MAX_PARALLEL_TRANSFERS\<rparr>"

definition TransferQueue_default :: TransferQueue where
  "TransferQueue_default = queue_new"

definition enqueue :: "QueuedTransfer \<Rightarrow> TransferQueue \<Rightarrow> TransferQueue" where
  "enqueue t q = q\<lparr>pending := pending q @ [t]\<rparr>"

text \<open>The three steps of \<^verbatim>\<open>next\<close>, each under its own lock: take a permit, pop, register.\<close>

definition acquire_permit :: "TransferQueue \<Rightarrow> TransferQueue option" where
  "acquire_permit q = (if permits q = 0 then None else Some (q\<lparr>permits := permits q - 1\<rparr>))"

definition drop_permit :: "TransferQueue \<Rightarrow> TransferQueue" where
  "drop_permit q = q\<lparr>permits := Suc (permits q)\<rparr>"

definition pop_pending ::
  "nat \<Rightarrow> heap \<Rightarrow> TransferQueue \<Rightarrow> ((QueuedTransfer \<times> TransferSession) option \<times> heap) \<times> TransferQueue" where
  "pop_pending now h q =
     (case pending q of
        [] \<Rightarrow> ((None, h), drop_permit q)
      | t # ts \<Rightarrow>
          (let queued = t\<lparr>qt_status := Connecting\<rparr>;
               (session, h') = session_new (qt_id queued) (qt_file_name queued) (qt_total_bytes queued)
                                 (qt_direction queued) now h
           in ((Some (queued, session), h'), q\<lparr>pending := ts\<rparr>)))"

definition push_active :: "QueuedTransfer \<times> TransferSession \<Rightarrow> TransferQueue \<Rightarrow> TransferQueue" where
  "push_active e q = q\<lparr>active := active q @ [e]\<rparr>"

text \<open>\<^verbatim>\<open>next\<close> run without interruption.\<close>

definition queue_next ::
  "nat \<Rightarrow> heap \<Rightarrow> TransferQueue \<Rightarrow> ((QueuedTransfer \<times> TransferSession) option \<times> heap \<times> TransferQueue) option" where
  "queue_next now h q =
     (case acquire_permit q of
        None \<Rightarrow> None
      | Some q1 \<Rightarrow>
          (case pop_pending now h q1 of
             ((None, h'), q2) \<Rightarrow> Some (None, h', q2)
           | ((Some e, h'), q2) \<Rightarrow> Some (Some e, h', push_active e q2)))"

definition active_sessions :: "TransferQueue \<Rightarrow> (QueuedTransfer \<times> TransferSession) list" where
  "active_sessions q = active q"

definition find_session :: "uuid \<Rightarrow> TransferQueue \<Rightarrow> TransferSession option" where
  "find_session u q = map_option snd (find (\<lambda>e. qt_id (fst e) = u) (active q))"

definition mark_finished :: "uuid \<Rightarrow> TransferQueue \<Rightarrow> TransferQueue" where
  "mark_finished u q = q\<lparr>active := filter (\<lambda>e. qt_id (fst e) \<noteq> u) (active q)\<rparr>"

definition pending_count :: "TransferQueue \<Rightarrow> nat" where
  "pending_count q = length (pending q)"

lemmas queue_defs = acquire_permit_def drop_permit_def push_active_def enqueue_def mark_finished_def

section \<open>Permits\<close>

text \<open>The contract of a counting semaphore: taking needs one and takes one, dropping returns one.\<close>

locale permit_pool =
  fixes avail :: "'s \<Rightarrow> nat"
    and take_permit :: "'s \<Rightarrow> 's option"
    and give_permit :: "'s \<Rightarrow> 's"
  assumes take_None: "take_permit s = None \<longleftrightarrow> avail s = 0"
    and take_Some: "take_permit s = Some t \<Longrightarrow> avail s = Suc (avail t)"
    and give_avail: "avail (give_permit s) = Suc (avail s)"
begin

text \<open>What \<open>n\<close> takers in a row get.\<close>

fun take_many :: "nat \<Rightarrow> 's \<Rightarrow> nat \<times> 's" where
  "take_many 0 s = (0, s)"
| "take_many (Suc n) s =
     (case take_permit s of None \<Rightarrow> (0, s) | Some t \<Rightarrow> (let (k, u) = take_many n t in (Suc k, u)))"

lemma take_many_count: "fst (take_many n s) = min n (avail s)" "avail (snd (take_many n s)) = avail s - n"
proof -
  have "fst (take_many n s) = min n (avail s) \<and> avail (snd (take_many n s)) = avail s - n"
  proof (induction n arbitrary: s)
    case 0
    then show ?case by simp
  next
    case (Suc n)
    show ?case
    proof (cases "take_permit s")
      case None
      then show ?thesis using take_None [of s] by simp
    next
      case (Some t)
      then show ?thesis using take_Some [OF Some] Suc [of t] by (cases "take_many n t") simp
    qed
  qed
  then show "fst (take_many n s) = min n (avail s)" "avail (snd (take_many n s)) = avail s - n" by simp_all
qed

end

interpretation sem: permit_pool permits acquire_permit drop_permit
  by unfold_locales (auto simp: acquire_permit_def drop_permit_def split: if_splits)

section \<open>Draining the queue\<close>

lemma enqueues: "fold enqueue ts q = q\<lparr>pending := pending q @ ts\<rparr>"
  by (induction ts arbitrary: q) (simp_all add: enqueue_def)

lemma queue_next_pending:
  assumes "permits q = Suc n" and "pending q = t # ts"
  shows "queue_next now h q =
    (let s = fst (session_new (qt_id t) (qt_file_name t) (qt_total_bytes t) (qt_direction t) now h)
     in Some (Some (t\<lparr>qt_status := Connecting\<rparr>, s),
          snd (session_new (qt_id t) (qt_file_name t) (qt_total_bytes t) (qt_direction t) now h),
          q\<lparr>pending := ts, active := active q @ [(t\<lparr>qt_status := Connecting\<rparr>, s)], permits := n\<rparr>))"
  using assms by (simp add: queue_next_def pop_pending_def queue_defs Let_def split: prod.splits)

text \<open>\<open>k\<close> calls of \<^verbatim>\<open>next\<close> one after the other, at the times \<open>now\<close> gives.\<close>

primrec next_many ::
  "nat \<Rightarrow> (nat \<Rightarrow> nat) \<Rightarrow> heap \<Rightarrow> TransferQueue \<Rightarrow> (QueuedTransfer \<times> TransferSession) list \<times> heap \<times> TransferQueue" where
  "next_many 0 now h q = ([], h, q)"
| "next_many (Suc k) now h q =
     (case queue_next (now k) h q of
        None \<Rightarrow> ([], h, q)
      | Some (None, h', q') \<Rightarrow> ([], h', q')
      | Some (Some e, h', q') \<Rightarrow> (let (es, r) = next_many k now h' q' in (e # es, r)))"

lemma next_many_drains:
  assumes "k \<le> permits q" and "k \<le> length (pending q)" and "next_many k now h q = (es, h', q')"
  shows "map fst es = map (\<lambda>t. t\<lparr>qt_status := Connecting\<rparr>) (take k (pending q))
    \<and> q' = q\<lparr>pending := drop k (pending q), active := active q @ es, permits := permits q - k\<rparr>
    \<and> map (ts_cell \<circ> snd) es = [next_cell h ..< next_cell h + k] \<and> next_cell h' = next_cell h + k
    \<and> map (ts_id \<circ> snd) es = map qt_id (take k (pending q))"
  using assms
proof (induction k arbitrary: h q es)
  case 0
  then show ?case by simp
next
  case (Suc k)
  obtain n t ts where q: "permits q = Suc n" "pending q = t # ts"
    using Suc.prems(1,2) by (cases "permits q"; cases "pending q") auto
  let ?n = "session_new (qt_id t) (qt_file_name t) (qt_total_bytes t) (qt_direction t) (now k) h"
  let ?q = "q\<lparr>pending := ts, active := active q @ [(t\<lparr>qt_status := Connecting\<rparr>, fst ?n)], permits := n\<rparr>"
  obtain fs where fs: "next_many k now (snd ?n) ?q = (fs, h', q')" "es = (t\<lparr>qt_status := Connecting\<rparr>, fst ?n) # fs"
    using Suc.prems(3) by (auto simp: queue_next_pending [OF q] Let_def split: prod.splits)
  have "k \<le> permits ?q" and "k \<le> length (pending ?q)" using Suc.prems(1,2) q by simp_all
  from Suc.IH [OF this fs(1)] fs(2) q show ?case by (simp add: cell_simps upt_conv_Cons)
qed

section \<open>Properties\<close>

text \<open>C34: the queue is first in first out and bounded: after any transfers are queued on an idle queue, the first
  calls of \<^verbatim>\<open>next\<close>, up to the number of permits, return them in the order they were queued, each with a
  session of its own whose counter and flags no other session shares; they are the active transfers
  then, each found by its id, and the one after the last permit has to wait.\<close>

theorem queue_fifo_bounded:
  assumes "k \<le> length ts" and "k \<le> MAX_PARALLEL_TRANSFERS"
    and "next_many k now h (fold enqueue ts queue_new) = (es, h', q')"
  shows "map fst es = map (\<lambda>t. t\<lparr>qt_status := Connecting\<rparr>) (take k ts)
    \<and> active_sessions q' = es \<and> pending q' = drop k ts
    \<and> distinct (map (ts_cell \<circ> snd) es)
    \<and> (distinct (map qt_id ts) \<longrightarrow> (\<forall>e \<in> set es. find_session (qt_id (fst e)) q' = Some (snd e)))
    \<and> (queue_next later h' q' = None \<longleftrightarrow> k = MAX_PARALLEL_TRANSFERS)"
proof -
  have q: "fold enqueue ts queue_new = \<lparr>pending = ts, active = [], permits = MAX_PARALLEL_TRANSFERS\<rparr>"
    by (simp add: enqueues queue_new_def)
  note d = next_many_drains [of k "fold enqueue ts queue_new", unfolded q, simplified, OF assms(2,1) assms(3) [unfolded q]]
  have f: "find_session (qt_id (fst e)) q' = Some (snd e)" if "distinct (map qt_id ts)" "e \<in> set es" for e
  proof -
    have "map qt_id (map fst es) = map qt_id (map (\<lambda>t. t\<lparr>qt_status := Connecting\<rparr>) (take k ts))"
      using d by (simp only:)
    then have "map (qt_id \<circ> fst) es = map qt_id (take k ts)" by (simp add: comp_def)
    then have "distinct (map (qt_id \<circ> fst) es)" using that(1) by (simp add: take_map [symmetric])
    then have "find (\<lambda>x. qt_id (fst x) = qt_id (fst e)) es = Some e" using that(2)
      by (induction es) (auto simp: image_iff)
    then show ?thesis using d by (simp add: find_session_def)
  qed
  have "acquire_permit q' = None \<longleftrightarrow> k = MAX_PARALLEL_TRANSFERS" using d assms(2) by (auto simp: acquire_permit_def)
  then have n: "queue_next later h' q' = None \<longleftrightarrow> k = MAX_PARALLEL_TRANSFERS"
    by (auto simp: queue_next_def split: option.splits prod.splits)
  have "distinct (map (ts_cell \<circ> snd) es)" using d by (metis distinct_upt)
  with d f n show ?thesis by (simp add: active_sessions_def)
qed

definition sample_transfer :: "uuid \<Rightarrow> QueuedTransfer" where
  "sample_transfer u = \<lparr>qt_id = u, qt_file_path = [47, 97], qt_file_name = [97], qt_total_bytes = 8,
     qt_peer_device_id = 9, qt_direction = Send, qt_status = Queued\<rparr>"

definition sample_heap :: heap where
  "sample_heap = \<lparr>cells = (\<lambda>_. \<lparr>bytes = 0, paused = False, cancelled = False\<rparr>), next_cell = 0\<rparr>"

definition sample_next :: "(QueuedTransfer \<times> TransferSession) list \<times> heap \<times> TransferQueue" where
  "sample_next = next_many 3 (\<lambda>_. 0) sample_heap (fold enqueue (map sample_transfer [1, 2, 3, 4]) queue_new)"

theorem queue_fifo_bounded_witness:
  "map qt_id (map fst (fst sample_next)) = [1, 2, 3]
   \<and> queue_next 0 (fst (snd sample_next)) (snd (snd sample_next)) = None"
proof -
  have k: "3 \<le> length (map sample_transfer [1, 2, 3, 4])" "3 \<le> MAX_PARALLEL_TRANSFERS"
    by (simp_all add: MAX_PARALLEL_TRANSFERS_def)
  have r: "next_many 3 (\<lambda>_. 0) sample_heap (fold enqueue (map sample_transfer [1, 2, 3, 4]) queue_new)
      = (fst sample_next, fst (snd sample_next), snd (snd sample_next))"
    by (simp only: sample_next_def prod.collapse)
  have m: "map qt_id (map (\<lambda>t. t\<lparr>qt_status := Connecting\<rparr>) (take 3 (map sample_transfer [1, 2, 3, 4]))) = [1, 2, 3]"
    by (simp add: sample_transfer_def)
  note t = queue_fifo_bounded [OF k r]
  from t m have "map qt_id (map fst (fst sample_next)) = [1, 2, 3]" by (simp only:)
  moreover from t have "queue_next 0 (fst (snd sample_next)) (snd (snd sample_next)) = None"
    by (simp add: MAX_PARALLEL_TRANSFERS_def)
  ultimately show ?thesis by (intro conjI)
qed

end
