(* ===== verification/Server.thy ===== *)
theory Server
  imports Safe_Join Pairing Checksum History Queue
begin

text \<open>
  \<^verbatim>\<open>filedrop-core/src/transfer/server.rs\<close>: the HTTP server that receives files. The handlers work on a
  \<open>world\<close>: the state injected into them, the heap of session cells and the disk. An upload is a state
  machine: \<open>receive_begin\<close> runs up to the first chunk, \<open>recv_step\<close> takes one stimulus (a chunk, an error
  or the end of the body, the end of a sleep, a control call of someone holding the session) at a time.
  What the operating system answers comes with each stimulus. The text of a header is an argument:
  \<open>hdr name\<close> is what \<^verbatim>\<open>headers.get(name)\<close> and \<^verbatim>\<open>to_str\<close> give.
\<close>

section \<open>State\<close>

record AppState =
  as_paths :: StoragePaths
  as_queue :: TransferQueue
  as_history :: HistoryStore
  as_pairing :: PairingStateMachine
  as_sessions :: "uuid \<rightharpoonup> TransferSession"

record world =
  app :: AppState
  mem :: heap
  fs :: disk

definition insert_session :: "TransferSession \<Rightarrow> AppState \<Rightarrow> AppState" where
  "insert_session s a = a\<lparr>as_sessions := (as_sessions a)(ts_id s \<mapsto> s)\<rparr>"

definition remove_session :: "uuid \<Rightarrow> world \<Rightarrow> world" where
  "remove_session u w = w\<lparr>app := (app w)\<lparr>as_sessions := (as_sessions (app w))(u := None)\<rparr>\<rparr>"

interpretation sessions: keyed_store "\<lambda>a. as_sessions a" insert_session ts_id
  by unfold_locales (simp_all add: insert_session_def)

type_synonym headers = "rstring \<Rightarrow> rstring option"

record TransferStatusResponse =
  tr_transfer_id :: uuid
  tr_bytes_received :: u64
  tr_total_bytes :: u64
  tr_status :: TransferStatus

datatype response = Text nat rstring | JsonStatus TransferStatusResponse

definition OK :: nat where "OK = 200"
definition PARTIAL_CONTENT :: nat where "PARTIAL_CONTENT = 206"
definition BAD_REQUEST :: nat where "BAD_REQUEST = 400"
definition NOT_FOUND :: nat where "NOT_FOUND = 404"
definition UNPROCESSABLE_ENTITY :: nat where "UNPROCESSABLE_ENTITY = 422"
definition CLIENT_CLOSED :: nat where "CLIENT_CLOSED = 499"
definition INTERNAL_SERVER_ERROR :: nat where "INTERNAL_SERVER_ERROR = 500"

lemmas status_codes = OK_def PARTIAL_CONTENT_def BAD_REQUEST_def NOT_FOUND_def UNPROCESSABLE_ENTITY_def
  CLIENT_CLOSED_def INTERNAL_SERVER_ERROR_def

fun status_of :: "response \<Rightarrow> nat" where
  "status_of (Text c _) = c"
| "status_of (JsonStatus _) = OK"

section \<open>The small handlers\<close>

definition health :: response where
  "health = Text OK (lit ''ok'')"

definition transfer_status :: "uuid \<Rightarrow> world \<Rightarrow> response" where
  "transfer_status transfer_id w =
     (case as_sessions (app w) transfer_id of
        Some session \<Rightarrow>
          JsonStatus \<lparr>tr_transfer_id = transfer_id, tr_bytes_received = bytes_transferred session (mem w),
            tr_total_bytes = ts_total_bytes session,
            tr_status = (if is_paused session (mem w) then Paused else InProgress)\<rparr>
      | None \<Rightarrow> Text NOT_FOUND (lit ''unknown transfer''))"

definition parse_resume_offset :: "headers \<Rightarrow> u64 option" where
  "parse_resume_offset hdr =
     Option.bind (hdr (lit ''Content-Range''))
       (\<lambda>raw. Option.bind (strip_prefix (lit ''bytes '') raw)
         (\<lambda>after_bytes. Option.bind (iter_next (str_split (\<lambda>c. c = 45) after_bytes)) parse_u64))"

section \<open>An upload\<close>

record 'h receiver =
  rv_id :: uuid
  rv_session :: TransferSession
  rv_file :: file_id
  rv_pos :: nat
  rv_hasher :: "'h Sha256Hasher"
  rv_written :: u64
  rv_resume :: u64
  rv_total :: u64
  rv_expected :: "rstring option"
  rv_staging :: rstring
  rv_final :: rstring

text \<open>\<open>Waiting\<close> is the loop that sleeps while paused, with the chunk in hand; \<open>Panicked\<close> is the handler
  dying in \<^verbatim>\<open>sanitize_filename\<close>.\<close>

datatype 'h handler =
    Receiving "'h receiver"
  | Waiting "'h receiver" "byte list"
  | Responded response
  | Panicked

text \<open>Errors of the system calls before the loop, and of those a step may make: a failed write leaves the
  first \<open>k\<close> bytes, a failed hash the first \<open>k\<close> buffers read.\<close>

record open_io =
  oi_mkdir :: "rstring option"
  oi_open :: "rstring option"
  oi_seek :: "rstring option"

record step_io =
  io_write :: "(nat \<times> rstring) option"
  io_remove :: bool
  io_flush :: "rstring option"
  io_hash :: "(nat \<times> rstring) option"
  io_rename :: "rstring option"

definition io_fine :: step_io where
  "io_fine = \<lparr>io_write = None, io_remove = True, io_flush = None, io_hash = None, io_rename = None\<rparr>"

definition open_fine :: open_io where
  "open_fine = \<lparr>oi_mkdir = None, oi_open = None, oi_seek = None\<rparr>"

definition part_name :: "(uuid \<Rightarrow> rstring) \<Rightarrow> uuid \<Rightarrow> rstring" where
  "part_name show_uuid u = show_uuid u @ lit ''.part''"

definition new_receiver ::
  "'h hash_api \<Rightarrow> uuid \<Rightarrow> TransferSession \<Rightarrow> file_id \<Rightarrow> u64 \<Rightarrow> u64 \<Rightarrow> rstring option \<Rightarrow> rstring \<Rightarrow> rstring \<Rightarrow> 'h receiver"
  where
  "new_receiver H u session f resume_offset total_size expected staging_path final_path =
     \<lparr>rv_id = u, rv_session = session, rv_file = f, rv_pos = unat resume_offset, rv_hasher = hasher_new H,
      rv_written = resume_offset, rv_resume = resume_offset, rv_total = total_size, rv_expected = expected,
      rv_staging = staging_path, rv_final = final_path\<rparr>"

text \<open>From the paths to the loop: make the directory, open, seek, register the session.\<close>

definition receive_open ::
  "'h hash_api \<Rightarrow> open_io \<Rightarrow> nat \<Rightarrow> uuid \<Rightarrow> rstring \<Rightarrow> u64 \<Rightarrow> u64 \<Rightarrow> rstring option \<Rightarrow> rstring \<Rightarrow> rstring \<Rightarrow> world \<Rightarrow>
   'h handler \<times> world" where
  "receive_open H io now transfer_id file_name total_size resume_offset expected staging_path final_path w =
     (case oi_mkdir io of
        Some e \<Rightarrow> (Responded (Text INTERNAL_SERVER_ERROR e), w)
      | None \<Rightarrow>
          (let d1 = create_dir_all (path_parent staging_path) (fs w) in
           case oi_open io of
             Some e \<Rightarrow> (Responded (Text INTERNAL_SERVER_ERROR e), w\<lparr>fs := d1\<rparr>)
           | None \<Rightarrow>
               (let (file, d2) = disk_open (resume_offset = 0) staging_path d1 in
                case (if resume_offset > 0 then oi_seek io else None) of
                  Some e \<Rightarrow> (Responded (Text INTERNAL_SERVER_ERROR e), w\<lparr>fs := d2\<rparr>)
                | None \<Rightarrow>
                    (let (session, h1) = session_new transfer_id file_name total_size Receive now (mem w);
                         h2 = with_initial_bytes resume_offset session h1
                     in (Receiving (new_receiver H transfer_id session file resume_offset total_size expected
                           staging_path final_path),
                         \<lparr>app = insert_session session (app w), mem = h2, fs = d2\<rparr>)))))"

definition receive_begin ::
  "'h hash_api \<Rightarrow> (uuid \<Rightarrow> rstring) \<Rightarrow> open_io \<Rightarrow> nat \<Rightarrow> uuid \<Rightarrow> headers \<Rightarrow> world \<Rightarrow> 'h handler \<times> world" where
  "receive_begin H show_uuid io now transfer_id hdr w =
     (case hdr (lit ''X-FileDrop-Filename'') of
        None \<Rightarrow> (Responded (Text BAD_REQUEST (lit ''missing X-FileDrop-Filename'')), w)
      | Some raw_filename \<Rightarrow>
     (case Option.bind (hdr (lit ''X-FileDrop-Total-Size'')) parse_u64 of
        None \<Rightarrow> (Responded (Text BAD_REQUEST (lit ''missing X-FileDrop-Total-Size'')), w)
      | Some total_size \<Rightarrow>
     (let expected_sha256 = hdr (lit ''X-FileDrop-Sha256'') in
      case sanitize_filename raw_filename of
        None \<Rightarrow> (Panicked, w)
      | Some file_name \<Rightarrow>
     (case safe_join (staging_dir (as_paths (app w))) (part_name show_uuid transfer_id) of
        Inl e \<Rightarrow> (Responded (Text BAD_REQUEST (display_error show_uuid e)), w)
      | Inr staging_path \<Rightarrow>
     (case safe_join (received_files_dir (as_paths (app w))) file_name of
        Inl e \<Rightarrow> (Responded (Text BAD_REQUEST (display_error show_uuid e)), w)
      | Inr final_path \<Rightarrow>
          receive_open H io now transfer_id file_name total_size (unwrap_or (parse_resume_offset hdr) 0)
            expected_sha256 staging_path final_path w)))))"

section \<open>The loop\<close>

datatype control = Pause | Resume | Cancel

fun apply_control :: "control \<Rightarrow> TransferSession \<Rightarrow> heap \<Rightarrow> heap" where
  "apply_control Pause s h = session_pause s h"
| "apply_control Resume s h = session_resume s h"
| "apply_control Cancel s h = session_cancel s h"

datatype stimulus =
    Data "byte list" step_io
  | BodyErr rstring
  | Slept step_io
  | EndOfBody step_io
  | Control control

text \<open>The rest of the loop body once the session is not paused.\<close>

definition write_chunk ::
  "'h hash_api \<Rightarrow> step_io \<Rightarrow> 'h receiver \<Rightarrow> byte list \<Rightarrow> world \<Rightarrow> 'h handler \<times> world" where
  "write_chunk H io r chunk w =
     (case io_write io of
        Some (k, e) \<Rightarrow>
          (Responded (Text INTERNAL_SERVER_ERROR e),
           remove_session (rv_id r) (w\<lparr>fs := disk_write (rv_file r) (rv_pos r) (take k chunk) (fs w)\<rparr>))
      | None \<Rightarrow>
          (Receiving (r\<lparr>rv_hasher := hasher_update H (rv_hasher r) chunk, rv_pos := rv_pos r + length chunk,
             rv_written := rv_written r + of_nat (length chunk)\<rparr>),
           w\<lparr>fs := disk_write (rv_file r) (rv_pos r) chunk (fs w),
             mem := add_bytes (of_nat (length chunk)) (rv_session r) (mem w)\<rparr>))"

definition remove_file :: "bool \<Rightarrow> rstring \<Rightarrow> world \<Rightarrow> world" where
  "remove_file ok p w = (if ok then w\<lparr>fs := disk_remove p (fs w)\<rparr> else w)"

text \<open>\<^verbatim>\<open>sha256_file\<close> on a file of the disk.\<close>

definition hash_of_file :: "'h hash_api \<Rightarrow> (nat \<times> rstring) option \<Rightarrow> rstring \<Rightarrow> disk \<Rightarrow> rstring result option" where
  "hash_of_file H err p d =
     (case disk_read p d of
        None \<Rightarrow> sha256_file H (Some ENOENT) []
      | Some c \<Rightarrow>
          sha256_file H None
            (case err of
               None \<Rightarrow> map Got (buffer_reads c) @ [Got []]
             | Some (k, e) \<Rightarrow> take k (map Got (buffer_reads c)) @ [ReadErr e]))"

definition rename_into_place :: "step_io \<Rightarrow> 'h receiver \<Rightarrow> world \<Rightarrow> response \<times> world" where
  "rename_into_place io r w =
     (case io_rename io of
        Some e \<Rightarrow> (Text INTERNAL_SERVER_ERROR e, w)
      | None \<Rightarrow>
          (case disk_rename (rv_staging r) (rv_final r) (fs w) of
             None \<Rightarrow> (Text INTERNAL_SERVER_ERROR ENOENT, w)
           | Some d \<Rightarrow> (Text OK (lit ''transfer complete''), remove_session (rv_id r) (w\<lparr>fs := d\<rparr>))))"

definition verify_and_rename ::
  "'h hash_api \<Rightarrow> (uuid \<Rightarrow> rstring) \<Rightarrow> step_io \<Rightarrow> 'h receiver \<Rightarrow> world \<Rightarrow> (response \<times> world) option" where
  "verify_and_rename H show_uuid io r w =
     (case rv_expected r of
        None \<Rightarrow> Some (rename_into_place io r w)
      | Some expected \<Rightarrow>
          map_option
            (\<lambda>actual.
               case actual of
                 Inl e \<Rightarrow> (Text INTERNAL_SERVER_ERROR (display_error show_uuid e), w)
               | Inr a \<Rightarrow>
                   if a \<noteq> expected then
                     (Text UNPROCESSABLE_ENTITY
                        (lit ''checksum mismatch: expected '' @ expected @ lit '', got '' @ a),
                      remove_file (io_remove io) (rv_staging r) (remove_session (rv_id r) w))
                   else rename_into_place io r w)
            (if rv_resume r = 0 then Some (Inr (finalize_hex H (rv_hasher r)))
             else hash_of_file H (io_hash io) (rv_staging r) (fs w)))"

text \<open>After the last chunk.\<close>

definition receive_end ::
  "'h hash_api \<Rightarrow> (uuid \<Rightarrow> rstring) \<Rightarrow> step_io \<Rightarrow> 'h receiver \<Rightarrow> world \<Rightarrow> (response \<times> world) option" where
  "receive_end H show_uuid io r w =
     (case io_flush io of
        Some e \<Rightarrow> Some (Text INTERNAL_SERVER_ERROR e, w)
      | None \<Rightarrow>
          if rv_written r \<noteq> rv_total r then
            Some (Text PARTIAL_CONTENT
                    (lit ''received '' @ u64_to_string (rv_written r) @ lit '' of '' @ u64_to_string (rv_total r)
                      @ lit '' bytes; resumable''),
                  remove_session (rv_id r) w)
          else verify_and_rename H show_uuid io r w)"

text \<open>One step; \<open>None\<close> when the stimulus cannot occur in this phase.\<close>

fun recv_step ::
  "'h hash_api \<Rightarrow> (uuid \<Rightarrow> rstring) \<Rightarrow> stimulus \<Rightarrow> 'h handler \<times> world \<Rightarrow> ('h handler \<times> world) option" where
  "recv_step H show_uuid (Data chunk io) (Receiving r, w) =
     Some (if is_cancelled (rv_session r) (mem w) then
             (Responded (Text CLIENT_CLOSED (lit ''transfer cancelled'')),
              remove_file (io_remove io) (rv_staging r) (remove_session (rv_id r) w))
           else if is_paused (rv_session r) (mem w) then (Waiting r chunk, w)
           else write_chunk H io r chunk w)"
| "recv_step H show_uuid (BodyErr e) (Receiving r, w) =
     Some (Responded (Text BAD_REQUEST (lit ''stream error: '' @ e)), remove_session (rv_id r) w)"
| "recv_step H show_uuid (EndOfBody io) (Receiving r, w) =
     map_option (\<lambda>(resp, w'). (Responded resp, w')) (receive_end H show_uuid io r w)"
| "recv_step H show_uuid (Slept io) (Waiting r chunk, w) =
     Some (if is_paused (rv_session r) (mem w) then (Waiting r chunk, w) else write_chunk H io r chunk w)"
| "recv_step H show_uuid (Control c) (Receiving r, w) =
     Some (Receiving r, w\<lparr>mem := apply_control c (rv_session r) (mem w)\<rparr>)"
| "recv_step H show_uuid (Control c) (Waiting r chunk, w) =
     Some (Waiting r chunk, w\<lparr>mem := apply_control c (rv_session r) (mem w)\<rparr>)"
| "recv_step H show_uuid _ _ = None"

fun recv_run ::
  "'h hash_api \<Rightarrow> (uuid \<Rightarrow> rstring) \<Rightarrow> stimulus list \<Rightarrow> 'h handler \<times> world \<Rightarrow> ('h handler \<times> world) option" where
  "recv_run H show_uuid [] s = Some s"
| "recv_run H show_uuid (x # xs) s = Option.bind (recv_step H show_uuid x s) (recv_run H show_uuid xs)"

definition receive_transfer ::
  "'h hash_api \<Rightarrow> (uuid \<Rightarrow> rstring) \<Rightarrow> open_io \<Rightarrow> nat \<Rightarrow> uuid \<Rightarrow> headers \<Rightarrow> stimulus list \<Rightarrow> world \<Rightarrow>
   ('h handler \<times> world) option" where
  "receive_transfer H show_uuid io now transfer_id hdr xs w =
     recv_run H show_uuid xs (receive_begin H show_uuid io now transfer_id hdr w)"

section \<open>Routes\<close>

datatype http_method = GET | POST

datatype route = Health | Receive_Transfer uuid | Transfer_Status uuid

text \<open>The routing table over the segments of the request path; \<open>parse_uuid\<close> is the extractor's parser.\<close>

definition build_router :: "(rstring \<Rightarrow> uuid option) \<Rightarrow> http_method \<Rightarrow> rstring list \<Rightarrow> route option" where
  "build_router parse_uuid m segments =
     (if segments = [lit ''health''] \<and> m = GET then Some Health
      else if take 3 segments = [lit ''api'', lit ''v1'', lit ''transfer''] then
        (case drop 3 segments of
           [t] \<Rightarrow> if m = POST then map_option Receive_Transfer (parse_uuid t) else None
         | [t, s] \<Rightarrow> if m = GET \<and> s = lit ''status'' then map_option Transfer_Status (parse_uuid t) else None
         | _ \<Rightarrow> None)
      else None)"

end
