(* ===== verification/Upload.thy ===== *)
theory Upload
  imports Server "HOL-Library.Sublist"
begin

text \<open>
  What an upload does, proved of the handler of \<open>Server\<close>: a specification of its answers (\<open>answered\<close>), the
  invariant of its loop (\<open>receiving\<close>), the simulation of the handler by them, and the properties of
  whole uploads.
\<close>

section \<open>The disk an upload works on\<close>

lemma disk_write_Nil [disk_simps]: "disk_write f off [] d = d"
  by (simp add: disk_write_def patch_def)

lemma disk_write_comp [disk_simps]:
  "disk_write f (off + length a) b (disk_write f off a d) = disk_write f off (a @ b) d"
  by (simp add: disk_write_def patch_comp)

definition stored :: "'h receiver \<Rightarrow> world \<Rightarrow> byte list \<Rightarrow> disk" where
  "stored r w data = disk_write (rv_file r) (unat (rv_resume r)) data (fs w)"

definition stored_content :: "'h receiver \<Rightarrow> world \<Rightarrow> byte list \<Rightarrow> byte list" where
  "stored_content r w data = patch (unat (rv_resume r)) data (contents (fs w) (rv_file r))"

text \<open>The state in which the loop is entered.\<close>

definition upload_start :: "'h hash_api \<Rightarrow> 'h receiver \<Rightarrow> world \<Rightarrow> bool" where
  "upload_start H r w \<longleftrightarrow>
     disk_ok (fs w) \<and> names (fs w) (components (rv_staging r)) = Some (rv_file r)
     \<and> components (rv_staging r) \<noteq> components (rv_final r)
     \<and> rv_hasher r = hasher_new H \<and> rv_pos r = unat (rv_resume r) \<and> rv_written r = rv_resume r
     \<and> (rv_resume r = 0 \<longrightarrow> contents (fs w) (rv_file r) = [])
     \<and> as_sessions (app w) (rv_id r) = Some (rv_session r)
     \<and> bytes_transferred (rv_session r) (mem w) = rv_resume r"

section \<open>The specification\<close>

definition whole :: "'h receiver \<Rightarrow> byte list \<Rightarrow> bool" where
  "whole r data \<longleftrightarrow> rv_resume r + of_nat (length data) = rv_total r"

definition verified :: "(byte list \<Rightarrow> byte list) \<Rightarrow> 'h receiver \<Rightarrow> world \<Rightarrow> byte list \<Rightarrow> bool" where
  "verified sha r w data \<longleftrightarrow>
     (case rv_expected r of None \<Rightarrow> True | Some e \<Rightarrow> e = hex_encode (sha (stored_content r w data)))"

definition forgotten :: "'h receiver \<Rightarrow> world \<Rightarrow> AppState" where
  "forgotten r w = app (remove_session (rv_id r) w)"

text \<open>The answers to an upload of \<open>data\<close> that entered the loop with \<open>r\<close> in \<open>w\<close>, and the world they leave.\<close>

inductive answered ::
  "(byte list \<Rightarrow> byte list) \<Rightarrow> 'h receiver \<Rightarrow> world \<Rightarrow> byte list \<Rightarrow> response \<Rightarrow> world \<Rightarrow> bool"
  for sha r w where
  accepted: "whole r data \<Longrightarrow> verified sha r w data \<Longrightarrow>
      disk_rename (rv_staging r) (rv_final r) (stored r w data) = Some (fs w') \<Longrightarrow> app w' = forgotten r w \<Longrightarrow>
      answered sha r w data (Text OK m) w'"
| partial: "\<not> whole r data \<Longrightarrow> fs w' = stored r w data \<Longrightarrow> app w' = forgotten r w \<Longrightarrow>
      answered sha r w data (Text PARTIAL_CONTENT m) w'"
| mismatch: "whole r data \<Longrightarrow> \<not> verified sha r w data \<Longrightarrow>
      fs w' = stored r w data \<or> fs w' = disk_remove (rv_staging r) (stored r w data) \<Longrightarrow> app w' = forgotten r w \<Longrightarrow>
      answered sha r w data (Text UNPROCESSABLE_ENTITY m) w'"
| cancelled: "prefix p data \<Longrightarrow>
      fs w' = stored r w p \<or> fs w' = disk_remove (rv_staging r) (stored r w p) \<Longrightarrow> app w' = forgotten r w \<Longrightarrow>
      answered sha r w data (Text CLIENT_CLOSED m) w'"
| body_error: "fs w' = stored r w data \<Longrightarrow> app w' = forgotten r w \<Longrightarrow>
      answered sha r w data (Text BAD_REQUEST m) w'"
| write_error: "prefix p data \<Longrightarrow> fs w' = stored r w p \<Longrightarrow> app w' = forgotten r w \<Longrightarrow>
      answered sha r w data (Text INTERNAL_SERVER_ERROR m) w'"
| late_error: "fs w' = stored r w data \<Longrightarrow> app w' = app w \<Longrightarrow>
      answered sha r w data (Text INTERNAL_SERVER_ERROR m) w'"

inductive_cases answered_elim: "answered sha r w data (Text c m) w'"

definition receiving :: "'h hash_api \<Rightarrow> 'h receiver \<Rightarrow> world \<Rightarrow> byte list \<Rightarrow> 'h receiver \<Rightarrow> world \<Rightarrow> bool" where
  "receiving H r0 w0 data r w \<longleftrightarrow>
     (\<exists>cs. concat cs = data \<and>
        r = r0\<lparr>rv_hasher := foldl (hasher_update H) (hasher_new H) cs,
               rv_pos := unat (rv_resume r0) + length data, rv_written := rv_resume r0 + of_nat (length data)\<rparr>)
     \<and> app w = app w0 \<and> fs w = stored r0 w0 data
     \<and> bytes_transferred (rv_session r0) (mem w) = rv_resume r0 + of_nat (length data)"

fun handler_state ::
  "'h hash_api \<Rightarrow> (byte list \<Rightarrow> byte list) \<Rightarrow> 'h receiver \<Rightarrow> world \<Rightarrow> byte list \<Rightarrow> 'h handler \<times> world \<Rightarrow> bool" where
  "handler_state H sha r0 w0 data (Receiving r, w) = receiving H r0 w0 data r w"
| "handler_state H sha r0 w0 data (Waiting r chunk, w) = (\<exists>d. data = d @ chunk \<and> receiving H r0 w0 d r w)"
| "handler_state H sha r0 w0 data (Responded resp, w) = answered sha r0 w0 data resp w"
| "handler_state H sha r0 w0 data (Panicked, w) = False"

fun data_of :: "stimulus \<Rightarrow> byte list" where
  "data_of (Data chunk io) = chunk"
| "data_of _ = []"

definition body_of :: "stimulus list \<Rightarrow> byte list" where
  "body_of xs = concat (map data_of xs)"

lemma body_of_simps [simp]: "body_of [] = []" "body_of (x # xs) = data_of x @ body_of xs"
  "body_of (xs @ ys) = body_of xs @ body_of ys"
  by (simp_all add: body_of_def)

section \<open>The handler keeps to it\<close>

lemma receiving_start: "upload_start H r w \<Longrightarrow> receiving H r w [] r w"
  unfolding receiving_def upload_start_def stored_def
  by (intro conjI exI [of _ "[]"]) (simp_all add: disk_simps)

lemma receiving_control:
  "receiving H r0 w0 data r w \<Longrightarrow> receiving H r0 w0 data r (w\<lparr>mem := apply_control c (rv_session r) (mem w)\<rparr>)"
  by (cases c) (auto simp: receiving_def bytes_transferred_def session_ops cell_simps)

lemma receiving_write:
  assumes "receiving H r0 w0 data r w" and "io_write io = None"
  shows "\<exists>r' w'. write_chunk H io r chunk w = (Receiving r', w') \<and> receiving H r0 w0 (data @ chunk) r' w'"
proof -
  from assms(1) obtain cs where cs: "concat cs = data"
    "r = r0\<lparr>rv_hasher := foldl (hasher_update H) (hasher_new H) cs,
       rv_pos := unat (rv_resume r0) + length data, rv_written := rv_resume r0 + of_nat (length data)\<rparr>"
    and w: "app w = app w0" "fs w = stored r0 w0 data"
    "bytes_transferred (rv_session r0) (mem w) = rv_resume r0 + of_nat (length data)"
    by (auto simp: receiving_def)
  show ?thesis using assms(2) w cs
    by (auto simp: write_chunk_def receiving_def stored_def disk_simps bytes_transferred_def add_bytes_def cell_simps
        add.assoc intro!: exI [of _ "cs @ [chunk]"])
qed

lemma write_failed:
  assumes "receiving H r0 w0 data r w" and "io_write io = Some (k, e)"
  shows "\<exists>m w'. write_chunk H io r chunk w = (Responded (Text INTERNAL_SERVER_ERROR m), w')
    \<and> answered sha r0 w0 (data @ chunk) (Text INTERNAL_SERVER_ERROR m) w'"
proof -
  have "prefix (data @ take k chunk) (data @ chunk)" by (metis append_take_drop_id same_prefix_prefix prefixI)
  then have "answered sha r0 w0 (data @ chunk) (Text INTERNAL_SERVER_ERROR e)
      (remove_session (rv_id r) (w\<lparr>fs := disk_write (rv_file r) (rv_pos r) (take k chunk) (fs w)\<rparr>))"
    using assms(1)
    by (intro answered.write_error [where p = "data @ take k chunk"])
      (auto simp: receiving_def stored_def disk_simps forgotten_def remove_session_def)
  then show ?thesis using assms(2) by (auto simp: write_chunk_def)
qed

lemma write_state:
  assumes "receiving H r0 w0 data r w"
  shows "handler_state H sha r0 w0 (data @ chunk) (write_chunk H io r chunk w)"
proof (cases "io_write io")
  case None
  then obtain r' w' where "write_chunk H io r chunk w = (Receiving r', w')" "receiving H r0 w0 (data @ chunk) r' w'"
    using receiving_write [OF assms] by blast
  then show ?thesis by simp
next
  case (Some p)
  then obtain k e where "io_write io = Some (k, e)" by (cases p) simp
  then obtain m w' where "write_chunk H io r chunk w = (Responded (Text INTERNAL_SERVER_ERROR m), w')"
    "answered sha r0 w0 (data @ chunk) (Text INTERNAL_SERVER_ERROR m) w'"
    using write_failed [OF assms, where sha = sha and chunk = chunk] by blast
  then show ?thesis by simp
qed

lemma hash_of_file_same:
  assumes "digest_law H sha" and "disk_read p d = Some c" and "hash_of_file H err p d = Some (Inr a)"
  shows "a = hex_encode (sha c)"
proof (cases err)
  case None
  with assms sha256_file_healthy [OF assms(1) reads_of_buffer] show ?thesis by (simp add: hash_of_file_def)
next
  case (Some q)
  obtain k e where q: "q = (k, e)" by (cases q)
  have "hash_loop H h (take k (map Got cs) @ [ReadErr e]) = Some (Inl (Io e))" if "\<forall>c \<in> set cs. c \<noteq> []" for h cs
    using that by (induction cs arbitrary: h k) (simp_all add: take_Cons split: nat.splits)
  with assms Some q buffer_reads_sizes show ?thesis by (simp add: hash_of_file_def sha256_file_def)
qed

text \<open>The three ways the verification ends.\<close>

lemma verify_cases:
  assumes "verify_and_rename H su io r w = Some (a, w')"
  obtains m where "a = Text INTERNAL_SERVER_ERROR m" "w' = w"
  | m where "a = Text UNPROCESSABLE_ENTITY m" "w' = remove_file (io_remove io) (rv_staging r) (remove_session (rv_id r) w)"
  | "rename_into_place io r w = (a, w')"
    "\<forall>e. rv_expected r = Some e \<longrightarrow>
      (if rv_resume r = 0 then Some (Inr (finalize_hex H (rv_hasher r)))
       else hash_of_file H (io_hash io) (rv_staging r) (fs w)) = Some (Inr e)"
proof (cases "rv_expected r")
  case None
  with assms that(3) show ?thesis by (simp add: verify_and_rename_def)
next
  case (Some expected)
  let ?x = "if rv_resume r = 0 then Some (Inr (finalize_hex H (rv_hasher r)))
      else hash_of_file H (io_hash io) (rv_staging r) (fs w)"
  from assms Some obtain actual where x: "?x = Some actual" and a: "(case actual of
      Inl e \<Rightarrow> (Text INTERNAL_SERVER_ERROR (display_error su e), w)
    | Inr a \<Rightarrow> if a \<noteq> expected then
          (Text UNPROCESSABLE_ENTITY (lit ''checksum mismatch: expected '' @ expected @ lit '', got '' @ a),
           remove_file (io_remove io) (rv_staging r) (remove_session (rv_id r) w))
        else rename_into_place io r w) = (a, w')"
    unfolding verify_and_rename_def by (auto simp only: map_option_eq_Some option.case)
  show ?thesis
  proof (cases actual)
    case (Inl e)
    with a have "a = Text INTERNAL_SERVER_ERROR (display_error su e)" "w' = w" by auto
    then show ?thesis by (rule that(1))
  next
    case (Inr b)
    show ?thesis
    proof (cases "b = expected")
      case True
      with a x Inr Some have "rename_into_place io r w = (a, w')"
        and "\<forall>e. rv_expected r = Some e \<longrightarrow> ?x = Some (Inr e)" by auto
      then show ?thesis by (rule that(3))
    next
      case False
      with a Inr have "a = Text UNPROCESSABLE_ENTITY (lit ''checksum mismatch: expected '' @ expected @ lit '', got '' @ b)"
        and "w' = remove_file (io_remove io) (rv_staging r) (remove_session (rv_id r) w)" by auto
      then show ?thesis by (rule that(2))
    qed
  qed
qed

text \<open>The fields the loop does not change.\<close>

lemma receiving_fields:
  assumes "receiving H r0 w0 data r w"
  shows "rv_id r = rv_id r0" "rv_session r = rv_session r0" "rv_file r = rv_file r0" "rv_resume r = rv_resume r0"
    "rv_total r = rv_total r0" "rv_expected r = rv_expected r0" "rv_staging r = rv_staging r0" "rv_final r = rv_final r0"
    "rv_written r = rv_resume r0 + of_nat (length data)" "app w = app w0" "fs w = stored r0 w0 data"
  using assms by (auto simp: receiving_def)

lemma stored_read:
  assumes "upload_start H r0 w0"
  shows "disk_ok (stored r0 w0 data)" "names (stored r0 w0 data) = names (fs w0)"
    "disk_read (rv_staging r0) (stored r0 w0 data) = Some (stored_content r0 w0 data)"
    "components q \<noteq> components (rv_staging r0) \<Longrightarrow> disk_read q (stored r0 w0 data) = disk_read q (fs w0)"
  using assms disk_write_read [of "fs w0" "rv_staging r0" "rv_file r0"]
  by (simp_all add: upload_start_def stored_def stored_content_def disk_ok_write disk_simps)

text \<open>The hash of a file, whatever its reads do.\<close>

lemma hash_of_file_result:
  "hash_of_file H err p d =
     (case names d (components p) of
        None \<Rightarrow> Some (Inl (Io ENOENT))
      | Some f \<Rightarrow>
          (case err of
             None \<Rightarrow> Some (Inr (hex_encode (h_finalize H (foldl (h_update H) (h_new H) (buffer_reads (contents d f))))))
           | Some (k, e) \<Rightarrow> Some (Inl (Io e))))"
proof -
  have n: "\<forall>c \<in> set (buffer_reads x). c \<noteq> []" for x using buffer_reads_sizes by blast
  then have k: "\<forall>c \<in> set (take k (buffer_reads x)). c \<noteq> []" for k x by (meson in_set_takeD)
  show ?thesis
    by (simp add: hash_of_file_def disk_read_def sha256_file_def take_map map_ok_def hash_loop_fails [OF k]
        hash_loop_pieces [OF n] split: option.splits)
qed

text \<open>Hashing the stream or hashing the file decide the same.\<close>

lemma verification_sound:
  assumes "upload_start H r0 w0" and "digest_law H sha" and "receiving H r0 w0 data r w"
    and "(if rv_resume r = 0 then Some (Inr (finalize_hex H (rv_hasher r)))
      else hash_of_file H err (rv_staging r) (fs w)) = Some (Inr a)"
  shows "a = hex_encode (sha (stored_content r0 w0 data))"
proof (cases "rv_resume r0 = 0")
  case True
  then have c: "contents (fs w0) (rv_file r0) = []" using assms(1) by (simp add: upload_start_def)
  have "finalize_hex H (rv_hasher r) = hex_encode (sha data)"
    using assms(2,3) by (auto simp: receiving_def hasher_digest)
  with True assms(3,4) receiving_fields(4) [OF assms(3)] c show ?thesis by (auto simp: stored_content_def patch_def)
next
  case False
  then show ?thesis using hash_of_file_same [OF assms(2) stored_read(3) [OF assms(1)]] assms(4)
    by (simp add: receiving_fields [OF assms(3)])
qed

lemma rename_answered:
  assumes "receiving H r0 w0 data r w" and "whole r0 data" and "verified sha r0 w0 data"
    and "rename_into_place io r w = (resp, w')"
  shows "answered sha r0 w0 data resp w'"
  using assms(2-4) receiving_fields [OF assms(1)]
  by (auto simp: rename_into_place_def forgotten_def remove_session_def split: option.splits
      intro!: answered.late_error answered.accepted)

lemma end_answered:
  assumes "upload_start H r0 w0" and "digest_law H sha" and "receiving H r0 w0 data r w"
    and "receive_end H show_uuid io r w = Some (resp, w')"
  shows "answered sha r0 w0 data resp w'"
proof -
  note f = receiving_fields [OF assms(3)]
  consider (flush) e where "resp = Text INTERNAL_SERVER_ERROR e" "w' = w"
    | (partial) m where "\<not> whole r0 data" "resp = Text PARTIAL_CONTENT m" "w' = remove_session (rv_id r) w"
    | (total) "whole r0 data" "verify_and_rename H show_uuid io r w = Some (resp, w')"
    using assms(4) f by (auto simp: receive_end_def whole_def split: option.splits if_splits)
  then show ?thesis
  proof cases
    case flush
    with f show ?thesis by (auto intro: answered.late_error)
  next
    case partial
    with f show ?thesis by (auto simp: forgotten_def remove_session_def intro!: answered.partial)
  next
    case total
    show ?thesis
    proof (cases "rv_expected r0")
      case None
      with total f rename_answered [OF assms(3)] show ?thesis by (simp add: verify_and_rename_def verified_def)
    next
      case (Some expected)
      then obtain x where x: "(if rv_resume r = 0 then Some (Inr (finalize_hex H (rv_hasher r)))
          else hash_of_file H (io_hash io) (rv_staging r) (fs w)) = Some x"
        using total(2) f by (auto simp: verify_and_rename_def)
      show ?thesis
      proof (cases x)
        case (Inl e)
        with x Some total(2) f show ?thesis by (auto simp: verify_and_rename_def intro!: answered.late_error)
      next
        case (Inr a)
        then have a: "a = hex_encode (sha (stored_content r0 w0 data))"
          using verification_sound [OF assms(1,2,3)] x by simp
        show ?thesis
        proof (cases "a = expected")
          case True
          with a Some x Inr total f rename_answered [OF assms(3)] show ?thesis
            by (auto simp: verify_and_rename_def verified_def)
        next
          case False
          with a Some x Inr total f show ?thesis
            by (auto simp: verify_and_rename_def verified_def remove_file_def forgotten_def remove_session_def
                intro!: answered.mismatch)
        qed
      qed
    qed
  qed
qed

lemma recv_step_state:
  assumes "upload_start H r0 w0" and "digest_law H sha" and "handler_state H sha r0 w0 data s"
    and "recv_step H show_uuid x s = Some s'"
  shows "handler_state H sha r0 w0 (data @ data_of x) s'"
proof -
  obtain hs w where s: "s = (hs, w)" by (cases s)
  show ?thesis
  proof (cases hs)
    case (Receiving r)
    then have r: "receiving H r0 w0 data r w" using assms(3) s by simp
    note f = receiving_fields [OF r]
    show ?thesis
    proof (cases x)
      case (Data chunk io)
      show ?thesis
      proof (cases "is_cancelled (rv_session r) (mem w)")
        case True
        then have "s' = (Responded (Text CLIENT_CLOSED (lit ''transfer cancelled'')),
            remove_file (io_remove io) (rv_staging r) (remove_session (rv_id r) w))"
          using assms(4) s Receiving Data by simp
        then show ?thesis using f Data
          by (auto simp: remove_file_def forgotten_def remove_session_def intro!: answered.cancelled [where p = data])
      next
        case False
        show ?thesis
        proof (cases "is_paused (rv_session r) (mem w)")
          case True
          with False have "s' = (Waiting r chunk, w)" using assms(4) s Receiving Data by simp
          with r Data show ?thesis by auto
        next
          case paused: False
          with False have "s' = write_chunk H io r chunk w" using assms(4) s Receiving Data by simp
          with write_state [OF r] Data show ?thesis by simp
        qed
      qed
    next
      case (BodyErr e)
      with assms(4) s Receiving f show ?thesis
        by (auto simp: forgotten_def remove_session_def intro!: answered.body_error)
    next
      case (Slept io)
      with assms(4) s Receiving show ?thesis by simp
    next
      case (EndOfBody io)
      with assms(4) s Receiving end_answered [OF assms(1,2) r] show ?thesis by auto
    next
      case (Control c)
      with assms(4) s Receiving receiving_control [OF r] show ?thesis by auto
    qed
  next
    case (Waiting r chunk)
    then obtain d where d: "data = d @ chunk" "receiving H r0 w0 d r w" using assms(3) s by auto
    show ?thesis
    proof (cases x)
      case (Slept io)
      then have "s' = (if is_paused (rv_session r) (mem w) then (Waiting r chunk, w) else write_chunk H io r chunk w)"
        using assms(4) s Waiting by simp
      with write_state [OF d(2)] Slept d show ?thesis by auto
    next
      case (Control c)
      with assms(4) s Waiting receiving_control [OF d(2)] d(1) show ?thesis by auto
    qed (use assms(4) s Waiting in simp_all)
  next
    case (Responded resp)
    with assms(4) s show ?thesis by (cases x) simp_all
  next
    case Panicked
    with assms(4) s show ?thesis by (cases x) simp_all
  qed
qed

lemma recv_run_state:
  assumes "upload_start H r0 w0" and "digest_law H sha" and "handler_state H sha r0 w0 data s"
    and "recv_run H show_uuid xs s = Some s'"
  shows "handler_state H sha r0 w0 (data @ body_of xs) s'"
  using assms(3,4)
proof (induction xs arbitrary: data s)
  case Nil
  then show ?case by simp
next
  case (Cons x xs)
  from Cons.prems(2) obtain t where t: "recv_step H show_uuid x s = Some t" "recv_run H show_uuid xs t = Some s'"
    by (cases "recv_step H show_uuid x s") auto
  from Cons.IH [OF recv_step_state [OF assms(1,2) Cons.prems(1) t(1)] t(2)] show ?case by simp
qed

section \<open>Without faults\<close>

text \<open>The answer to an upload none of whose calls fails and that nobody cancels.\<close>

definition plain_answer ::
  "(byte list \<Rightarrow> byte list) \<Rightarrow> 'h receiver \<Rightarrow> world \<Rightarrow> byte list \<Rightarrow> response \<times> disk" where
  "plain_answer sha r w data =
     (if \<not> whole r data then
        (Text PARTIAL_CONTENT
           (lit ''received '' @ u64_to_string (rv_resume r + of_nat (length data)) @ lit '' of '' @
            u64_to_string (rv_total r) @ lit '' bytes; resumable''), stored r w data)
      else if verified sha r w data then
        (Text OK (lit ''transfer complete''), the (disk_rename (rv_staging r) (rv_final r) (stored r w data)))
      else
        (Text UNPROCESSABLE_ENTITY
           (lit ''checksum mismatch: expected '' @ the (rv_expected r) @ lit '', got '' @
            hex_encode (sha (stored_content r w data))),
         disk_remove (rv_staging r) (stored r w data)))"

fun calm :: "stimulus \<Rightarrow> bool" where
  "calm (Data chunk io) \<longleftrightarrow> io = io_fine"
| "calm (Slept io) \<longleftrightarrow> io = io_fine"
| "calm (EndOfBody io) \<longleftrightarrow> io = io_fine"
| "calm (BodyErr e) \<longleftrightarrow> False"
| "calm (Control c) \<longleftrightarrow> c \<noteq> Cancel"

fun calm_state ::
  "'h hash_api \<Rightarrow> (byte list \<Rightarrow> byte list) \<Rightarrow> 'h receiver \<Rightarrow> world \<Rightarrow> byte list \<Rightarrow> 'h handler \<times> world \<Rightarrow> bool" where
  "calm_state H sha r0 w0 data (Receiving r, w) =
     (receiving H r0 w0 data r w \<and> \<not> is_cancelled (rv_session r0) (mem w))"
| "calm_state H sha r0 w0 data (Waiting r chunk, w) =
     (\<exists>d. data = d @ chunk \<and> receiving H r0 w0 d r w \<and> \<not> is_cancelled (rv_session r0) (mem w))"
| "calm_state H sha r0 w0 data (Responded resp, w) =
     ((resp, fs w) = plain_answer sha r0 w0 data \<and> app w = forgotten r0 w0)"
| "calm_state H sha r0 w0 data (Panicked, w) = False"

lemma io_fine_simps [simp]:
  "io_write io_fine = None" "io_remove io_fine" "io_flush io_fine = None" "io_hash io_fine = None"
  "io_rename io_fine = None"
  by (simp_all add: io_fine_def)

lemma calm_write:
  assumes "receiving H r0 w0 data r w" and "\<not> is_cancelled (rv_session r0) (mem w)"
  shows "calm_state H sha r0 w0 (data @ chunk) (write_chunk H io_fine r chunk w)"
proof -
  obtain r' w' where x: "write_chunk H io_fine r chunk w = (Receiving r', w')" "receiving H r0 w0 (data @ chunk) r' w'"
    using receiving_write [OF assms(1)] io_fine_simps(1) by blast
  have "mem w' = add_bytes (of_nat (length chunk)) (rv_session r0) (mem w)"
    using x(1) receiving_fields(2) [OF assms(1)] by (auto simp: write_chunk_def)
  then have "\<not> is_cancelled (rv_session r0) (mem w')" using assms(2) by (simp add: is_cancelled_def session_ops cell_simps)
  with x show ?thesis by simp
qed

lemma calm_hash:
  assumes "upload_start H r0 w0" and "digest_law H sha" and "receiving H r0 w0 data r w"
  shows "(if rv_resume r = 0 then Some (Inr (finalize_hex H (rv_hasher r)))
      else hash_of_file H None (rv_staging r) (fs w)) = Some (Inr (hex_encode (sha (stored_content r0 w0 data))))"
proof -
  have "hash_of_file H None (rv_staging r) (fs w) = Some (Inr (hex_encode (sha (stored_content r0 w0 data))))"
    using stored_read(3) [OF assms(1)] receiving_fields [OF assms(3)] sha256_file_healthy [OF assms(2) reads_of_buffer]
    by (simp add: hash_of_file_def)
  moreover have "finalize_hex H (rv_hasher r) = hex_encode (sha (stored_content r0 w0 data))" if "rv_resume r = 0"
    using verification_sound [OF assms] that by simp
  ultimately show ?thesis by simp
qed

lemma calm_end:
  assumes "upload_start H r0 w0" and "digest_law H sha" and "receiving H r0 w0 data r w"
  shows "\<exists>resp w'. receive_end H show_uuid io_fine r w = Some (resp, w') \<and> (resp, fs w') = plain_answer sha r0 w0 data
    \<and> app w' = forgotten r0 w0"
proof -
  note f = receiving_fields [OF assms(3)]
  obtain d where d: "disk_rename (rv_staging r0) (rv_final r0) (stored r0 w0 data) = Some d"
    using disk_rename_Some stored_read(2) [OF assms(1)] assms(1) unfolding upload_start_def by metis
  note h = calm_hash [OF assms]
  show ?thesis
  proof (cases "whole r0 data")
    case False
    then show ?thesis using f
      by (auto simp: receive_end_def plain_answer_def whole_def forgotten_def remove_session_def)
  next
    case True
    then have e: "receive_end H show_uuid io_fine r w = verify_and_rename H show_uuid io_fine r w"
      using f by (simp add: receive_end_def whole_def)
    show ?thesis
    proof (cases "rv_expected r0")
      case None
      with e True d f show ?thesis
        by (auto simp: verify_and_rename_def plain_answer_def verified_def rename_into_place_def forgotten_def remove_session_def)
    next
      case (Some x)
      with e True d f h show ?thesis
        by (auto simp: verify_and_rename_def plain_answer_def verified_def rename_into_place_def forgotten_def
            remove_session_def remove_file_def)
    qed
  qed
qed

lemma calm_control:
  "c \<noteq> Cancel \<Longrightarrow> is_cancelled s (apply_control c s h) = is_cancelled s h"
  by (cases c) (simp_all add: is_cancelled_def session_ops cell_simps)

lemma calm_step:
  assumes "upload_start H r0 w0" and "digest_law H sha" and "calm_state H sha r0 w0 data s" and "calm x"
    and "recv_step H show_uuid x s = Some s'"
  shows "calm_state H sha r0 w0 (data @ data_of x) s'"
proof -
  obtain hs w where s: "s = (hs, w)" by (cases s)
  show ?thesis
  proof (cases hs)
    case (Receiving r)
    then have r: "receiving H r0 w0 data r w" "\<not> is_cancelled (rv_session r0) (mem w)" using assms(3) s by simp_all
    note f = receiving_fields [OF r(1)]
    show ?thesis
    proof (cases x)
      case (Data chunk io)
      then have "s' = (if is_paused (rv_session r) (mem w) then (Waiting r chunk, w) else write_chunk H io_fine r chunk w)"
        using assms(4,5) s Receiving r(2) f by simp
      with calm_write [OF r] r Data show ?thesis by auto
    next
      case (EndOfBody io)
      with assms(4,5) s Receiving calm_end [OF assms(1,2) r(1), of show_uuid] show ?thesis by auto
    next
      case (Control c)
      then have "s' = (Receiving r, w\<lparr>mem := apply_control c (rv_session r) (mem w)\<rparr>)" and "c \<noteq> Cancel"
        using assms(4,5) s Receiving by simp_all
      with receiving_control [OF r(1), of c] calm_control r(2) f Control show ?thesis by simp
    qed (use assms(4,5) s Receiving in simp_all)
  next
    case (Waiting r chunk)
    then obtain d where d: "data = d @ chunk" "receiving H r0 w0 d r w" "\<not> is_cancelled (rv_session r0) (mem w)"
      using assms(3) s by auto
    show ?thesis
    proof (cases x)
      case (Slept io)
      then have "s' = (if is_paused (rv_session r) (mem w) then (Waiting r chunk, w) else write_chunk H io_fine r chunk w)"
        using assms(4,5) s Waiting by simp
      with calm_write [OF d(2,3)] Slept d show ?thesis by auto
    next
      case (Control c)
      then have "s' = (Waiting r chunk, w\<lparr>mem := apply_control c (rv_session r) (mem w)\<rparr>)" and "c \<noteq> Cancel"
        using assms(4,5) s Waiting by simp_all
      with receiving_control [OF d(2), of c] calm_control d receiving_fields(2) [OF d(2)] Control show ?thesis by auto
    qed (use assms(5) s Waiting in simp_all)
  next
    case (Responded resp)
    with assms(5) s show ?thesis by (cases x) simp_all
  next
    case Panicked
    with assms(5) s show ?thesis by (cases x) simp_all
  qed
qed

lemma calm_run:
  assumes "upload_start H r0 w0" and "digest_law H sha" and "calm_state H sha r0 w0 data s" and "list_all calm xs"
    and "recv_run H show_uuid xs s = Some s'"
  shows "calm_state H sha r0 w0 (data @ body_of xs) s'"
  using assms(3-5)
proof (induction xs arbitrary: data s)
  case Nil
  then show ?case by simp
next
  case (Cons x xs)
  from Cons.prems(3) obtain t where t: "recv_step H show_uuid x s = Some t" "recv_run H show_uuid xs t = Some s'"
    by (cases "recv_step H show_uuid x s") auto
  have c: "calm x" "list_all calm xs" using Cons.prems(2) by simp_all
  from Cons.IH [OF calm_step [OF assms(1,2) Cons.prems(1) c(1) t(1)] c(2) t(2)] show ?case by simp
qed

text \<open>An upload in these chunks, undisturbed.\<close>

definition plain_upload :: "byte list list \<Rightarrow> stimulus list" where
  "plain_upload cs = map (\<lambda>c. Data c io_fine) cs @ [EndOfBody io_fine]"

lemma plain_upload_simps [simp]:
  "plain_upload [] = [EndOfBody io_fine]" "plain_upload (c # cs) = Data c io_fine # plain_upload cs"
  "body_of (plain_upload cs) = concat cs" "list_all calm (plain_upload cs)"
proof -
  show "body_of (plain_upload cs) = concat cs" by (induction cs) (simp_all add: plain_upload_def)
  show "list_all calm (plain_upload cs)" by (induction cs) (simp_all add: plain_upload_def)
qed (simp_all add: plain_upload_def)

text \<open>It is answered.\<close>

lemma plain_run:
  assumes "upload_start H r0 w0" and "digest_law H sha" and "receiving H r0 w0 data r w"
    and "\<not> is_cancelled (rv_session r0) (mem w)" and "\<not> is_paused (rv_session r0) (mem w)"
  shows "\<exists>resp w'. recv_run H show_uuid (plain_upload cs) (Receiving r, w) = Some (Responded resp, w')
    \<and> (resp, fs w') = plain_answer sha r0 w0 (data @ concat cs) \<and> app w' = forgotten r0 w0"
  using assms(3-5)
proof (induction cs arbitrary: data r w)
  case Nil
  from calm_end [OF assms(1,2) Nil(1), of show_uuid] show ?case by auto
next
  case (Cons c cs)
  obtain r' w' where x: "write_chunk H io_fine r c w = (Receiving r', w')" "receiving H r0 w0 (data @ c) r' w'"
    using receiving_write [OF Cons.prems(1)] io_fine_simps(1) by blast
  have "mem w' = add_bytes (of_nat (length c)) (rv_session r0) (mem w)"
    using x(1) receiving_fields(2) [OF Cons.prems(1)] by (auto simp: write_chunk_def)
  then have "\<not> is_cancelled (rv_session r0) (mem w')" "\<not> is_paused (rv_session r0) (mem w')"
    using Cons.prems(2,3) by (simp_all add: is_cancelled_def is_paused_def session_ops cell_simps)
  from Cons.IH [OF x(2) this] x(1) Cons.prems(2,3) receiving_fields(2) [OF Cons.prems(1)] show ?case by simp
qed

section \<open>Entering the loop\<close>

definition staging_of :: "(uuid \<Rightarrow> rstring) \<Rightarrow> StoragePaths \<Rightarrow> uuid \<Rightarrow> rstring" where
  "staging_of show_uuid sp u = path_join (staging_dir sp) (part_name show_uuid u)"

definition final_of :: "StoragePaths \<Rightarrow> rstring \<Rightarrow> rstring" where
  "final_of sp name = path_join (received_files_dir sp) name"

lemma part_name_plain: "uuid_text show_uuid \<Longrightarrow> plain_name (part_name show_uuid u)"
proof -
  assume u: "uuid_text show_uuid"
  then have l: "length (show_uuid u) = 36" and c: "c \<in> set (show_uuid u) \<Longrightarrow> is_lower_hex c \<or> c = 45" for c
    by (simp_all add: uuid_text_def)
  from l have n: "show_uuid u \<noteq> []" by auto
  have d: "c \<in> set (part_name show_uuid u) \<Longrightarrow> 45 \<le> c \<and> c \<le> 122 \<and> c \<noteq> 47 \<and> c \<noteq> 92" for c
  proof -
    assume "c \<in> set (part_name show_uuid u)"
    then have "c \<in> set (show_uuid u) \<or> c \<in> {46, 112, 97, 114, 116}" by (auto simp: part_name_def lit_def)
    with c [of c] show ?thesis by (auto simp: is_lower_hex_def is_ascii_digit_def)
  qed
  have "112 \<in> set (part_name show_uuid u)" by (simp add: part_name_def lit_def)
  then have "\<exists>c \<in> set (part_name show_uuid u). \<not> is_whitespace c" by (rule bexI [rotated]) (simp add: is_whitespace_def)
  moreover have "normal_part (part_name show_uuid u)"
    using d l by (fastforce simp: normal_part_def is_slash_def part_name_def lit_def)
  ultimately show ?thesis using d by (fastforce simp: plain_name_def)
qed

lemma staging_join: "uuid_text show_uuid \<Longrightarrow>
    safe_join (staging_dir sp) (part_name show_uuid u) = Inr (staging_of show_uuid sp u)"
  by (simp add: staging_of_def safe_join_plain part_name_plain)

lemma final_join: "sanitize_filename raw = Some name \<Longrightarrow> safe_join (received_files_dir sp) name = Inr (final_of sp name)"
  by (simp add: final_of_def safe_join_plain safe_name_plain sanitize_filename_name)

lemma upload_components:
  "uuid_text show_uuid \<Longrightarrow>
    components (staging_of show_uuid sp u) = components (staging_dir sp) @ [Normal (part_name show_uuid u)]"
  "sanitize_filename raw = Some name \<Longrightarrow> components (final_of sp name) = components (received_files_dir sp) @ [Normal name]"
  by (simp_all add: staging_of_def final_of_def components_join_plain part_name_plain safe_name_plain sanitize_filename_name)

lemma staging_final_apart:
  "uuid_text show_uuid \<Longrightarrow> sanitize_filename raw = Some name \<Longrightarrow>
    components (staging_of show_uuid sp u) \<noteq> components (final_of sp name)"
  by (simp add: upload_components dirs_apart)

lemma create_dir_all_disk [disk_simps]:
  "names (create_dir_all p d) = names d" "contents (create_dir_all p d) = contents d"
  "next_file (create_dir_all p d) = next_file d" "disk_ok (create_dir_all p d) = disk_ok d"
  "disk_read q (create_dir_all p d) = disk_read q d"
  by (simp_all add: create_dir_all_def disk_ok_def disk_read_def)

text \<open>What an existing partial file contributes.\<close>

definition old_part :: "u64 \<Rightarrow> rstring \<Rightarrow> disk \<Rightarrow> byte list" where
  "old_part resume p d = (if resume = 0 then [] else case disk_read p d of Some c \<Rightarrow> c | None \<Rightarrow> [])"

lemma receive_open_receiving:
  assumes "receive_open H io now u name len resume expected staging final w = (Receiving r, w1)"
    and "disk_ok (fs w)" and "components staging \<noteq> components final"
  shows "upload_start H r w1"
    and "rv_id r = u" "rv_staging r = staging" "rv_final r = final" "rv_expected r = expected" "rv_resume r = resume"
    "rv_total r = len"
    and "contents (fs w1) (rv_file r) = old_part resume staging (fs w)"
    and "components q \<noteq> components staging \<Longrightarrow> disk_read q (fs w1) = disk_read q (fs w)"
    and "app w1 = insert_session (rv_session r) (app w)" "ts_id (rv_session r) = u"
    and "ts_total_bytes (rv_session r) = len"
    and "\<not> is_cancelled (rv_session r) (mem w1)" "\<not> is_paused (rv_session r) (mem w1)"
proof -
  let ?d = "create_dir_all (path_parent staging) (fs w)"
  let ?o = "disk_open (resume = 0) staging ?d"
  let ?n = "session_new u name len Receive now (mem w)"
  have r: "r = new_receiver H u (fst ?n) (fst ?o) resume len expected staging final"
    and w1: "w1 = \<lparr>app = insert_session (fst ?n) (app w), mem = with_initial_bytes resume (fst ?n) (snd ?n), fs = snd ?o\<rparr>"
    using assms(1) by (auto simp: receive_open_def Let_def split: option.splits prod.splits if_splits)
  have d: "disk_ok ?d" using assms(2) by (simp add: disk_simps)
  have "upload_start H r w1"
    using disk_ok_open [OF d] disk_open_name [of _ staging ?d] disk_open_contents [of True staging ?d] assms(3)
    by (simp add: upload_start_def r w1 new_receiver_def insert_session_def bytes_transferred_def session_ops cell_simps)
  then show "upload_start H r w1" .
  show "contents (fs w1) (rv_file r) = old_part resume staging (fs w)"
    using disk_open_contents [of "resume = 0" staging ?d] by (simp add: r w1 new_receiver_def old_part_def disk_simps)
  show "components q \<noteq> components staging \<Longrightarrow> disk_read q (fs w1) = disk_read q (fs w)"
    using disk_open_other [OF d] by (simp add: w1 disk_simps)
  show "ts_id (rv_session r) = u" "ts_total_bytes (rv_session r) = len" by (simp_all add: r new_receiver_def)
  show "\<not> is_cancelled (rv_session r) (mem w1)" "\<not> is_paused (rv_session r) (mem w1)"
    by (simp_all add: r w1 new_receiver_def is_cancelled_def is_paused_def session_ops cell_simps)
qed (use assms(1) in \<open>auto simp: receive_open_def new_receiver_def Let_def split: option.splits prod.splits if_splits\<close>)

text \<open>The header part of a request that is not refused.\<close>

definition request_ok :: "headers \<Rightarrow> rstring \<Rightarrow> u64 \<Rightarrow> bool" where
  "request_ok hdr name len \<longleftrightarrow>
     Option.bind (hdr (lit ''X-FileDrop-Filename'')) sanitize_filename = Some name
     \<and> Option.bind (hdr (lit ''X-FileDrop-Total-Size'')) parse_u64 = Some len"

lemma receive_begin_ok:
  assumes "uuid_text show_uuid" and "request_ok hdr name len"
  shows "receive_begin H show_uuid io now u hdr w =
    receive_open H io now u name len (unwrap_or (parse_resume_offset hdr) 0) (hdr (lit ''X-FileDrop-Sha256''))
      (staging_of show_uuid (as_paths (app w)) u) (final_of (as_paths (app w)) name) w"
proof -
  obtain raw where "hdr (lit ''X-FileDrop-Filename'') = Some raw" and "sanitize_filename raw = Some name"
    using assms(2) by (auto simp: request_ok_def bind_eq_Some_conv)
  then show ?thesis using assms by (simp add: receive_begin_def request_ok_def staging_join final_join)
qed

lemma receive_begin_not_ok:
  assumes "uuid_text show_uuid" and "\<nexists>name len. request_ok hdr name len"
  shows "receive_begin H show_uuid io now u hdr w =
    (if hdr (lit ''X-FileDrop-Filename'') = None then
       (Responded (Text BAD_REQUEST (lit ''missing X-FileDrop-Filename'')), w)
     else if Option.bind (hdr (lit ''X-FileDrop-Total-Size'')) parse_u64 = None then
       (Responded (Text BAD_REQUEST (lit ''missing X-FileDrop-Total-Size'')), w)
     else (Panicked, w))"
  using assms(2)
  by (auto simp: receive_begin_def request_ok_def staging_join [OF assms(1)] final_join split: option.splits)

text \<open>Failing before the loop leaves at most an empty partial file.\<close>

lemma receive_open_failed:
  assumes "receive_open H io now u name len resume expected staging final w = (hs, w1)" and "disk_ok (fs w)"
    and "\<nexists>r. hs = Receiving r"
  shows "(\<exists>e. hs = Responded (Text INTERNAL_SERVER_ERROR e)) \<and> app w1 = app w \<and> mem w1 = mem w
    \<and> (components q \<noteq> components staging \<longrightarrow> disk_read q (fs w1) = disk_read q (fs w))"
proof -
  have d: "disk_ok (create_dir_all (path_parent staging) (fs w))" using assms(2) by (simp add: disk_simps)
  show ?thesis using assms(1,3) disk_open_other [OF d]
    by (auto simp: receive_open_def Let_def disk_simps split: option.splits prod.splits if_splits)
      (metis snd_conv)+
qed

definition entered ::
  "(uuid \<Rightarrow> rstring) \<Rightarrow> headers \<Rightarrow> uuid \<Rightarrow> world \<Rightarrow> rstring \<Rightarrow> 'h receiver \<Rightarrow> world \<Rightarrow> bool" where
  "entered show_uuid hdr u w name r w1 \<longleftrightarrow>
     request_ok hdr name (rv_total r) \<and> rv_id r = u
     \<and> rv_staging r = staging_of show_uuid (as_paths (app w)) u \<and> rv_final r = final_of (as_paths (app w)) name
     \<and> rv_expected r = hdr (lit ''X-FileDrop-Sha256'') \<and> rv_resume r = unwrap_or (parse_resume_offset hdr) 0
     \<and> contents (fs w1) (rv_file r) = old_part (rv_resume r) (rv_staging r) (fs w)
     \<and> (\<forall>q. components q \<noteq> components (rv_staging r) \<longrightarrow> disk_read q (fs w1) = disk_read q (fs w))
     \<and> app w1 = insert_session (rv_session r) (app w) \<and> ts_id (rv_session r) = u
     \<and> ts_total_bytes (rv_session r) = rv_total r
     \<and> \<not> is_cancelled (rv_session r) (mem w1) \<and> \<not> is_paused (rv_session r) (mem w1)"

lemma request_ok_apart:
  "uuid_text show_uuid \<Longrightarrow> request_ok hdr name len \<Longrightarrow>
    components (staging_of show_uuid sp u) \<noteq> components (final_of sp name)"
  using staging_final_apart [where name = name] unfolding request_ok_def bind_eq_Some_conv by blast

lemma receive_begin_entered:
  assumes "uuid_text show_uuid" and "disk_ok (fs w)" and "receive_begin H show_uuid io now u hdr w = (Receiving r, w1)"
  shows "upload_start H r w1" and "\<exists>name. entered show_uuid hdr u w name r w1"
proof -
  have "\<exists>name len. request_ok hdr name len"
  proof (rule ccontr)
    assume "\<not> ?thesis"
    from receive_begin_not_ok [OF assms(1) this, of H io now u w] assms(3) show False by (auto split: if_splits)
  qed
  then obtain name len where ok: "request_ok hdr name len" by blast
  note b = assms(3) [unfolded receive_begin_ok [OF assms(1) ok]]
  note o = receive_open_receiving [OF b assms(2) request_ok_apart [OF assms(1) ok]]
  show "upload_start H r w1" by (rule o(1))
  have "entered show_uuid hdr u w name r w1" unfolding entered_def using o ok by simp
  then show "\<exists>name. entered show_uuid hdr u w name r w1" by blast
qed

lemma receive_begin_refused:
  assumes "uuid_text show_uuid" and "disk_ok (fs w)" and "receive_begin H show_uuid io now u hdr w = (hs, w1)"
    and "\<nexists>r. hs = Receiving r"
  shows "(hs = Panicked \<or> (\<exists>c m. hs = Responded (Text c m) \<and> c \<in> {BAD_REQUEST, INTERNAL_SERVER_ERROR}))
    \<and> app w1 = app w \<and> mem w1 = mem w
    \<and> (components q \<noteq> components (staging_of show_uuid (as_paths (app w)) u) \<longrightarrow> disk_read q (fs w1) = disk_read q (fs w))"
proof (cases "\<exists>name len. request_ok hdr name len")
  case True
  then obtain name len where ok: "request_ok hdr name len" by blast
  from receive_open_failed [OF assms(3) [unfolded receive_begin_ok [OF assms(1) ok]] assms(2,4), of q] show ?thesis by auto
next
  case False
  then show ?thesis using assms(3) receive_begin_not_ok [OF assms(1), of hdr H io now u w]
    by (auto split: if_splits)
qed

lemma recv_run_append:
  "recv_run H show_uuid (xs @ ys) s = Option.bind (recv_run H show_uuid xs s) (recv_run H show_uuid ys)"
proof (induction xs arbitrary: s)
  case Nil
  then show ?case by simp
next
  case (Cons x xs)
  then show ?case by (cases "recv_step H show_uuid x s") simp_all
qed

lemma recv_run_stuck: "(\<nexists>r. hs = Receiving r) \<Longrightarrow> (\<nexists>r c. hs = Waiting r c) \<Longrightarrow>
    recv_run H show_uuid xs (hs, w) = (if xs = [] then Some (hs, w) else None)"
  by (cases hs; cases xs; cases "hd xs") auto

text \<open>Every run of the handler: either it never got to the loop, or the loop's invariant describes it.\<close>

lemma transfer_cases:
  assumes "uuid_text show_uuid" and "disk_ok (fs w)" and "digest_law H sha"
    and "receive_transfer H show_uuid io now u hdr xs w = Some (hs, w')"
  shows "(\<exists>name r w1. upload_start H r w1 \<and> entered show_uuid hdr u w name r w1
        \<and> receive_begin H show_uuid io now u hdr w = (Receiving r, w1)
        \<and> handler_state H sha r w1 (body_of xs) (hs, w'))
    \<or> ((hs = Panicked \<or> (\<exists>c m. hs = Responded (Text c m) \<and> c \<in> {BAD_REQUEST, INTERNAL_SERVER_ERROR}))
        \<and> app w' = app w \<and> mem w' = mem w
        \<and> (\<forall>q. components q \<noteq> components (staging_of show_uuid (as_paths (app w)) u) \<longrightarrow>
              disk_read q (fs w') = disk_read q (fs w)))"
proof -
  obtain b w1 where b: "receive_begin H show_uuid io now u hdr w = (b, w1)" by fastforce
  show ?thesis
  proof (cases "\<exists>r. b = Receiving r")
    case True
    then obtain r where r: "b = Receiving r" by blast
    obtain name where e: "upload_start H r w1" "entered show_uuid hdr u w name r w1"
      using receive_begin_entered [OF assms(1,2)] b r by blast
    have "handler_state H sha r w1 [] (Receiving r, w1)" using receiving_start [OF e(1)] by simp
    from recv_run_state [OF e(1) assms(3) this] have "handler_state H sha r w1 (body_of xs) (hs, w')"
      using assms(4) b r by (simp add: receive_transfer_def)
    with e b r show ?thesis by blast
  next
    case False
    note f = receive_begin_refused [OF assms(1,2) b False]
    then have "\<nexists>r c. b = Waiting r c" by auto
    with False assms(4) b have "hs = b \<and> w' = w1" by (simp add: receive_transfer_def recv_run_stuck split: if_splits)
    with f show ?thesis by blast
  qed
qed

end
