(* ===== verification/Receive.thy ===== *)
theory Receive
  imports Upload
begin

text \<open>
  The properties of uploads to \<^verbatim>\<open>transfer/server.rs\<close>: what is accepted, where it ends up, what else can
  change, resuming, pausing, cancelling, and the corners where the handler forgets a session too early
  or keeps it too long.
\<close>

section \<open>Shared facts\<close>

lemma entered_name:
  assumes "entered show_uuid hdr u w name r w1"
  shows "\<exists>raw. hdr (lit ''X-FileDrop-Filename'') = Some raw \<and> sanitize_filename raw = Some name"
  using assms by (auto simp: entered_def request_ok_def bind_eq_Some_conv)

lemma forgotten_entered:
  assumes "entered show_uuid hdr u w name r w1"
  shows "forgotten r w1 = (app w)\<lparr>as_sessions := (as_sessions (app w))(u := None)\<rparr>"
  using assms by (simp add: entered_def forgotten_def remove_session_def insert_session_def)

text \<open>Where an answered upload leaves things.\<close>

lemma answered_reads:
  assumes "upload_start H r w1" and "answered sha r w1 data resp w'"
    and "components q \<noteq> components (rv_staging r)" and "status_of resp \<noteq> OK \<or> components q \<noteq> components (rv_final r)"
  shows "disk_read q (fs w') = disk_read q (fs w1)"
  using assms(2) stored_read(4) [OF assms(1,3)] assms(1,3,4)
  by (cases rule: answered.cases)
    (auto simp: disk_remove_read upload_start_def dest!: disk_rename_read(3) [where r = q])

lemma answered_accepted:
  assumes "upload_start H r w1" and "answered sha r w1 data resp w'" and "status_of resp = OK"
  shows "disk_read (rv_final r) (fs w') = Some (stored_content r w1 data) \<and> disk_read (rv_staging r) (fs w') = None
    \<and> whole r data \<and> verified sha r w1 data \<and> app w' = forgotten r w1"
  using assms(2)
proof (cases rule: answered.cases)
  case (accepted m)
  have a: "components (rv_staging r) \<noteq> components (rv_final r)" using assms(1) by (simp add: upload_start_def)
  from disk_rename_read(1,2) [OF accepted(4) a] stored_read(3) [OF assms(1)] accepted show ?thesis by simp
qed (use assms(3) in \<open>simp_all add: status_codes\<close>)

lemma answered_app:
  assumes "answered sha r w data resp w'"
  shows "app w' = forgotten r w \<or> status_of resp = INTERNAL_SERVER_ERROR \<and> app w' = app w"
  using assms by (cases rule: answered.cases) auto

text \<open>Before an answer only the partial file changes.\<close>

lemma unanswered_reads:
  assumes "upload_start H r w1" and "handler_state H sha r w1 data (hs, w')" and "\<nexists>resp. hs = Responded resp"
    and "components q \<noteq> components (rv_staging r)"
  shows "disk_read q (fs w') = disk_read q (fs w1)" "app w' = app w1"
  using assms stored_read(4) [OF assms(1,4)] by (cases hs; auto dest: receiving_fields)+

text \<open>An undisturbed upload is answered, and how.\<close>

lemma plain_transfer:
  assumes "uuid_text show_uuid" and "digest_law H sha" and "disk_ok (fs w)" and "request_ok hdr name len"
  shows "\<exists>r w1 resp w'. upload_start H r w1 \<and> entered show_uuid hdr u w name r w1 \<and> rv_total r = len
    \<and> receive_begin H show_uuid open_fine now u hdr w = (Receiving r, w1)
    \<and> receive_transfer H show_uuid open_fine now u hdr (plain_upload cs) w = Some (Responded resp, w')
    \<and> (resp, fs w') = plain_answer sha r w1 (concat cs) \<and> app w' = forgotten r w1"
proof -
  have "\<exists>r w1. receive_begin H show_uuid open_fine now u hdr w = (Receiving r, w1)"
    unfolding receive_begin_ok [OF assms(1,4)] receive_open_def open_fine_def
    by (auto simp: Let_def split: prod.splits)
  then obtain r w1 where b: "receive_begin H show_uuid open_fine now u hdr w = (Receiving r, w1)" by blast
  have n: "request_ok hdr n l \<Longrightarrow> n = name \<and> l = len" for n l using assms(4) by (simp add: request_ok_def)
  obtain m where "upload_start H r w1" "entered show_uuid hdr u w m r w1"
    using receive_begin_entered [OF assms(1,3) b] by blast
  then have e: "upload_start H r w1" "entered show_uuid hdr u w name r w1" "rv_total r = len"
    using n by (auto simp: entered_def)
  then have c: "\<not> is_cancelled (rv_session r) (mem w1)" "\<not> is_paused (rv_session r) (mem w1)"
    by (simp_all add: entered_def)
  from plain_run [OF e(1) assms(2) receiving_start [OF e(1)] c, of show_uuid cs] e b show ?thesis
    by (auto simp: receive_transfer_def)
qed

text \<open>Its answer when all of the file arrived.\<close>

lemma plain_accepted:
  fixes w' :: world
  assumes "upload_start H r w1" and "(resp, fs w') = plain_answer sha r w1 data" and "app w' = forgotten r w1"
    and "whole r data" and "verified sha r w1 data"
  shows "resp = Text OK (lit ''transfer complete'') \<and> disk_read (rv_final r) (fs w') = Some (stored_content r w1 data)
    \<and> disk_read (rv_staging r) (fs w') = None"
proof -
  obtain d where d: "disk_rename (rv_staging r) (rv_final r) (stored r w1 data) = Some d"
    using disk_rename_Some stored_read(2) [OF assms(1)] assms(1) unfolding upload_start_def by metis
  with assms have "resp = Text OK (lit ''transfer complete'') \<and> fs w' = d" by (simp add: plain_answer_def)
  with d have "answered sha r w1 data resp w'" using assms(3-5) by (auto intro: answered.accepted)
  from answered_accepted [OF assms(1) this] \<open>resp = _ \<and> fs w' = d\<close> show ?thesis by simp
qed

text \<open>The offset of a well-formed range.\<close>

lemma parse_resume_offset_range:
  assumes "hdr (lit ''Content-Range'') = Some (lit ''bytes '' @ u64_to_string k @ 45 # rest)"
  shows "parse_resume_offset hdr = Some k"
proof -
  have d: "\<forall>c \<in> set (u64_to_string k). c \<noteq> 45" using nat_to_string_ascii by (fastforce simp: u64_to_string_def)
  then have "takeWhile (\<lambda>c. c \<noteq> 45) (u64_to_string k @ 45 # rest) = u64_to_string k" by (simp add: takeWhile_append2)
  then show ?thesis using assms by (simp add: parse_resume_offset_def parse_u64_to_string)
qed

section \<open>Samples\<close>

text \<open>A textual form of identifiers: 32 digits after four dashes.\<close>

primrec hex_digits :: "nat \<Rightarrow> nat \<Rightarrow> rstring" where
  "hex_digits 0 n = []"
| "hex_digits (Suc k) n = hex_digit (n mod 16) # hex_digits k (n div 16)"

definition sample_show :: "uuid \<Rightarrow> rstring" where
  "sample_show u = [45, 45, 45, 45] @ hex_digits 32 (unat u)"

lemma hex_digits_inj: "m < 16 ^ k \<Longrightarrow> n < 16 ^ k \<Longrightarrow> hex_digits k m = hex_digits k n \<Longrightarrow> m = n"
proof (induction k arbitrary: m n)
  case 0
  then show ?case by simp
next
  case (Suc k)
  then have "m mod 16 = n mod 16" and "m div 16 = n div 16"
    by (auto simp: hex_digit_inj less_mult_imp_div_less mult.commute)
  then show ?case by (metis mult_div_mod_eq)
qed

lemma hex_digits_facts: "length (hex_digits k n) = k" "c \<in> set (hex_digits k n) \<Longrightarrow> is_lower_hex c"
  by (induction k arbitrary: n) (auto simp: hex_digit_lower)

lemma sample_show_text: "uuid_text sample_show"
proof -
  have "inj sample_show"
  proof (rule injI)
    fix u v :: uuid
    assume "sample_show u = sample_show v"
    then have "hex_digits 32 (unat u) = hex_digits 32 (unat v)" by (simp add: sample_show_def)
    moreover have "unat w < 16 ^ 32" for w :: uuid using unsigned_less [of w] by simp
    ultimately have "unat u = unat v" using hex_digits_inj by blast
    then show "u = v" by (rule unsigned_word_eqI)
  qed
  then show ?thesis using hex_digits_facts by (auto simp: uuid_text_def sample_show_def)
qed

definition sample_world :: "disk \<Rightarrow> world" where
  "sample_world d =
     \<lparr>app = \<lparr>as_paths = sample_paths, as_queue = queue_new, as_history = sample_store, as_pairing = psm_new,
              as_sessions = Map.empty\<rparr>,
      mem = sample_heap, fs = d\<rparr>"

definition sample_headers :: "nat \<Rightarrow> rstring option \<Rightarrow> headers" where
  "sample_headers len rng name =
     (if name = lit ''X-FileDrop-Filename'' then Some (lit ''a.txt'')
      else if name = lit ''X-FileDrop-Total-Size'' then Some (u64_to_string (of_nat len))
      else if name = lit ''X-FileDrop-Sha256'' then Some (hex_encode (toy_sha [1, 2, 3]))
      else if name = lit ''Content-Range'' then rng
      else None)"

lemma sample_headers_simps [simp]:
  "sample_headers len rng (lit ''X-FileDrop-Filename'') = Some (lit ''a.txt'')"
  "sample_headers len rng (lit ''X-FileDrop-Total-Size'') = Some (u64_to_string (of_nat len))"
  "sample_headers len rng (lit ''X-FileDrop-Sha256'') = Some (hex_encode (toy_sha [1, 2, 3]))"
  "sample_headers len rng (lit ''Content-Range'') = rng"
  by (simp_all add: sample_headers_def lit_def)

lemma sample_request: "request_ok (sample_headers len rng) (lit ''a.txt'') (of_nat len)"
proof -
  have "sanitize_filename (lit ''a.txt'') = Some (lit ''a.txt'')" by (simp add: text_defs)
  then show ?thesis by (simp add: request_ok_def parse_u64_to_string)
qed

lemma sample_world_ok: "disk_ok (fs (sample_world empty_disk))"
  by (simp add: sample_world_def disk_ok_empty)

section \<open>Properties\<close>

text \<open>C3: an accepted upload is the file it claimed to be: if the handler answers 200, whatever chunks, faults,
  pauses and retries came before, the sanitized name in the received directory holds a file whose
  SHA-256 is the one of the checksum header, if there was one, the partial file is gone, the bytes
  counted are the announced total, and a fresh (not resumed) file is exactly the body received.\<close>

theorem accepted_upload_verified:
  assumes "uuid_text show_uuid" and "digest_law H sha" and "disk_ok (fs w)"
    and "receive_transfer H show_uuid io now u hdr xs w = Some (Responded resp, w')" and "status_of resp = OK"
  shows "\<exists>raw name c. hdr (lit ''X-FileDrop-Filename'') = Some raw \<and> sanitize_filename raw = Some name
    \<and> disk_read (final_of (as_paths (app w)) name) (fs w') = Some c
    \<and> disk_read (staging_of show_uuid (as_paths (app w)) u) (fs w') = None
    \<and> (\<forall>e. hdr (lit ''X-FileDrop-Sha256'') = Some e \<longrightarrow> hex_encode (sha c) = e)
    \<and> Option.bind (hdr (lit ''X-FileDrop-Total-Size'')) parse_u64
        = Some (unwrap_or (parse_resume_offset hdr) 0 + of_nat (length (body_of xs)))
    \<and> (unwrap_or (parse_resume_offset hdr) 0 = 0 \<longrightarrow> c = body_of xs)"
proof -
  obtain name r w1 where e: "upload_start H r w1" "entered show_uuid hdr u w name r w1"
    and s: "answered sha r w1 (body_of xs) resp w'"
    using transfer_cases [OF assms(1,3,2,4)] assms(5) by (auto simp: status_codes)
  note a = answered_accepted [OF e(1) s assms(5)]
  note f = e(2) [unfolded entered_def]
  obtain raw where raw: "hdr (lit ''X-FileDrop-Filename'') = Some raw" "sanitize_filename raw = Some name"
    using entered_name [OF e(2)] by blast
  have n: "contents (fs w1) (rv_file r) = []" if "rv_resume r = 0" using e(1) that by (simp add: upload_start_def)
  show ?thesis
  proof (intro exI conjI)
    show "disk_read (final_of (as_paths (app w)) name) (fs w') = Some (stored_content r w1 (body_of xs))"
      "disk_read (staging_of show_uuid (as_paths (app w)) u) (fs w') = None" using a f by simp_all
    show "\<forall>e. hdr (lit ''X-FileDrop-Sha256'') = Some e \<longrightarrow> hex_encode (sha (stored_content r w1 (body_of xs))) = e"
      using a f by (auto simp: verified_def)
    show "Option.bind (hdr (lit ''X-FileDrop-Total-Size'')) parse_u64
        = Some (unwrap_or (parse_resume_offset hdr) 0 + of_nat (length (body_of xs)))"
      using a f by (auto simp: whole_def request_ok_def)
    show "unwrap_or (parse_resume_offset hdr) 0 = 0 \<longrightarrow> stored_content r w1 (body_of xs) = body_of xs"
      using n f by (auto simp: stored_content_def patch_def)
  qed (rule raw)+
qed

theorem accepted_upload_verified_witness:
  "\<exists>resp w'. receive_transfer toy_hash sample_show open_fine 0 7 (sample_headers 3 None) (plain_upload [[1, 2], [3]])
      (sample_world empty_disk) = Some (Responded resp, w') \<and> status_of resp = OK
    \<and> (\<exists>name c. disk_read (final_of sample_paths name) (fs w') = Some c \<and> c = [1, 2, 3])"
proof -
  let ?w = "sample_world empty_disk" and ?h = "sample_headers 3 None"
  obtain r w1 resp w' where t: "upload_start toy_hash r w1" "entered sample_show ?h 7 ?w (lit ''a.txt'') r w1"
    "rv_total r = of_nat 3"
    "receive_transfer toy_hash sample_show open_fine 0 7 ?h (plain_upload [[1, 2], [3]]) ?w = Some (Responded resp, w')"
    "(resp, fs w') = plain_answer toy_sha r w1 (concat [[1, 2], [3]])" "app w' = forgotten r w1"
    using plain_transfer [OF sample_show_text toy_hash_law sample_world_ok sample_request] by blast
  have o: "rv_resume r = 0" "rv_expected r = Some (hex_encode (toy_sha [1, 2, 3]))"
    using t(2) by (simp_all add: entered_def parse_resume_offset_def unwrap_or_def)
  then have "contents (fs w1) (rv_file r) = []" using t(1) by (simp add: upload_start_def)
  then have "whole r (concat [[1, 2], [3]])" "verified toy_sha r w1 (concat [[1, 2], [3]])"
    using t(3) o by (simp_all add: whole_def verified_def stored_content_def patch_def)
  from plain_accepted [OF t(1,5,6) this] have s: "status_of resp = OK" by simp
  have "as_paths (app ?w) = sample_paths" by (simp add: sample_world_def)
  moreover have "unwrap_or (parse_resume_offset ?h) 0 = 0" by (simp add: parse_resume_offset_def unwrap_or_def)
  moreover have "body_of (plain_upload [[1, 2], [3]]) = [1, 2, 3]" by simp
  ultimately show ?thesis
    using accepted_upload_verified [OF sample_show_text toy_hash_law sample_world_ok t(4) s] t(4) s by metis
qed

text \<open>C6: confinement of an upload: at every point of every run the only files that can differ from before are
  the partial file named after the transfer id and, once the answer is 200, the sanitized name in the
  received directory. Queue, history, pairings and paths never change, nor do the sessions of other
  transfers.\<close>

theorem upload_touches_only_its_files:
  assumes "uuid_text show_uuid" and "digest_law H sha" and "disk_ok (fs w)"
    and "receive_transfer H show_uuid io now u hdr xs w = Some (hs, w')"
    and "components q \<noteq> components (staging_of show_uuid (as_paths (app w)) u)"
    and "(\<exists>resp. hs = Responded resp \<and> status_of resp = OK) \<longrightarrow>
      (\<forall>name. Option.bind (hdr (lit ''X-FileDrop-Filename'')) sanitize_filename = Some name \<longrightarrow>
        components q \<noteq> components (final_of (as_paths (app w)) name))"
  shows "disk_read q (fs w') = disk_read q (fs w) \<and> as_paths (app w') = as_paths (app w)
    \<and> as_queue (app w') = as_queue (app w) \<and> as_history (app w') = as_history (app w)
    \<and> as_pairing (app w') = as_pairing (app w)
    \<and> (\<forall>v. v \<noteq> u \<longrightarrow> as_sessions (app w') v = as_sessions (app w) v)"
  using transfer_cases [OF assms(1,3,2,4)]
proof (elim disjE exE conjE)
  fix name r w1
  assume e: "upload_start H r w1" "entered show_uuid hdr u w name r w1"
    and s: "handler_state H sha r w1 (body_of xs) (hs, w')"
  note f = e(2) [unfolded entered_def]
  have q: "components q \<noteq> components (rv_staging r)" using assms(5) f by simp
  have "disk_read q (fs w') = disk_read q (fs w1) \<and> (app w' = app w1 \<or> app w' = forgotten r w1)"
  proof (cases "\<exists>resp. hs = Responded resp")
    case True
    then obtain resp where resp: "hs = Responded resp" by blast
    then have a: "answered sha r w1 (body_of xs) resp w'" using s by simp
    have "status_of resp \<noteq> OK \<or> components q \<noteq> components (rv_final r)"
      using assms(6) resp f by (auto simp: request_ok_def)
    from answered_reads [OF e(1) a q this] answered_app [OF a] show ?thesis by auto
  next
    case False
    from unanswered_reads [OF e(1) s False q] show ?thesis by simp
  qed
  moreover have "disk_read q (fs w1) = disk_read q (fs w)" using f q by blast
  ultimately show ?thesis using forgotten_entered [OF e(2)] f by (auto simp: insert_session_def)
qed (use assms(5) in simp_all)

theorem upload_touches_only_its_files_witness:
  "\<exists>hs w'. receive_transfer toy_hash sample_show open_fine 0 7 (sample_headers 3 None)
      [Data [1, 2] io_fine, BodyErr [120]] (sample_world empty_disk) = Some (hs, w')
    \<and> disk_read (final_of sample_paths (lit ''a.txt'')) (fs w') = None"
proof -
  let ?w = "sample_world empty_disk" and ?h = "sample_headers 3 None" and ?xs = "[Data [1, 2] io_fine, BodyErr [120]]"
  obtain r w1 where e: "entered sample_show ?h 7 ?w (lit ''a.txt'') r w1"
    and r: "receive_begin toy_hash sample_show open_fine 0 7 ?h ?w = (Receiving r, w1)"
    using plain_transfer [OF sample_show_text toy_hash_law sample_world_ok sample_request [of 3 None], where now = 0 and u = 7]
    by blast
  from e have "\<not> is_cancelled (rv_session r) (mem w1)" "\<not> is_paused (rv_session r) (mem w1)"
    by (simp_all add: entered_def)
  with r have t: "\<exists>w'. receive_transfer toy_hash sample_show open_fine 0 7 ?h ?xs ?w
      = Some (Responded (Text BAD_REQUEST (lit ''stream error: '' @ [120])), w')"
    by (simp add: receive_transfer_def write_chunk_def)
  then obtain w' where t: "receive_transfer toy_hash sample_show open_fine 0 7 ?h ?xs ?w
      = Some (Responded (Text BAD_REQUEST (lit ''stream error: '' @ [120])), w')" by blast
  have a: "components (final_of sample_paths (lit ''a.txt'')) \<noteq> components (staging_of sample_show (as_paths (app ?w)) 7)"
    using request_ok_apart [OF sample_show_text sample_request [of 3 None], of sample_paths 7]
    by (simp add: sample_world_def)
  have "disk_read (final_of sample_paths (lit ''a.txt'')) (fs w') = disk_read (final_of sample_paths (lit ''a.txt'')) (fs ?w)"
    using upload_touches_only_its_files [OF sample_show_text toy_hash_law sample_world_ok t a]
    by (simp add: status_codes)
  then show ?thesis using t by (auto simp: sample_world_def disk_read_def empty_disk_def)
qed

text \<open>C12: an undisturbed upload succeeds: a request with a name, the right size and, if any, the right checksum,
  whose body arrives in any chunks, is answered 200, the file holds exactly the bytes sent, the partial
  file is gone and the session is forgotten.\<close>

theorem upload_completes:
  assumes "uuid_text show_uuid" and "digest_law H sha" and "disk_ok (fs w)"
    and "request_ok hdr name (of_nat (length (concat cs)))" and "parse_resume_offset hdr = None"
    and "hdr (lit ''X-FileDrop-Sha256'') \<in> {None, Some (hex_encode (sha (concat cs)))}"
  shows "\<exists>w'. receive_transfer H show_uuid open_fine now u hdr (plain_upload cs) w
        = Some (Responded (Text OK (lit ''transfer complete'')), w')
    \<and> disk_read (final_of (as_paths (app w)) name) (fs w') = Some (concat cs)
    \<and> disk_read (staging_of show_uuid (as_paths (app w)) u) (fs w') = None
    \<and> app w' = (app w)\<lparr>as_sessions := (as_sessions (app w))(u := None)\<rparr>"
proof -
  obtain r w1 resp w' where t: "upload_start H r w1" "entered show_uuid hdr u w name r w1"
    "rv_total r = of_nat (length (concat cs))"
    "receive_transfer H show_uuid open_fine now u hdr (plain_upload cs) w = Some (Responded resp, w')"
    "(resp, fs w') = plain_answer sha r w1 (concat cs)" "app w' = forgotten r w1"
    using plain_transfer [OF assms(1-4)] by blast
  have o: "rv_resume r = 0" using t(2) assms(5) by (simp add: entered_def unwrap_or_def)
  then have c: "stored_content r w1 (concat cs) = concat cs"
    using t(1) by (simp add: upload_start_def stored_content_def patch_def)
  have "rv_expected r \<in> {None, Some (hex_encode (sha (concat cs)))}" using assms(6) t(2) by (simp add: entered_def)
  then have "whole r (concat cs)" and "verified sha r w1 (concat cs)"
    using t(3) o c by (auto simp: whole_def verified_def)
  from plain_accepted [OF t(1,5,6) this] t(2,4,6) c forgotten_entered [OF t(2)] show ?thesis
    by (auto simp: entered_def)
qed

theorem upload_completes_witness:
  "\<exists>w'. receive_transfer toy_hash sample_show open_fine 0 7 (sample_headers 3 None) (plain_upload [[1, 2], [3]])
      (sample_world empty_disk) = Some (Responded (Text OK (lit ''transfer complete'')), w')
    \<and> disk_read (final_of sample_paths (lit ''a.txt'')) (fs w') = Some [1, 2, 3]"
proof -
  have r: "request_ok (sample_headers 3 None) (lit ''a.txt'') (of_nat (length (concat [[1, 2], [3]])))"
    using sample_request [of 3 None] by simp
  have p: "parse_resume_offset (sample_headers 3 None) = None" by (simp add: parse_resume_offset_def)
  have s: "sample_headers 3 None (lit ''X-FileDrop-Sha256'') \<in> {None, Some (hex_encode (toy_sha (concat [[1, 2], [3]])))}"
    by simp
  from upload_completes [OF sample_show_text toy_hash_law sample_world_ok r p s, of 0 7]
  show ?thesis by (auto simp: sample_world_def)
qed

text \<open>C13: resuming completes the file: if the partial file holds the first \<open>k\<close> bytes and the request asks to
  continue there, the rest arriving in any chunks makes the received file the whole, verified against
  the checksum of the whole, and the partial file is gone.\<close>

theorem resumed_upload_completes:
  assumes "uuid_text show_uuid" and "digest_law H sha" and "disk_ok (fs w)"
    and "disk_read (staging_of show_uuid (as_paths (app w)) u) (fs w) = Some old"
    and "parse_resume_offset hdr = Some (of_nat (length old))" and "0 < length old" and "length old < 2 ^ 64"
    and "request_ok hdr name (of_nat (length (old @ concat cs)))"
    and "hdr (lit ''X-FileDrop-Sha256'') \<in> {None, Some (hex_encode (sha (old @ concat cs)))}"
  shows "\<exists>w'. receive_transfer H show_uuid open_fine now u hdr (plain_upload cs) w
        = Some (Responded (Text OK (lit ''transfer complete'')), w')
    \<and> disk_read (final_of (as_paths (app w)) name) (fs w') = Some (old @ concat cs)
    \<and> disk_read (staging_of show_uuid (as_paths (app w)) u) (fs w') = None"
proof -
  obtain r w1 resp w' where t: "upload_start H r w1" "entered show_uuid hdr u w name r w1"
    "rv_total r = of_nat (length (old @ concat cs))"
    "receive_transfer H show_uuid open_fine now u hdr (plain_upload cs) w = Some (Responded resp, w')"
    "(resp, fs w') = plain_answer sha r w1 (concat cs)" "app w' = forgotten r w1"
    using plain_transfer [OF assms(1-3,8)] by blast
  have o: "rv_resume r = of_nat (length old)" using t(2) assms(5) by (simp add: entered_def)
  have n: "unat (rv_resume r) = length old" using assms(7) by (simp add: o unat_of_nat)
  then have "rv_resume r \<noteq> 0" using assms(6) by auto
  then have "contents (fs w1) (rv_file r) = old" using t(2) assms(4) by (simp add: entered_def old_part_def)
  then have c: "stored_content r w1 (concat cs) = old @ concat cs"
    by (simp add: stored_content_def n patch_append_end)
  have "rv_expected r \<in> {None, Some (hex_encode (sha (old @ concat cs)))}" using assms(9) t(2) by (simp add: entered_def)
  then have "whole r (concat cs)" and "verified sha r w1 (concat cs)"
    using t(3) o c by (auto simp: whole_def verified_def)
  from plain_accepted [OF t(1,5,6) this] t(2,4) c show ?thesis by (auto simp: entered_def)
qed

text \<open>A disk with the first byte of the sample already there.\<close>

definition part_disk :: disk where
  "part_disk = \<lparr>names = [components (staging_of sample_show sample_paths 7) \<mapsto> 0], contents = (\<lambda>_. [1]), next_file = 1,
     dirs = {}\<rparr>"

theorem resumed_upload_completes_witness:
  "\<exists>w'. receive_transfer toy_hash sample_show open_fine 0 7 (sample_headers 3 (Some (lit ''bytes 1-2/3'')))
      (plain_upload [[2], [3]]) (sample_world part_disk) = Some (Responded (Text OK (lit ''transfer complete'')), w')
    \<and> disk_read (final_of sample_paths (lit ''a.txt'')) (fs w') = Some [1, 2, 3]"
proof -
  let ?h = "sample_headers 3 (Some (lit ''bytes 1-2/3''))" and ?w = "sample_world part_disk"
  have d: "disk_ok (fs ?w)" by (simp add: sample_world_def part_disk_def disk_ok_def)
  have o: "disk_read (staging_of sample_show (as_paths (app ?w)) 7) (fs ?w) = Some [1]"
    by (simp add: sample_world_def part_disk_def disk_read_def)
  have "lit ''bytes 1-2/3'' = lit ''bytes '' @ u64_to_string 1 @ 45 # lit ''2/3''"
    by (simp add: lit_def u64_to_string_def nat_to_string.simps)
  then have p: "parse_resume_offset ?h = Some (of_nat (length [1 :: byte]))"
    using parse_resume_offset_range [of ?h 1 "lit ''2/3''"] by simp
  have q: "request_ok ?h (lit ''a.txt'') (of_nat (length ([1 :: byte] @ concat [[2], [3]])))"
    using sample_request [of 3] by simp
  have s: "?h (lit ''X-FileDrop-Sha256'') \<in> {None, Some (hex_encode (toy_sha ([1] @ concat [[2], [3]])))}" by simp
  have l: "0 < length [1 :: byte]" "length [1 :: byte] < 2 ^ 64" by simp_all
  from resumed_upload_completes [OF sample_show_text toy_hash_law d o p l q s, of 0]
  show ?thesis by (auto simp: sample_world_def)
qed

text \<open>C18: pausing is transparent: a run with any pauses and resumes between the chunks, once answered, gives the
  answer, the disk and the server state of sending the same bytes in one undisturbed chunk.\<close>

theorem pausing_is_transparent:
  assumes "uuid_text show_uuid" and "digest_law H sha" and "disk_ok (fs w)" and "request_ok hdr name len"
    and "list_all calm xs"
    and "receive_transfer H show_uuid open_fine now u hdr xs w = Some (Responded resp, w')"
  shows "\<exists>w''. receive_transfer H show_uuid open_fine now u hdr (plain_upload [body_of xs]) w = Some (Responded resp, w'')
    \<and> fs w'' = fs w' \<and> app w'' = app w'"
proof -
  obtain r w1 resp2 w2 where t: "upload_start H r w1" "entered show_uuid hdr u w name r w1"
    "receive_begin H show_uuid open_fine now u hdr w = (Receiving r, w1)"
    "receive_transfer H show_uuid open_fine now u hdr (plain_upload [body_of xs]) w = Some (Responded resp2, w2)"
    "(resp2, fs w2) = plain_answer sha r w1 (body_of xs)" "app w2 = forgotten r w1"
    using plain_transfer [OF assms(1-4), where now = now and u = u and cs = "[body_of xs]"]
    by (simp only: concat.simps append_Nil2) blast
  have "calm_state H sha r w1 [] (Receiving r, w1)" using receiving_start [OF t(1)] t(2) by (simp add: entered_def)
  moreover have "recv_run H show_uuid xs (Receiving r, w1) = Some (Responded resp, w')"
    using assms(6) t(3) by (simp add: receive_transfer_def)
  ultimately have "calm_state H sha r w1 ([] @ body_of xs) (Responded resp, w')"
    using calm_run [OF t(1) assms(2)] assms(5) by blast
  then have "(resp, fs w') = (resp2, fs w2)" "app w' = app w2" using t(5,6) by simp_all
  with t(4) show ?thesis by auto
qed

theorem pausing_is_transparent_witness:
  "\<exists>resp w' w''. receive_transfer toy_hash sample_show open_fine 0 7 (sample_headers 3 None)
      [Control Pause, Data [1, 2] io_fine, Slept io_fine, Control Resume, Slept io_fine, Data [3] io_fine, EndOfBody io_fine]
      (sample_world empty_disk) = Some (Responded resp, w')
    \<and> receive_transfer toy_hash sample_show open_fine 0 7 (sample_headers 3 None) (plain_upload [[1, 2, 3]])
      (sample_world empty_disk) = Some (Responded resp, w'') \<and> fs w'' = fs w'"
proof -
  let ?h = "sample_headers 3 None" and ?w = "sample_world empty_disk"
  let ?xs = "[Control Pause, Data [1, 2] io_fine, Slept io_fine, Control Resume, Slept io_fine, Data [3] io_fine,
    EndOfBody io_fine]"
  obtain r w1 where t: "upload_start toy_hash r w1" "entered sample_show ?h 7 ?w (lit ''a.txt'') r w1"
    "receive_begin toy_hash sample_show open_fine 0 7 ?h ?w = (Receiving r, w1)"
    using plain_transfer [OF sample_show_text toy_hash_law sample_world_ok sample_request [of 3 None], where now = 0 and u = 7]
    by blast
  define w2 where "w2 = w1\<lparr>mem := apply_control Resume (rv_session r) (apply_control Pause (rv_session r) (mem w1))\<rparr>"
  have "receiving toy_hash r w1 [] r w2"
    using receiving_control [OF receiving_control [OF receiving_start [OF t(1)], of Pause], of Resume] by (simp add: w2_def)
  moreover have "\<not> is_cancelled (rv_session r) (mem w2)" "\<not> is_paused (rv_session r) (mem w2)"
    using t(2) by (simp_all add: w2_def entered_def is_cancelled_def is_paused_def session_ops cell_simps)
  ultimately obtain resp w' where
    p: "recv_run toy_hash sample_show (plain_upload [[1, 2], [3]]) (Receiving r, w2) = Some (Responded resp, w')"
    using plain_run [OF t(1) toy_hash_law] by blast
  have "\<not> is_cancelled (rv_session r) (mem (w1\<lparr>mem := apply_control Pause (rv_session r) (mem w1)\<rparr>))"
    "is_paused (rv_session r) (mem (w1\<lparr>mem := apply_control Pause (rv_session r) (mem w1)\<rparr>))"
    using t(2) by (simp_all add: entered_def is_cancelled_def is_paused_def session_ops cell_simps)
  moreover have "\<not> is_cancelled (rv_session r) (mem w2)" "\<not> is_paused (rv_session r) (mem w2)"
    using t(2) by (simp_all add: w2_def entered_def is_cancelled_def is_paused_def session_ops cell_simps)
  ultimately have "receive_transfer toy_hash sample_show open_fine 0 7 ?h ?xs ?w = Some (Responded resp, w')"
    using p t(3) by (simp add: receive_transfer_def w2_def)
  note r = this
  have c: "list_all calm ?xs" and b: "body_of ?xs = [1, 2, 3]" by simp_all
  from pausing_is_transparent [OF sample_show_text toy_hash_law sample_world_ok sample_request c r] r b
  show ?thesis by auto
qed

text \<open>C17: a cancelled upload: once the session is cancelled, the next chunk that reaches the loop is not written;
  the answer is 499, the partial file is removed (if the system lets it), the session is forgotten and
  the received directory is as before.\<close>

theorem cancelled_upload:
  assumes "uuid_text show_uuid" and "digest_law H sha" and "disk_ok (fs w)"
    and "receive_transfer H show_uuid io now u hdr (xs @ [Control Cancel, Data chunk sio]) w = Some (hs, w')"
  shows "hs = Responded (Text CLIENT_CLOSED (lit ''transfer cancelled''))
    \<and> (io_remove sio \<longrightarrow> disk_read (staging_of show_uuid (as_paths (app w)) u) (fs w') = None)
    \<and> as_sessions (app w') u = None
    \<and> (\<forall>q. components q \<noteq> components (staging_of show_uuid (as_paths (app w)) u) \<longrightarrow>
          disk_read q (fs w') = disk_read q (fs w))"
proof -
  obtain s where s: "receive_transfer H show_uuid io now u hdr xs w = Some s"
    "recv_run H show_uuid [Control Cancel, Data chunk sio] s = Some (hs, w')"
    using assms(4) by (auto simp: receive_transfer_def recv_run_append bind_eq_Some_conv simp del: recv_run.simps)
  obtain hs1 w2 where s1: "s = (hs1, w2)" by (cases s)
  obtain r where r: "hs1 = Receiving r" using s(2) s1 by (cases hs1) (auto simp: bind_eq_Some_conv)
  obtain name r0 w1 where e: "upload_start H r0 w1" "entered show_uuid hdr u w name r0 w1"
    and v: "receiving H r0 w1 (body_of xs) r w2"
    using transfer_cases [OF assms(1,3,2) s(1) [unfolded s1 r]] by auto
  note f = receiving_fields [OF v] and g = e(2) [unfolded entered_def]
  have "(hs, w') = (Responded (Text CLIENT_CLOSED (lit ''transfer cancelled'')),
      remove_file (io_remove sio) (rv_staging r)
        (remove_session (rv_id r) (w2\<lparr>mem := session_cancel (rv_session r) (mem w2)\<rparr>)))"
    using s(2) s1 r by (simp add: is_cancelled_def session_ops cell_simps)
  then have h: "hs = Responded (Text CLIENT_CLOSED (lit ''transfer cancelled''))"
    and a: "as_sessions (app w') u = None"
    and d: "fs w' = (if io_remove sio then disk_remove (rv_staging r) (stored r0 w1 (body_of xs)) else stored r0 w1 (body_of xs))"
    using f g by (auto simp: remove_file_def remove_session_def)
  have "disk_read q (fs w') = disk_read q (fs w)" if "components q \<noteq> components (rv_staging r0)" for q
    using d f that g stored_read(4) [OF e(1) that] by (simp add: disk_remove_read)
  with h a d f g show ?thesis by (auto simp: disk_remove_read)
qed

theorem cancelled_upload_witness:
  "\<exists>w'. receive_transfer toy_hash sample_show open_fine 0 7 (sample_headers 3 None)
      ([Data [1] io_fine] @ [Control Cancel, Data [2] io_fine]) (sample_world empty_disk)
      = Some (Responded (Text CLIENT_CLOSED (lit ''transfer cancelled'')), w')
    \<and> disk_read (staging_of sample_show sample_paths 7) (fs w') = None"
proof -
  let ?h = "sample_headers 3 None" and ?w = "sample_world empty_disk"
  let ?xs = "[Data [1] io_fine] @ [Control Cancel, Data [2] io_fine]"
  obtain r w1 where t: "entered sample_show ?h 7 ?w (lit ''a.txt'') r w1"
    "receive_begin toy_hash sample_show open_fine 0 7 ?h ?w = (Receiving r, w1)"
    using plain_transfer [OF sample_show_text toy_hash_law sample_world_ok sample_request [of 3 None], where now = 0 and u = 7]
    by blast
  have "\<not> is_cancelled (rv_session r) (mem w1)" "\<not> is_paused (rv_session r) (mem w1)"
    using t(1) by (simp_all add: entered_def)
  then have "\<exists>hs w'. receive_transfer toy_hash sample_show open_fine 0 7 ?h ?xs ?w = Some (hs, w')"
    using t(2) by (simp add: receive_transfer_def write_chunk_def)
  then obtain hs w' where r: "receive_transfer toy_hash sample_show open_fine 0 7 ?h ?xs ?w = Some (hs, w')" by blast
  have p: "as_paths (app ?w) = sample_paths" by (simp add: sample_world_def)
  from cancelled_upload [OF sample_show_text toy_hash_law sample_world_ok r] r p
  show ?thesis by simp
qed

text \<open>C26: the reported progress is right: while an upload runs, \<^verbatim>\<open>GET /status\<close> answers with the resume offset plus
  exactly the bytes received so far (a chunk held back by a pause not yet counted) and the total the
  sender announced.\<close>

theorem progress_is_bytes_received:
  assumes "uuid_text show_uuid" and "digest_law H sha" and "disk_ok (fs w)"
    and "receive_transfer H show_uuid io now u hdr xs w = Some (hs, w')"
    and "hs = Receiving r \<and> held = [] \<or> hs = Waiting r held"
  shows "\<exists>got len. got @ held = body_of xs \<and> Option.bind (hdr (lit ''X-FileDrop-Total-Size'')) parse_u64 = Some len
    \<and> transfer_status u w' = JsonStatus \<lparr>tr_transfer_id = u,
        tr_bytes_received = unwrap_or (parse_resume_offset hdr) 0 + of_nat (length got),
        tr_total_bytes = len,
        tr_status = (if is_paused (rv_session r) (mem w') then Paused else InProgress)\<rparr>"
proof -
  obtain name r0 w1 where e: "upload_start H r0 w1" "entered show_uuid hdr u w name r0 w1"
    and s: "handler_state H sha r0 w1 (body_of xs) (hs, w')"
    using transfer_cases [OF assms(1,3,2,4)] assms(5) by (auto simp: status_codes)
  obtain got where v: "got @ held = body_of xs" "receiving H r0 w1 got r w'" using s assms(5) by auto
  note f = receiving_fields [OF v(2)] and g = e(2) [unfolded entered_def]
  have "as_sessions (app w') u = Some (rv_session r0)" using f g by (simp add: insert_session_def)
  moreover have "bytes_transferred (rv_session r0) (mem w') = rv_resume r0 + of_nat (length got)"
    using v(2) by (simp add: receiving_def)
  ultimately show ?thesis using v(1) f g by (auto simp: transfer_status_def request_ok_def)
qed

theorem progress_is_bytes_received_witness:
  "\<exists>hs w'. receive_transfer toy_hash sample_show open_fine 0 7 (sample_headers 3 None) [Data [1, 2] io_fine]
      (sample_world empty_disk) = Some (hs, w')
    \<and> (\<exists>st. transfer_status 7 w' = JsonStatus \<lparr>tr_transfer_id = 7, tr_bytes_received = 2, tr_total_bytes = 3, tr_status = st\<rparr>)"
proof -
  let ?h = "sample_headers 3 None" and ?w = "sample_world empty_disk"
  obtain r w1 where t: "entered sample_show ?h 7 ?w (lit ''a.txt'') r w1"
    "receive_begin toy_hash sample_show open_fine 0 7 ?h ?w = (Receiving r, w1)"
    using plain_transfer [OF sample_show_text toy_hash_law sample_world_ok sample_request [of 3 None], where now = 0 and u = 7]
    by blast
  have "\<not> is_cancelled (rv_session r) (mem w1)" "\<not> is_paused (rv_session r) (mem w1)"
    using t(1) by (simp_all add: entered_def)
  then have "\<exists>r' w'. receive_transfer toy_hash sample_show open_fine 0 7 ?h [Data [1, 2] io_fine] ?w = Some (Receiving r', w')"
    using t(2) by (simp add: receive_transfer_def write_chunk_def)
  then obtain r' w' where
    r: "receive_transfer toy_hash sample_show open_fine 0 7 ?h [Data [1, 2] io_fine] ?w = Some (Receiving r', w')" by blast
  have p: "unwrap_or (parse_resume_offset ?h) 0 = 0" by (simp add: parse_resume_offset_def unwrap_or_def)
  have q: "Option.bind (?h (lit ''X-FileDrop-Total-Size'')) parse_u64 = Some 3" by (simp add: parse_u64_to_string)
  have e: "Receiving r' = Receiving r' \<and> [] = [] \<or> Receiving r' = Waiting r' []" by simp
  from progress_is_bytes_received [OF sample_show_text toy_hash_law sample_world_ok r e] r p q show ?thesis by auto
qed

definition ascii_headers :: "headers \<Rightarrow> bool" where
  "ascii_headers hdr \<longleftrightarrow> (\<forall>n v. hdr n = Some v \<longrightarrow> ascii v)"

text \<open>C28: requests that are refused: with ASCII header texts (all the HTTP library passes on) the handler never
  panics, and it answers 400 before touching anything exactly when the file name is missing or the
  size is missing or not a number.\<close>

theorem refused_upload:
  assumes "uuid_text show_uuid" and "ascii_headers hdr"
  shows "fst (receive_begin H show_uuid io now u hdr w) \<noteq> Panicked
    \<and> ((\<exists>m. receive_begin H show_uuid io now u hdr w = (Responded (Text BAD_REQUEST m), w)) \<longleftrightarrow>
        hdr (lit ''X-FileDrop-Filename'') = None
        \<or> Option.bind (hdr (lit ''X-FileDrop-Total-Size'')) parse_u64 = None)"
proof (cases "\<exists>name len. request_ok hdr name len")
  case True
  then obtain name len where ok: "request_ok hdr name len" by blast
  then have "hdr (lit ''X-FileDrop-Filename'') \<noteq> None"
    "Option.bind (hdr (lit ''X-FileDrop-Total-Size'')) parse_u64 \<noteq> None"
    by (auto simp: request_ok_def bind_eq_Some_conv)
  moreover have "fst (receive_begin H show_uuid io now u hdr w) \<noteq> Panicked"
    "fst (receive_begin H show_uuid io now u hdr w) \<noteq> Responded (Text BAD_REQUEST m)" for m
    unfolding receive_begin_ok [OF assms(1) ok] receive_open_def
    by (auto simp: Let_def status_codes split: option.splits prod.splits)
  ultimately show ?thesis by (metis fst_conv)
next
  case False
  have "hdr (lit ''X-FileDrop-Filename'') = None \<or> Option.bind (hdr (lit ''X-FileDrop-Total-Size'')) parse_u64 = None"
  proof (rule ccontr)
    assume "\<not> ?thesis"
    then obtain raw len where r: "hdr (lit ''X-FileDrop-Filename'') = Some raw"
      "Option.bind (hdr (lit ''X-FileDrop-Total-Size'')) parse_u64 = Some len" by auto
    then have "ascii raw" using assms(2) by (simp add: ascii_headers_def)
    then obtain name where "sanitize_filename raw = Some name" using sanitize_ascii_total by blast
    with r False show False by (auto simp: request_ok_def)
  qed
  with receive_begin_not_ok [OF assms(1) False, of H io now u w] show ?thesis by auto
qed

theorem refused_upload_witness:
  "fst (receive_begin toy_hash sample_show open_fine 0 7 (sample_headers 3 None) (sample_world empty_disk)) \<noteq> Panicked"
proof -
  have "ascii (lit ''a.txt'')" and "ascii (u64_to_string (of_nat 3))" and "ascii (hex_encode (toy_sha [1, 2, 3]))"
    using nat_to_string_ascii hex_encode_lower
    by (fastforce simp: ascii_def text_defs u64_to_string_def is_lower_hex_def is_ascii_digit_def)+
  then have "ascii_headers (sample_headers 3 None)" by (auto simp: ascii_headers_def sample_headers_def)
  from refused_upload [OF sample_show_text this] show ?thesis by blast
qed



section \<open>Corners of the code\<close>

text \<open>An upload that stops short is answered 206 "resumable", its bytes stay in the partial file, but the session
  is gone: the status request a sender would ask the offset with is answered 404.\<close>

lemma partial_upload_forgotten:
  assumes "uuid_text show_uuid" and "digest_law H sha" and "disk_ok (fs w)" and "request_ok hdr name len"
    and "parse_resume_offset hdr = None" and "of_nat (length (concat cs)) \<noteq> len"
  shows "\<exists>m w'. receive_transfer H show_uuid open_fine now u hdr (plain_upload cs) w
      = Some (Responded (Text PARTIAL_CONTENT m), w')
    \<and> disk_read (staging_of show_uuid (as_paths (app w)) u) (fs w') = Some (concat cs)
    \<and> transfer_status u w' = Text NOT_FOUND (lit ''unknown transfer'')"
proof -
  obtain r w1 resp w' where t: "upload_start H r w1" "entered show_uuid hdr u w name r w1" "rv_total r = len"
    "receive_transfer H show_uuid open_fine now u hdr (plain_upload cs) w = Some (Responded resp, w')"
    "(resp, fs w') = plain_answer sha r w1 (concat cs)" "app w' = forgotten r w1"
    using plain_transfer [OF assms(1-4)] by blast
  have o: "rv_resume r = 0" using t(2) assms(5) by (simp add: entered_def unwrap_or_def)
  then have "\<not> whole r (concat cs)" using t(3) assms(6) by (simp add: whole_def)
  then have "\<exists>m. resp = Text PARTIAL_CONTENT m" and "fs w' = stored r w1 (concat cs)"
    using t(5) by (simp_all add: plain_answer_def)
  moreover have "stored_content r w1 (concat cs) = concat cs"
    using o t(1) by (simp add: upload_start_def stored_content_def patch_def)
  ultimately show ?thesis using t(2,4,6) stored_read(3) [OF t(1)] forgotten_entered [OF t(2)]
    by (auto simp: entered_def transfer_status_def)
qed

text \<open>If flushing or renaming fails, the answer is 500 and the session stays in the map for good, reported as in
  progress.\<close>

lemma late_error_keeps_session:
  assumes "io_flush io = Some e"
  shows "recv_step H show_uuid (EndOfBody io) (Receiving r, w) = Some (Responded (Text INTERNAL_SERVER_ERROR e), w)"
  using assms by (simp add: receive_end_def)

lemma rename_error_keeps_session:
  assumes "io_flush io = None" and "io_rename io = Some e" and "rv_written r = rv_total r" and "rv_expected r = None"
  shows "recv_step H show_uuid (EndOfBody io) (Receiving r, w) = Some (Responded (Text INTERNAL_SERVER_ERROR e), w)"
  using assms by (simp add: receive_end_def verify_and_rename_def rename_into_place_def)

text \<open>A cancellation is not seen while the loop sleeps in a pause, nor after the last chunk.\<close>

lemma cancel_ignored_while_paused:
  assumes "is_paused (rv_session r) (mem w)"
  shows "recv_run H show_uuid [Control Cancel, Slept io] (Waiting r chunk, w)
    = Some (Waiting r chunk, w\<lparr>mem := session_cancel (rv_session r) (mem w)\<rparr>)"
  using assms by (simp add: is_paused_def session_ops cell_simps)

lemma cancel_ignored_at_the_end:
  "recv_run H show_uuid [Control Cancel, EndOfBody io] (Receiving r, w)
    = recv_run H show_uuid [EndOfBody io] (Receiving r, w\<lparr>mem := session_cancel (rv_session r) (mem w)\<rparr>)"
  by simp

end
