(* ===== verification/Client.thy ===== *)
theory Client
  imports Server
begin

text \<open>
  \<^verbatim>\<open>filedrop-core/src/transfer/client.rs\<close>: sending a file. What the operating system answers is the record
  \<open>send_io\<close>; the HTTP client is the parameter \<open>net\<close>: for the request it is given, how many pieces of the
  body it pulled and how the exchange ended (\<open>Inl\<close> the error text, \<open>Inr\<close> a status and the text of the
  response body, if that could be read). \<open>pieces\<close> is how the reads cut the file.
\<close>

definition CHUNK_SIZE :: nat where
  "CHUNK_SIZE = 1024 * 1024"

record SendOptions =
  resume_from :: u64
  verify_checksum :: bool

definition SendOptions_default :: SendOptions where
  "SendOptions_default = \<lparr>resume_from = 0, verify_checksum = True\<rparr>"

record http_request =
  rq_url :: rstring
  rq_headers :: "(rstring \<times> rstring) list"
  rq_body :: "byte list list"

type_synonym network = "http_request \<Rightarrow> nat \<times> (rstring + nat \<times> rstring option)"

record send_io =
  si_meta :: "rstring option"
  si_hash :: "(nat \<times> rstring) option"
  si_open :: "rstring option"
  si_seek :: "rstring option"

definition send_fine :: send_io where
  "send_fine = \<lparr>si_meta = None, si_hash = None, si_open = None, si_seek = None\<rparr>"

text \<open>The reads of the body stream: non-empty, at most the chunk size, and together all that is left.\<close>

definition reads_in_chunks :: "(byte list \<Rightarrow> byte list list) \<Rightarrow> bool" where
  "reads_in_chunks pieces \<longleftrightarrow>
     (\<forall>c. concat (pieces c) = c \<and> list_all (\<lambda>b. b \<noteq> [] \<and> length b \<le> CHUNK_SIZE) (pieces c))"

text \<open>\<^verbatim>\<open>ProgressReader::poll_read\<close>, for a read that is ready: what was read is counted.\<close>

definition progress_read :: "TransferSession \<Rightarrow> byte list \<Rightarrow> heap \<Rightarrow> heap" where
  "progress_read session got h = (if length got > 0 then add_bytes (of_nat (length got)) session h else h)"

definition saturating_sub :: "u64 \<Rightarrow> u64 \<Rightarrow> u64" where
  "saturating_sub a b = (if a < b then 0 else a - b)"

definition sent_name :: "rstring \<Rightarrow> rstring" where
  "sent_name path = unwrap_or (path_file_name path) (lit ''unnamed_file'')"

definition content_range :: "u64 \<Rightarrow> u64 \<Rightarrow> rstring" where
  "content_range from total_size =
     lit ''bytes '' @ u64_to_string from @ lit ''-'' @ u64_to_string (saturating_sub total_size 1) @ lit ''/'' @ u64_to_string total_size"

definition send_request ::
  "(uuid \<Rightarrow> rstring) \<Rightarrow> rstring \<Rightarrow> uuid \<Rightarrow> rstring \<Rightarrow> u64 \<Rightarrow> rstring option \<Rightarrow> u64 \<Rightarrow> byte list list \<Rightarrow> http_request" where
  "send_request show_uuid addr transfer_id file_name total_size checksum from body =
     \<lparr>rq_url = lit ''http://'' @ addr @ lit ''/api/v1/transfer/'' @ show_uuid transfer_id,
      rq_headers =
        [(lit ''X-FileDrop-Filename'', file_name), (lit ''X-FileDrop-Total-Size'', u64_to_string total_size)]
        @ (case checksum of Some hash \<Rightarrow> [(lit ''X-FileDrop-Sha256'', hash)] | None \<Rightarrow> [])
        @ (if from > 0 then [(lit ''Content-Range'', content_range from total_size)] else []),
      rq_body = body\<rparr>"

text \<open>\<^verbatim>\<open>StatusCode::is_success\<close>; \<open>show_status\<close> is its \<^verbatim>\<open>Display\<close>.\<close>

definition is_success :: "nat \<Rightarrow> bool" where
  "is_success status \<longleftrightarrow> 200 \<le> status \<and> status < 300"

definition send_result :: "(nat \<Rightarrow> rstring) \<Rightarrow> rstring + nat \<times> rstring option \<Rightarrow> unit result" where
  "send_result show_status answer =
     (case answer of
        Inl e \<Rightarrow> Inl (Network (lit ''send failed: '' @ e))
      | Inr (status, text) \<Rightarrow>
          if \<not> is_success status then
            Inl (Network (lit ''receiver rejected transfer ('' @ show_status status @ lit ''): '' @ unwrap_or text []))
          else Inr ())"

text \<open>The first fallible steps of \<^verbatim>\<open>send_file\<close>, each ending it on an error: the size, the checksum, the open
  file at its offset. The content is the file's; \<open>None\<close> is a read of the hash still outstanding.\<close>

definition open_to_send ::
  "'h hash_api \<Rightarrow> SendOptions \<Rightarrow> send_io \<Rightarrow> rstring \<Rightarrow> disk \<Rightarrow> (u64 \<times> rstring option \<times> byte list) result option" where
  "open_to_send H opts io file_path d =
     (case si_meta io of
        Some e \<Rightarrow> Some (Inl (Io e))
      | None \<Rightarrow>
     (case disk_read file_path d of
        None \<Rightarrow> Some (Inl (Io ENOENT))
      | Some content \<Rightarrow>
     map_option
       (\<lambda>hashed. and_then hashed
         (\<lambda>checksum.
            case si_open io of
              Some e \<Rightarrow> Inl (Io e)
            | None \<Rightarrow>
                (case (if resume_from opts > 0 then si_seek io else None) of
                   Some e \<Rightarrow> Inl (Io e)
                 | None \<Rightarrow> Inr (of_nat (length content), checksum, drop (unat (resume_from opts)) content))))
       (if verify_checksum opts then map_option (map_ok Some) (hash_of_file H (si_hash io) file_path d)
        else Some (Inr None))))"

definition send_file ::
  "'h hash_api \<Rightarrow> (uuid \<Rightarrow> rstring) \<Rightarrow> (nat \<Rightarrow> rstring) \<Rightarrow> (byte list \<Rightarrow> byte list list) \<Rightarrow> network \<Rightarrow> send_io \<Rightarrow>
   rstring \<Rightarrow> uuid \<Rightarrow> rstring \<Rightarrow> TransferSession \<Rightarrow> SendOptions \<Rightarrow> disk \<Rightarrow> heap \<Rightarrow> (unit result \<times> heap) option" where
  "send_file H show_uuid show_status pieces net io receiver_addr transfer_id file_path session opts d h =
     map_option
       (\<lambda>opened.
          case opened of
            Inl e \<Rightarrow> (Inl e, h)
          | Inr (total_size, checksum, rest) \<Rightarrow>
              (let request = send_request show_uuid receiver_addr transfer_id (sent_name file_path) total_size checksum
                               (resume_from opts) (pieces rest);
                   (pulled, answer) = net request
               in (send_result show_status answer, fold (progress_read session) (take pulled (rq_body request)) h)))
       (open_to_send H opts io file_path d)"

section \<open>Counting\<close>

lemma progress_reads:
  "bytes_transferred session (fold (progress_read session) ps h)
    = bytes_transferred session h + of_nat (length (concat ps))"
  by (induction ps arbitrary: h)
    (simp_all add: progress_read_def bytes_transferred_def add_bytes_def cell_simps add.assoc)

lemma progress_reads_flags:
  "is_paused t (fold (progress_read session) ps h) = is_paused t h"
  "is_cancelled t (fold (progress_read session) ps h) = is_cancelled t h"
  by (induction ps arbitrary: h)
    (simp_all add: progress_read_def is_paused_def is_cancelled_def add_bytes_def cell_simps)

lemma cut_concat: "reads_in_chunks pieces \<Longrightarrow> concat (pieces c) = c"
  by (simp add: reads_in_chunks_def)

lemma open_to_send_fine:
  assumes "digest_law H sha" and "disk_read file_path d = Some content"
  shows "open_to_send H opts send_fine file_path d =
    Some (Inr (of_nat (length content), if verify_checksum opts then Some (hex_encode (sha content)) else None,
      drop (unat (resume_from opts)) content))"
proof -
  have "hash_of_file H None file_path d = Some (Inr (hex_encode (sha content)))"
    using assms(2) sha256_file_healthy [OF assms(1) reads_of_buffer] by (simp add: hash_of_file_def)
  with assms(2) show ?thesis by (simp add: open_to_send_def send_fine_def)
qed

section \<open>Properties\<close>


text \<open>Reads of one byte each, a file of three, and a network that answers everything with 404.\<close>

definition byte_reads :: "byte list \<Rightarrow> byte list list" where
  "byte_reads c = map (\<lambda>b. [b]) c"

definition abc_disk :: disk where
  "abc_disk = \<lparr>names = [components (lit ''/home/a.txt'') \<mapsto> 0], contents = (\<lambda>_. [1, 2, 3]), next_file = 1, dirs = {}\<rparr>"

definition abc_session :: TransferSession where
  "abc_session = \<lparr>ts_id = 7, ts_file_name = lit ''a.txt'', ts_total_bytes = 3, ts_direction = Send, ts_cell = 0,
     ts_started_at = 0\<rparr>"

lemma abc_facts: "disk_read (lit ''/home/a.txt'') abc_disk = Some [1, 2, 3]" "reads_in_chunks byte_reads"
proof -
  show "disk_read (lit ''/home/a.txt'') abc_disk = Some [1, 2, 3]" by (simp add: disk_read_def abc_disk_def)
  have "concat (byte_reads c) = c \<and> list_all (\<lambda>b. b \<noteq> [] \<and> length b \<le> CHUNK_SIZE) (byte_reads c)" for c
    by (induction c) (simp_all add: byte_reads_def CHUNK_SIZE_def)
  then show "reads_in_chunks byte_reads" by (simp add: reads_in_chunks_def)
qed


end
