(* ===== verification/End_To_End.thy ===== *)
theory End_To_End
  imports Receive Client
begin

text \<open>
  Client and server together: a request of \<open>Client.send_file\<close>, carried over HTTP with its headers as texts, handled
  by the upload handler of \<open>Server\<close>.
\<close>

section \<open>Sending to the server\<close>

text \<open>What the HTTP libraries on both sides do to header texts: a text of visible ASCII arrives, a name that was
  not sent is absent.\<close>

definition visible :: "rstring \<Rightarrow> bool" where
  "visible v \<longleftrightarrow> list_all (\<lambda>c. 32 \<le> c \<and> c < 127) v"

definition wire_law :: "((rstring \<times> rstring) list \<Rightarrow> headers) \<Rightarrow> bool" where
  "wire_law wire \<longleftrightarrow>
     (\<forall>hs n v. map_of hs n = Some v \<longrightarrow> visible v \<longrightarrow> wire hs n = Some v)
     \<and> (\<forall>hs n. map_of hs n = None \<longrightarrow> wire hs n = None)"

text \<open>The headers of a sent request, as the server reads them.\<close>

lemma visible_texts:
  "visible (u64_to_string n)" "visible (hex_encode bs)" "visible a \<Longrightarrow> visible b \<Longrightarrow> visible (a @ b)"
  using nat_to_string_ascii hex_encode_lower
  by (fastforce simp: visible_def u64_to_string_def list_all_iff is_lower_hex_def is_ascii_digit_def)+

lemma visible_range: "visible (content_range from len)"
  unfolding content_range_def by (intro visible_texts) (simp_all add: visible_def lit_def)

lemma sent_headers:
  assumes "wire_law wire" and "visible name"
    and "hdr = wire (rq_headers (send_request show_uuid addr u name len (Some (hex_encode bs)) from body))"
  shows "hdr (lit ''X-FileDrop-Filename'') = Some name" "hdr (lit ''X-FileDrop-Total-Size'') = Some (u64_to_string len)"
    "hdr (lit ''X-FileDrop-Sha256'') = Some (hex_encode bs)"
    "hdr (lit ''Content-Range'') = (if from > 0 then Some (content_range from len) else None)"
  using assms visible_texts(1) [of len] visible_texts(2) [of bs] visible_range [of "from" len]
  by (simp_all add: wire_law_def send_request_def lit_def)

lemma sent_request_ok:
  assumes "wire_law wire" and "visible name" and "sanitize_filename name = Some safe"
  shows "request_ok (wire (rq_headers (send_request show_uuid addr u name len (Some (hex_encode bs)) from body))) safe len"
  using sent_headers [OF assms(1,2) refl] assms(3) by (simp add: request_ok_def parse_u64_to_string)

lemma sent_offset:
  assumes "wire_law wire" and "visible name"
  shows "parse_resume_offset (wire (rq_headers (send_request show_uuid addr u name len (Some (hex_encode bs)) from body)))
    = (if from > 0 then Some from else None)"
proof (cases "from > 0")
  case True
  have "content_range from len
      = lit ''bytes '' @ u64_to_string from @ 45 # u64_to_string (saturating_sub len 1) @ lit ''/'' @ u64_to_string len"
    by (simp add: content_range_def lit_def)
  with True sent_headers(4) [OF assms refl] show ?thesis by (simp only: parse_resume_offset_range if_True)
next
  case False
  with sent_headers(4) [OF assms refl] show ?thesis by (simp add: parse_resume_offset_def)
qed

lemma visible_ascii: "visible v \<Longrightarrow> ascii v"
  by (auto simp: visible_def ascii_def list_all_iff)

text \<open>C1: end to end: a file sent (from an offset at which the receiver already holds the file's beginning, or from
  the start) arrives: the request \<^verbatim>\<open>send_file\<close> makes, carried over HTTP in any chunks, is accepted by the
  server's handler, which leaves the whole file, verified, under the sanitized name, removes the
  partial file, and answers so that \<^verbatim>\<open>send_file\<close> returns success with every byte counted.\<close>

theorem send_then_receive:
  assumes "uuid_text show_uuid" and "digest_law H sha" and "wire_law wire" and "reads_in_chunks pieces"
    and "disk_read file_path d = Some content" and "length content < 2 ^ 64" and "visible (sent_name file_path)"
    and "disk_ok (fs w)" and "verify_checksum opts"
    and "unat (resume_from opts) \<le> length content"
    and "resume_from opts > 0 \<longrightarrow>
      disk_read (staging_of show_uuid (as_paths (app w)) u) (fs w) = Some (take (unat (resume_from opts)) content)"
    and "net = (\<lambda>request. case receive_transfer H show_uuid open_fine now u (wire (rq_headers request))
        (plain_upload (rechunk (rq_body request))) w of
          Some (Responded (Text status text), w') \<Rightarrow> (length (rq_body request), Inr (status, Some text))
        | _ \<Rightarrow> (0, Inl []))"
    and "\<forall>cs. concat (rechunk cs) = concat cs"
  shows "let request = send_request show_uuid addr u (sent_name file_path) (of_nat (length content))
      (Some (hex_encode (sha content))) (resume_from opts) (pieces (drop (unat (resume_from opts)) content))
    in \<exists>name h' w'. sanitize_filename (sent_name file_path) = Some name
      \<and> send_file H show_uuid show_status pieces net send_fine addr u file_path session opts d h = Some (Inr (), h')
      \<and> bytes_transferred session h' = bytes_transferred session h + of_nat (length content) - resume_from opts
      \<and> receive_transfer H show_uuid open_fine now u (wire (rq_headers request)) (plain_upload (rechunk (rq_body request))) w
          = Some (Responded (Text OK (lit ''transfer complete'')), w')
      \<and> disk_read (final_of (as_paths (app w)) name) (fs w') = Some content
      \<and> disk_read (staging_of show_uuid (as_paths (app w)) u) (fs w') = None"
proof -
  obtain name where name: "sanitize_filename (sent_name file_path) = Some name"
    using sanitize_ascii_total [OF visible_ascii [OF assms(7)]] by blast
  let ?rest = "drop (unat (resume_from opts)) content"
  let ?rq = "send_request show_uuid addr u (sent_name file_path) (of_nat (length content)) (Some (hex_encode (sha content)))
    (resume_from opts) (pieces ?rest)"
  let ?hdr = "wire (rq_headers ?rq)"
  have body: "concat (rechunk (rq_body ?rq)) = ?rest" using assms(13) assms(4) by (simp add: send_request_def cut_concat)
  have ok: "request_ok ?hdr name (of_nat (length content))" by (rule sent_request_ok [OF assms(3,7) name])
  obtain r w1 resp w' where t: "upload_start H r w1" "entered show_uuid ?hdr u w name r w1"
    "rv_total r = of_nat (length content)"
    "receive_transfer H show_uuid open_fine now u ?hdr (plain_upload (rechunk (rq_body ?rq))) w = Some (Responded resp, w')"
    "(resp, fs w') = plain_answer sha r w1 (concat (rechunk (rq_body ?rq)))" "app w' = forgotten r w1"
    using plain_transfer [OF assms(1,2,8) ok, where now = now and u = u and cs = "rechunk (rq_body ?rq)"] by blast
  note g = t(2) [unfolded entered_def]
  have o: "rv_resume r = resume_from opts" "rv_expected r = Some (hex_encode (sha content))"
    using g sent_offset [OF assms(3,7)] sent_headers(3) [OF assms(3,7) refl]
    by (auto simp: unwrap_or_def word_gt_0)
  have "contents (fs w1) (rv_file r) = take (unat (resume_from opts)) content"
    using g o assms(11) by (auto simp: old_part_def word_gt_0)
  then have c: "stored_content r w1 ?rest = content"
    using assms(10) o patch_append_end [of "take (unat (resume_from opts)) content" ?rest] by (simp add: stored_content_def)
  have n: "resume_from opts + of_nat (length ?rest) = of_nat (length content)"
    using assms(10) by (simp add: of_nat_diff)
  have "whole r ?rest" and "verified sha r w1 ?rest"
    using t(3) o n c by (simp_all add: whole_def verified_def)
  from plain_accepted [OF t(1) t(5) [unfolded body] t(6) this] c
  have a: "resp = Text OK (lit ''transfer complete'')" "disk_read (rv_final r) (fs w') = Some content"
    "disk_read (rv_staging r) (fs w') = None" by simp_all
  have net: "net ?rq = (length (rq_body ?rq), Inr (OK, Some (lit ''transfer complete'')))"
    using t(4) a(1) assms(12) by simp
  then have s: "send_file H show_uuid show_status pieces net send_fine addr u file_path session opts d h
      = Some (Inr (), fold (progress_read session) (rq_body ?rq) h)"
    using assms(9) by (simp add: send_file_def open_to_send_fine [OF assms(2,5)] send_result_def is_success_def status_codes)
  have b: "bytes_transferred session (fold (progress_read session) (rq_body ?rq) h)
      = bytes_transferred session h + of_nat (length content) - resume_from opts"
    using assms(4) n by (simp add: progress_reads send_request_def cut_concat) (simp flip: n)
  have f: "disk_read (final_of (as_paths (app w)) name) (fs w') = Some content"
    "disk_read (staging_of show_uuid (as_paths (app w)) u) (fs w') = None" using a g by simp_all
  show ?thesis unfolding Let_def
    by (rule exI [of _ name], rule exI [of _ "fold (progress_read session) (rq_body ?rq) h"], rule exI [of _ w'],
        intro conjI name s b f t(4) [unfolded a(1)])
qed

text \<open>The network that carries a request to the sample server.\<close>

definition sample_net :: network where
  "sample_net = (\<lambda>request. case receive_transfer toy_hash sample_show open_fine 0 7 (map_of (rq_headers request))
        (plain_upload (id (rq_body request))) (sample_world empty_disk) of
          Some (Responded (Text status text), w') \<Rightarrow> (length (rq_body request), Inr (status, Some text))
        | _ \<Rightarrow> (0, Inl []))"

theorem send_then_receive_witness:
  "\<exists>h'. send_file toy_hash sample_show nat_to_string byte_reads sample_net send_fine (lit ''10.0.0.2:8080'') 7
      (lit ''/home/a.txt'') abc_session SendOptions_default abc_disk sample_heap = Some (Inr (), h')
    \<and> bytes_transferred abc_session h' = 3"
proof -
  have w: "wire_law map_of" by (simp add: wire_law_def)
  have "path_file_name (lit ''/home/a.txt'') = Some (lit ''a.txt'')"
    by (simp add: path_file_name_def text_defs)
  then have v: "visible (sent_name (lit ''/home/a.txt''))" by (simp add: sent_name_def visible_def lit_def)
  have o: "verify_checksum SendOptions_default" "unat (resume_from SendOptions_default) \<le> length [1, 2, 3 :: byte]"
    "resume_from SendOptions_default > 0 \<longrightarrow> disk_read (staging_of sample_show (as_paths (app (sample_world empty_disk))) 7)
      (fs (sample_world empty_disk)) = Some (take (unat (resume_from SendOptions_default)) [1, 2, 3])"
    "length [1, 2, 3 :: byte] < 2 ^ 64" "\<forall>cs. concat (id cs) = concat cs"
    by (simp_all add: SendOptions_default_def)
  have b: "bytes_transferred abc_session sample_heap = 0"
    by (simp add: bytes_transferred_def cell_of_def abc_session_def sample_heap_def)
  note send_then_receive [OF sample_show_text toy_hash_law w abc_facts(2,1) o(4) v sample_world_ok o(1,2,3)
      sample_net_def o(5), where show_status = nat_to_string and addr = "lit ''10.0.0.2:8080''"
        and session = abc_session and h = sample_heap]
  then show ?thesis using b by (auto simp: Let_def SendOptions_default_def)
qed

end
