(* ===== verification/Networking.thy ===== *)
theory Networking
  imports Errors Rust_Path
begin

text \<open>
  \<^verbatim>\<open>filedrop-core/src/networking\<close>: addresses of this device (\<^verbatim>\<open>local_iface.rs\<close>), connection modes
  (\<^verbatim>\<open>mode.rs\<close>) and the choice of a port (\<^verbatim>\<open>resolve.rs\<close>). What sockets and the interface list answer are
  arguments.
\<close>

section \<open>Addresses\<close>

datatype ip_addr = V4 byte byte byte byte | V6 "128 word"

text \<open>\<^verbatim>\<open>Display\<close> and \<^verbatim>\<open>FromStr\<close> of an IPv4 address: four decimal octets, no leading zeros.\<close>

definition show_octet :: "byte \<Rightarrow> rstring" where
  "show_octet b = nat_to_string (unat b)"

definition show_ipv4 :: "byte \<Rightarrow> byte \<Rightarrow> byte \<Rightarrow> byte \<Rightarrow> rstring" where
  "show_ipv4 a b c d = show_octet a @ 46 # show_octet b @ 46 # show_octet c @ 46 # show_octet d"

definition parse_octet :: "rstring \<Rightarrow> byte option" where
  "parse_octet s =
     (if s \<noteq> [] \<and> length s \<le> 3 \<and> list_all is_ascii_digit s \<and> (hd s = 48 \<longrightarrow> s = [48]) \<and> digits_value s < 256
      then Some (of_nat (digits_value s)) else None)"

definition parse_ipv4 :: "rstring \<Rightarrow> ip_addr option" where
  "parse_ipv4 s =
     (case map parse_octet (str_split (\<lambda>c. c = 46) s) of
        [Some a, Some b, Some c, Some d] \<Rightarrow> Some (V4 a b c d)
      | _ \<Rightarrow> None)"

text \<open>\<^verbatim>\<open>IpAddr\<close>: the IPv6 text syntax is the parameter \<open>parse_v6\<close>.\<close>

definition parse_ip :: "(rstring \<Rightarrow> 128 word option) \<Rightarrow> rstring \<Rightarrow> ip_addr option" where
  "parse_ip parse_v6 s = (case parse_ipv4 s of Some a \<Rightarrow> Some a | None \<Rightarrow> map_option V6 (parse_v6 s))"

definition show_ip :: "(128 word \<Rightarrow> rstring) \<Rightarrow> ip_addr \<Rightarrow> rstring" where
  "show_ip show_v6 a = (case a of V4 a b c d \<Rightarrow> show_ipv4 a b c d | V6 w \<Rightarrow> show_v6 w)"

record socket_addr =
  sa_ip :: ip_addr
  sa_port :: u16

section \<open>Interfaces\<close>

text \<open>\<^verbatim>\<open>?\<close> on an I/O error.\<close>

definition io_err :: "rstring + 'a \<Rightarrow> 'a result" where
  "io_err r = map_err Io r"

definition local_ipv4_addresses ::
  "rstring + unit \<Rightarrow> rstring + unit \<Rightarrow> rstring + socket_addr \<Rightarrow> ip_addr list result" where
  "local_ipv4_addresses bound connected local_addr =
     and_then (io_err bound)
       (\<lambda>_. case connected of
              Inr _ \<Rightarrow> and_then (io_err local_addr) (\<lambda>a. Inr [sa_ip a])
            | Inl _ \<Rightarrow> Inr [])"

definition is_private_ipv4 :: "byte \<Rightarrow> byte \<Rightarrow> byte \<Rightarrow> byte \<Rightarrow> bool" where
  "is_private_ipv4 a b c d =
     (if a = 10 then True
      else if a = 172 then 16 \<le> b \<and> b \<le> 31
      else if a = 192 then b = 168
      else False)"

record interface =
  if_loopback :: bool
  if_ip :: ip_addr

fun first_private :: "interface list \<Rightarrow> ip_addr option" where
  "first_private [] = None"
| "first_private (iface # rest) =
     (if if_loopback iface then first_private rest
      else (case if_ip iface of
              V4 a b c d \<Rightarrow> if is_private_ipv4 a b c d then Some (V4 a b c d) else first_private rest
            | V6 _ \<Rightarrow> first_private rest))"

definition usable_lan_ipv4 :: "rstring + interface list \<Rightarrow> ip_addr option result" where
  "usable_lan_ipv4 interfaces = and_then (io_err interfaces) (\<lambda>l. Inr (first_private l))"

section \<open>Connection modes\<close>

datatype ConnectionMode = ExistingLan | LocalOnlyHotspot | WifiDirect

datatype PlatformDirectCapability =
    Available ConnectionMode
  | RequiresPlatformChannel ConnectionMode rstring
  | Unsupported

definition android_reason :: rstring where
  "android_reason = lit ''Android Wi-Fi Direct requires android.net.wifi.p2p.WifiP2pManager, callable '' @
     lit ''only from Kotlin/Java via a Flutter MethodChannel. TODO(phase5): implement '' @
     lit ''the Kotlin platform-channel handler and have it report link-established '' @
     lit ''IP/port back to Rust over FFI so filedrop-core can start its HTTP server on '' @
     lit ''that interface.''"

definition macos_reason :: rstring where
  "macos_reason = lit ''macOS local-only hotspot / direct Bonjour link requires '' @
     lit ''NEHotspotConfiguration / Network.framework, callable only from '' @
     lit ''Swift/Objective-C via a Flutter platform channel, and requires the '' @
     lit ''Hotspot Configuration entitlement. TODO(phase5): implement the Swift '' @
     lit ''platform-channel handler; mdns-sd discovery (crate::discovery) can run '' @
     lit ''over the resulting link unmodified once it exists.''"

definition windows_reason :: rstring where
  "windows_reason = lit ''Windows direct networking requires the WinRT Windows.Devices.WiFiDirect '' @
     lit ''API. Reachable from Rust via the `windows` crate in principle, but needs a '' @
     lit ''Windows target, appxmanifest capability declarations, and hardware to '' @
     lit ''validate. TODO(phase5): implement using the `windows` crate on a '' @
     lit ''Windows-focused pass.''"

definition linux_reason :: rstring where
  "linux_reason = lit ''Linux ad hoc hotspot AP creation is reachable generically via '' @
     lit ''NetworkManager's D-Bus API (e.g. through the `zbus` crate) without a '' @
     lit ''Flutter platform channel, making it the one 'no router' mode Rust could '' @
     lit ''plausibly own end-to-end. TODO(phase5): implement NetworkManager D-Bus '' @
     lit ''hotspot control in filedrop-core::networking.''"

definition platform_capability :: "rstring \<Rightarrow> PlatformDirectCapability" where
  "platform_capability target_os =
     (if target_os = lit ''android'' then RequiresPlatformChannel WifiDirect android_reason
      else if target_os = lit ''macos'' then RequiresPlatformChannel LocalOnlyHotspot macos_reason
      else if target_os = lit ''windows'' then RequiresPlatformChannel WifiDirect windows_reason
      else if target_os = lit ''linux'' then RequiresPlatformChannel LocalOnlyHotspot linux_reason
      else if target_os = lit ''ios'' then Unsupported
      else Unsupported)"

section \<open>Ports\<close>

definition DEFAULT_PORT :: u16 where
  "DEFAULT_PORT = 53317"

definition PORT_SCAN_RANGE :: "u16 list" where
  "PORT_SCAN_RANGE = map of_nat [53317 ..< 53351]"

record ResolvedEndpoint =
  re_address :: ip_addr
  re_port :: u16

definition endpoint_socket_addr :: "ResolvedEndpoint \<Rightarrow> socket_addr" where
  "endpoint_socket_addr e = \<lparr>sa_ip = re_address e, sa_port = re_port e\<rparr>"

text \<open>\<open>bind_ok\<close>: whether a listener can be bound to the port on all addresses.\<close>

fun scan_ports :: "(u16 \<Rightarrow> bool) \<Rightarrow> u16 list \<Rightarrow> u16 option" where
  "scan_ports bind_ok [] = None"
| "scan_ports bind_ok (port # rest) = (if bind_ok port then Some port else scan_ports bind_ok rest)"

definition pick_server_port :: "(u16 \<Rightarrow> bool) \<Rightarrow> u16 result" where
  "pick_server_port bind_ok =
     (case scan_ports bind_ok PORT_SCAN_RANGE of
        Some port \<Rightarrow> Inr port
      | None \<Rightarrow> Inl (Network (lit ''no free port found in range '' @ nat_to_string 53317 @ lit ''-'' @ nat_to_string 53350)))"

section \<open>Properties\<close>

text \<open>The address as one number, and the RFC 1918 blocks as prefixes of it.\<close>

definition ipv4_value :: "byte \<Rightarrow> byte \<Rightarrow> byte \<Rightarrow> byte \<Rightarrow> nat" where
  "ipv4_value a b c d = ((unat a * 256 + unat b) * 256 + unat c) * 256 + unat d"

definition in_block :: "nat \<Rightarrow> nat \<Rightarrow> nat \<Rightarrow> bool" where
  "in_block n base prefix_len \<longleftrightarrow> n div 2 ^ (32 - prefix_len) = base div 2 ^ (32 - prefix_len)"

lemma ipv4_div:
  "ipv4_value a b c d div 2 ^ 24 = unat a" "ipv4_value a b c d div 2 ^ 16 = unat a * 256 + unat b"
  "ipv4_value a b c d div 2 ^ 20 = (unat a * 256 + unat b) div 16"
proof -
  have l: "unat b < 256" "unat c < 256" "unat d < 256" by (rule byte_bound)+
  show s: "ipv4_value a b c d div 2 ^ 16 = unat a * 256 + unat b" using l by (simp add: ipv4_value_def)
  have t: "n div 2 ^ 24 = n div 2 ^ 16 div 256" "n div 2 ^ 20 = n div 2 ^ 16 div 16" for n :: nat
    by (simp_all add: div_mult2_eq [symmetric])
  show "ipv4_value a b c d div 2 ^ 24 = unat a" unfolding t s using l by simp
  show "ipv4_value a b c d div 2 ^ 20 = (unat a * 256 + unat b) div 16" unfolding t s ..
qed

lemma two_digits:
  assumes "y < k" and "z < (k :: nat)"
  shows "x * k + y = w * k + z \<longleftrightarrow> x = w \<and> y = z"
proof
  assume e: "x * k + y = w * k + z"
  have "(x * k + y) div k = x" "(w * k + z) div k = w" using assms by simp_all
  with e show "x = w \<and> y = z" by auto
qed auto

lemma prefix_16: "y < 256 \<Longrightarrow> x * 256 + y = 192 * 256 + 168 \<longleftrightarrow> x = 192 \<and> y = (168 :: nat)"
  by (rule two_digits) simp_all

lemma prefix_20: "y < 256 \<Longrightarrow> (x * 256 + y) div 16 = (172 * 256 + 16) div 16 \<longleftrightarrow> x = 172 \<and> 16 \<le> y \<and> y \<le> (31 :: nat)"
proof -
  assume y: "y < 256"
  have d: "(x * 256 + y) div 16 = x * 16 + y div 16" by simp
  have "y div 16 < 16" using y by simp
  then have "x * 16 + y div 16 = 172 * 16 + 1 \<longleftrightarrow> x = 172 \<and> y div 16 = 1" by (rule two_digits) simp
  moreover have "y div 16 = 1 \<longleftrightarrow> 16 \<le> y \<and> y \<le> 31" by auto
  ultimately show ?thesis unfolding d by simp
qed

lemma byte_eq: "x = y \<longleftrightarrow> unat x = unat (y :: byte)" and byte_le: "x \<le> y \<longleftrightarrow> unat x \<le> unat (y :: byte)"
  by (simp_all add: word_eq_iff_unsigned word_le_nat_alt)

lemma blocks:
  "in_block (ipv4_value a b c d) (ipv4_value 10 0 0 0) 8 \<longleftrightarrow> a = 10"
  "in_block (ipv4_value a b c d) (ipv4_value 172 16 0 0) 12 \<longleftrightarrow> a = 172 \<and> 16 \<le> b \<and> b \<le> 31"
  "in_block (ipv4_value a b c d) (ipv4_value 192 168 0 0) 16 \<longleftrightarrow> a = 192 \<and> b = 168"
proof -
  have n: "32 - 8 = (24 :: nat)" "32 - 12 = (20 :: nat)" "32 - 16 = (16 :: nat)" by simp_all
  have u: "unat (10 :: byte) = 10" "unat (172 :: byte) = 172" "unat (16 :: byte) = 16" "unat (192 :: byte) = 192"
    "unat (168 :: byte) = 168" "unat (31 :: byte) = 31" by simp_all
  have b: "unat b < 256" by (rule byte_bound)
  show "in_block (ipv4_value a b c d) (ipv4_value 10 0 0 0) 8 \<longleftrightarrow> a = 10"
    by (simp only: in_block_def n ipv4_div byte_eq u)
  show "in_block (ipv4_value a b c d) (ipv4_value 192 168 0 0) 16 \<longleftrightarrow> a = 192 \<and> b = 168"
    by (simp only: in_block_def n ipv4_div byte_eq u prefix_16 [OF b])
  show "in_block (ipv4_value a b c d) (ipv4_value 172 16 0 0) 12 \<longleftrightarrow> a = 172 \<and> 16 \<le> b \<and> b \<le> 31"
    by (simp only: in_block_def n ipv4_div byte_eq byte_le u prefix_20 [OF b])
qed

text \<open>The private-address test is membership in the three RFC 1918 blocks 10.0.0.0/8, 172.16.0.0/12 and
  192.168.0.0/16.\<close>

theorem private_is_rfc1918:
  "is_private_ipv4 a b c d \<longleftrightarrow>
     in_block (ipv4_value a b c d) (ipv4_value 10 0 0 0) 8
     \<or> in_block (ipv4_value a b c d) (ipv4_value 172 16 0 0) 12
     \<or> in_block (ipv4_value a b c d) (ipv4_value 192 168 0 0) 16"
  unfolding blocks is_private_ipv4_def by auto

lemma scan_ports_find: "scan_ports bind_ok ps = find bind_ok ps"
  by (induction ps) simp_all

lemma find_ascending:
  "sorted_wrt (<) (xs :: 'a :: linorder list) \<Longrightarrow>
    find P xs = Some x \<longleftrightarrow> x \<in> set xs \<and> P x \<and> (\<forall>y \<in> set xs. y < x \<longrightarrow> \<not> P y)"
  by (induction xs) auto

lemma of_nat_ports: "n < 2 ^ 16 \<Longrightarrow> unat (of_nat n :: u16) = n"
  by (simp add: unat_of_nat)

lemma ascending_words:
  assumes "n \<le> 2 ^ 16"
  shows "sorted_wrt (<) (map of_nat [m ..< n] :: u16 list)"
proof -
  have "sorted_wrt (\<lambda>x y. (of_nat x :: u16) < of_nat y) [m ..< n]"
    by (rule sorted_wrt_mono_rel [OF _ sorted_wrt_upt]) (use assms in \<open>simp add: word_less_nat_alt of_nat_ports\<close>)
  then show ?thesis by (simp add: sorted_wrt_map)
qed

lemma port_range:
  "sorted_wrt (<) PORT_SCAN_RANGE" "q \<in> set PORT_SCAN_RANGE \<longleftrightarrow> 53317 \<le> q \<and> q \<le> 53350"
proof -
  show "sorted_wrt (<) PORT_SCAN_RANGE" unfolding PORT_SCAN_RANGE_def by (rule ascending_words) simp
  have "q \<in> set PORT_SCAN_RANGE" if "53317 \<le> q" "q \<le> 53350"
  proof -
    have "unat q \<in> {53317 ..< 53351}" using that by (simp add: word_le_nat_alt)
    then have "of_nat (unat q) \<in> set PORT_SCAN_RANGE" unfolding PORT_SCAN_RANGE_def set_map set_upt by (rule imageI)
    then show ?thesis by simp
  qed
  moreover have "53317 \<le> q \<and> q \<le> 53350" if m: "q \<in> set PORT_SCAN_RANGE"
  proof -
    obtain n where n: "q = of_nat n" "n \<in> {53317 ..< 53351}"
      using m unfolding PORT_SCAN_RANGE_def set_map set_upt by blast
    then have n: "q = of_nat n" "53317 \<le> n" "n < 53351" unfolding atLeastLessThan_iff by blast+
    have "unat q = n" unfolding n(1) using n(3) by (intro of_nat_ports) simp
    with n show ?thesis by (simp add: word_le_nat_alt)
  qed
  ultimately show "q \<in> set PORT_SCAN_RANGE \<longleftrightarrow> 53317 \<le> q \<and> q \<le> 53350" by blast
qed

text \<open>The server's port is the lowest of 53317 to 53350 that can be bound, and there is an error only when none
  of the 34 can.\<close>

theorem picks_lowest_free_port:
  "(pick_server_port bind_ok = Inr port \<longleftrightarrow>
      bind_ok port \<and> 53317 \<le> port \<and> port \<le> 53350 \<and> (\<forall>q. 53317 \<le> q \<longrightarrow> q < port \<longrightarrow> \<not> bind_ok q))
   \<and> ((\<exists>e. pick_server_port bind_ok = Inl e) \<longleftrightarrow> (\<forall>q. 53317 \<le> q \<longrightarrow> q \<le> 53350 \<longrightarrow> \<not> bind_ok q))"
proof
  show "pick_server_port bind_ok = Inr port \<longleftrightarrow>
      bind_ok port \<and> 53317 \<le> port \<and> port \<le> 53350 \<and> (\<forall>q. 53317 \<le> q \<longrightarrow> q < port \<longrightarrow> \<not> bind_ok q)"
    using find_ascending [OF port_range(1), of bind_ok port] port_range(2)
    by (auto simp: pick_server_port_def scan_ports_find split: option.splits)
  show "(\<exists>e. pick_server_port bind_ok = Inl e) \<longleftrightarrow> (\<forall>q. 53317 \<le> q \<longrightarrow> q \<le> 53350 \<longrightarrow> \<not> bind_ok q)"
    using find_None_iff [of bind_ok PORT_SCAN_RANGE] port_range(2)
    by (auto simp: pick_server_port_def scan_ports_find split: option.splits)
qed

definition lan_interface :: "interface \<Rightarrow> bool" where
  "lan_interface i \<longleftrightarrow> \<not> if_loopback i \<and> (case if_ip i of V4 a b c d \<Rightarrow> is_private_ipv4 a b c d | V6 _ \<Rightarrow> False)"

lemma first_private_find: "first_private l = map_option if_ip (find lan_interface l)"
  by (induction l rule: first_private.induct) (auto simp: lan_interface_def split: ip_addr.splits)

theorem picks_lowest_free_port_witness:
  "pick_server_port (\<lambda>p. p \<noteq> 53317) = Inr 53318"
proof -
  have "\<forall>q. 53317 \<le> q \<longrightarrow> q < 53318 \<longrightarrow> \<not> q \<noteq> (53317 :: u16)"
  proof (intro allI impI)
    fix q :: u16
    assume "53317 \<le> q" "q < 53318"
    then have "unat q = 53317" by (simp add: word_le_nat_alt word_less_nat_alt)
    then have "unat q = unat (53317 :: u16)" by simp
    then have "q = 53317" by (rule unsigned_word_eqI)
    then show "\<not> q \<noteq> 53317" by simp
  qed
  then show ?thesis using picks_lowest_free_port [of "\<lambda>p. p \<noteq> 53317" 53318] by simp
qed

lemma first_find: "list_all (\<lambda>y. \<not> P y) ys \<Longrightarrow> P x \<Longrightarrow> find P (ys @ x # zs) = Some x"
  by (induction ys) simp_all

lemma find_first: "find P xs = Some x \<Longrightarrow> \<exists>ys zs. xs = ys @ x # zs \<and> P x \<and> list_all (\<lambda>y. \<not> P y) ys"
proof (induction xs)
  case Nil
  then show ?case by simp
next
  case (Cons y xs)
  show ?case
  proof (cases "P y")
    case True
    with Cons.prems show ?thesis by (intro exI [of _ "[]"] exI [of _ xs]) simp
  next
    case False
    with Cons obtain ys zs where "xs = ys @ x # zs \<and> P x \<and> list_all (\<lambda>y. \<not> P y) ys" by auto
    with False show ?thesis by (intro exI [of _ "y # ys"] exI [of _ zs]) simp
  qed
qed

text \<open>The usable LAN address is the address of the first interface that is not a loopback and has a private
  IPv4 address; none is reported exactly when there is no such interface.\<close>

theorem usable_lan_first:
  "(usable_lan_ipv4 (Inr l) = Inr (Some a) \<longleftrightarrow>
      (\<exists>before i after. l = before @ i # after \<and> lan_interface i \<and> if_ip i = a \<and> list_all (\<lambda>j. \<not> lan_interface j) before))
   \<and> (usable_lan_ipv4 (Inr l) = Inr None \<longleftrightarrow> list_all (\<lambda>j. \<not> lan_interface j) l)
   \<and> usable_lan_ipv4 (Inl e) = Inl (Io e)"
proof (intro conjI)
  show "usable_lan_ipv4 (Inr l) = Inr (Some a) \<longleftrightarrow>
      (\<exists>before i after. l = before @ i # after \<and> lan_interface i \<and> if_ip i = a \<and> list_all (\<lambda>j. \<not> lan_interface j) before)"
  proof
    assume "usable_lan_ipv4 (Inr l) = Inr (Some a)"
    then obtain i where i: "find lan_interface l = Some i" "if_ip i = a"
      by (auto simp: usable_lan_ipv4_def io_err_def first_private_find)
    from find_first [OF i(1)] i(2) show "\<exists>before i after. l = before @ i # after \<and> lan_interface i \<and> if_ip i = a
        \<and> list_all (\<lambda>j. \<not> lan_interface j) before" by blast
  next
    assume "\<exists>before i after. l = before @ i # after \<and> lan_interface i \<and> if_ip i = a
        \<and> list_all (\<lambda>j. \<not> lan_interface j) before"
    then show "usable_lan_ipv4 (Inr l) = Inr (Some a)"
      by (auto simp: usable_lan_ipv4_def io_err_def first_private_find first_find)
  qed
  show "usable_lan_ipv4 (Inr l) = Inr None \<longleftrightarrow> list_all (\<lambda>j. \<not> lan_interface j) l"
    by (simp add: usable_lan_ipv4_def io_err_def first_private_find find_None_iff list_all_iff Ball_def)
qed (simp add: usable_lan_ipv4_def io_err_def)

section \<open>The text of an address\<close>

lemma show_octet_facts:
  "\<forall>c \<in> set (show_octet b). c \<noteq> 46" "parse_octet (show_octet b) = Some b"
proof -
  show "\<forall>c \<in> set (show_octet b). c \<noteq> 46" using nat_to_string_ascii by (fastforce simp: show_octet_def)
  have l: "unat b < 256" by (rule byte_bound)
  have "length (nat_to_string n) \<le> 3 \<and> (hd (nat_to_string n) = 48 \<longrightarrow> nat_to_string n = [48])" if "n < 256" for n
  proof -
    have z: "nat_to_string 0 = [48]" by (simp add: nat_to_string.simps)
    have o: "nat_to_string m = [48 + m]" if "m < 10" for m using that by (simp add: nat_to_string.simps)
    have t: "nat_to_string m = nat_to_string (m div 10) @ [48 + m mod 10]" if "10 \<le> m" for m
      using that by (simp add: nat_to_string.simps [of m])
    show ?thesis
    proof (cases "n < 100")
      case True
      then show ?thesis using o [of "n div 10"] o [of n] t [of n] by (cases "n < 10") auto
    next
      case False
      with that have "n div 10 div 10 < 10" "10 \<le> n div 10" "0 < n div 10 div 10" by auto
      with False show ?thesis using o [of "n div 10 div 10"] t [of n] t [of "n div 10"] by simp
    qed
  qed
  with l show "parse_octet (show_octet b) = Some b"
    by (simp add: parse_octet_def show_octet_def nat_to_string_value nat_to_string_digits)
qed

lemma parse_show_ipv4: "parse_ipv4 (show_ipv4 a b c d) = Some (V4 a b c d)"
  using show_octet_facts by (simp add: parse_ipv4_def show_ipv4_def str_split_append str_split_none)

lemma parse_show_ip: "parse_ip v6 (show_ip s6 (V4 a b c d)) = Some (V4 a b c d)"
  by (simp add: parse_ip_def show_ip_def parse_show_ipv4)

end
