(* ===== verification/Discovery.thy ===== *)
theory Discovery
  imports Networking
begin

text \<open>
  \<^verbatim>\<open>filedrop-core/src/discovery\<close>: devices (\<^verbatim>\<open>device.rs\<close>), the mDNS and UDP halves (\<^verbatim>\<open>mdns.rs\<close>,
  \<^verbatim>\<open>udp_broadcast.rs\<close>) and the service that merges them (\<^verbatim>\<open>mod.rs\<close>). The tasks are functions of the
  sequence of things that happen to them; JSON, UUID and IPv6 texts and the mDNS daemon are parameters.
\<close>

record DiscoveredDevice =
  dd_device_id :: uuid
  dd_name :: rstring
  dd_address :: rstring
  dd_port :: u16
  dd_platform :: rstring
  dd_paired :: bool

definition device_socket_addr :: "(rstring \<Rightarrow> 128 word option) \<Rightarrow> DiscoveredDevice \<Rightarrow> socket_addr option" where
  "device_socket_addr parse_v6 dev =
     map_option (\<lambda>ip. \<lparr>sa_ip = ip, sa_port = dd_port dev\<rparr>) (parse_ip parse_v6 (dd_address dev))"

section \<open>UDP broadcast\<close>

definition BROADCAST_PORT :: u16 where
  "BROADCAST_PORT = 53318"

definition broadcast_port :: u16 where
  "broadcast_port = BROADCAST_PORT"

definition ANNOUNCE_INTERVAL :: nat where
  "ANNOUNCE_INTERVAL = 5"

definition MAGIC :: rstring where
  "MAGIC = lit ''FILEDROP_ANNOUNCE_V1''"

record AnnouncePacket =
  ap_magic :: rstring
  ap_device_id :: uuid
  ap_name :: rstring
  ap_port :: u16
  ap_platform :: rstring

definition announce_packet :: "DiscoveredDevice \<Rightarrow> AnnouncePacket" where
  "announce_packet dev =
     \<lparr>ap_magic = MAGIC, ap_device_id = dd_device_id dev, ap_name = dd_name dev, ap_port = dd_port dev,
      ap_platform = dd_platform dev\<rparr>"

text \<open>\<^verbatim>\<open>serde_json::from_slice(bytes).ok()\<close>.\<close>

definition parse_announce :: "(byte list \<Rightarrow> rstring + AnnouncePacket) \<Rightarrow> byte list \<Rightarrow> AnnouncePacket option" where
  "parse_announce from_slice bytes = (case from_slice bytes of Inl _ \<Rightarrow> None | Inr p \<Rightarrow> Some p)"

text \<open>The announcer: what it sends, given what the running flag reads before each round; a failed send is
  ignored.\<close>

fun announce_rounds :: "byte list \<Rightarrow> bool list \<Rightarrow> (byte list \<times> socket_addr) list" where
  "announce_rounds payload [] = []"
| "announce_rounds payload (running # rest) =
     (if running then (payload, \<lparr>sa_ip = V4 255 255 255 255, sa_port = BROADCAST_PORT\<rparr>) # announce_rounds payload rest
      else [])"

definition announcer ::
  "(AnnouncePacket \<Rightarrow> rstring + byte list) \<Rightarrow> DiscoveredDevice \<Rightarrow> bool list \<Rightarrow> (byte list \<times> socket_addr) list" where
  "announcer to_vec self_device flags =
     (case to_vec (announce_packet self_device) of Inl _ \<Rightarrow> [] | Inr payload \<Rightarrow> announce_rounds payload flags)"

text \<open>One round of the listener: the flag before it, what the socket received (at most 4096 bytes of it, and the
  IPv4 address it came from), and whether the channel still has a receiver.\<close>

record listen_round =
  lr_running :: bool
  lr_received :: "(byte list \<times> byte \<times> byte \<times> byte \<times> byte) option"
  lr_open :: bool

definition LISTEN_BUF :: nat where
  "LISTEN_BUF = 4096"

definition heard_device ::
  "(byte list \<Rightarrow> rstring + AnnouncePacket) \<Rightarrow> uuid \<Rightarrow> byte list \<times> byte \<times> byte \<times> byte \<times> byte \<Rightarrow> DiscoveredDevice option" where
  "heard_device from_slice self_id received =
     (case received of (bytes, a, b, c, d) \<Rightarrow>
       (case parse_announce from_slice (take LISTEN_BUF bytes) of
          None \<Rightarrow> None
        | Some packet \<Rightarrow>
            if ap_magic packet \<noteq> MAGIC \<or> ap_device_id packet = self_id then None
            else Some \<lparr>dd_device_id = ap_device_id packet, dd_name = ap_name packet, dd_address = show_ipv4 a b c d,
                       dd_port = ap_port packet, dd_platform = ap_platform packet, dd_paired = False\<rparr>))"

text \<open>What the listener puts into its channel.\<close>

fun listener :: "(byte list \<Rightarrow> rstring + AnnouncePacket) \<Rightarrow> uuid \<Rightarrow> listen_round list \<Rightarrow> DiscoveredDevice list" where
  "listener from_slice self_id [] = []"
| "listener from_slice self_id (r # rest) =
     (if \<not> lr_running r then []
      else (case lr_received r of
              None \<Rightarrow> listener from_slice self_id rest
            | Some received \<Rightarrow>
                (case heard_device from_slice self_id received of
                   None \<Rightarrow> listener from_slice self_id rest
                 | Some dev \<Rightarrow> if lr_open r then dev # listener from_slice self_id rest else [])))"

section \<open>mDNS\<close>

definition SERVICE_TYPE :: rstring where
  "SERVICE_TYPE = lit ''_filedrop._tcp.local.''"

definition sanitize_instance :: "rstring \<Rightarrow> rstring" where
  "sanitize_instance name = str_replace 46 45 name"

record service_info =
  si_instance :: rstring
  si_host :: rstring
  si_ip :: ip_addr
  si_port :: u16
  si_properties :: "rstring \<rightharpoonup> rstring"

text \<open>\<^verbatim>\<open>advertise\<close> up to the daemon: \<open>build\<close> is \<^verbatim>\<open>ServiceInfo::new\<close> checking the record, \<open>register\<close> the daemon's
  answer.\<close>

definition advertised_info ::
  "(uuid \<Rightarrow> rstring) \<Rightarrow> rstring \<Rightarrow> DiscoveredDevice \<Rightarrow> ip_addr \<Rightarrow> service_info" where
  "advertised_info show_uuid service_name dev ip =
     \<lparr>si_instance = sanitize_instance service_name, si_host = sanitize_instance (dd_name dev) @ lit ''.local.'',
      si_ip = ip, si_port = dd_port dev,
      si_properties = [lit ''device_id'' \<mapsto> show_uuid (dd_device_id dev), lit ''platform'' \<mapsto> dd_platform dev]\<rparr>"

definition advertise ::
  "(uuid \<Rightarrow> rstring) \<Rightarrow> (rstring \<Rightarrow> 128 word option) \<Rightarrow> (service_info \<Rightarrow> rstring + unit) \<Rightarrow> (service_info \<Rightarrow> rstring + unit) \<Rightarrow>
   rstring \<Rightarrow> DiscoveredDevice \<Rightarrow> service_info result" where
  "advertise show_uuid parse_v6 build register service_name dev =
     (case parse_ip parse_v6 (dd_address dev) of
        None \<Rightarrow> Inl (Discovery (lit ''invalid advertise address''))
      | Some ip \<Rightarrow>
          (let info = advertised_info show_uuid service_name dev ip in
           and_then (map_err (\<lambda>e. Discovery (lit ''service info build failed: '' @ e)) (build info))
             (\<lambda>_. and_then (map_err (\<lambda>e. Discovery (lit ''mdns register failed: '' @ e)) (register info))
               (\<lambda>_. Inr info))))"

text \<open>A resolved service as the mDNS crate reports it; its addresses in the order it enumerates them.\<close>

record resolved_service =
  rs_property :: "rstring \<rightharpoonup> rstring"
  rs_fullname :: rstring
  rs_addresses :: "(byte \<times> byte \<times> byte \<times> byte) list"
  rs_port :: u16

text \<open>\<^verbatim>\<open>trim_end_matches\<close> with a text and with a character.\<close>

function trim_end_str :: "rstring \<Rightarrow> rstring \<Rightarrow> rstring" where
  "trim_end_str p s =
     (if p \<noteq> [] \<and> length p \<le> length s \<and> drop (length s - length p) s = p
      then trim_end_str p (take (length s - length p) s) else s)"
  by pat_completeness auto
termination
  by (relation "measure (\<lambda>(p, s). length s)") (auto simp: neq_Nil_conv)

declare trim_end_str.simps [simp del]

definition trim_end_char :: "rchar \<Rightarrow> rstring \<Rightarrow> rstring" where
  "trim_end_char c s = rev (dropWhile (\<lambda>x. x = c) (rev s))"

text \<open>\<open>fresh\<close> is the random id taken when the record carries none that parses.\<close>

definition resolved_device ::
  "(rstring \<Rightarrow> uuid option) \<Rightarrow> uuid \<Rightarrow> resolved_service \<Rightarrow> DiscoveredDevice option" where
  "resolved_device parse_uuid fresh info =
     (let device_id = unwrap_or (Option.bind (rs_property info (lit ''device_id'')) parse_uuid) fresh;
          platform = unwrap_or (rs_property info (lit ''platform'')) (lit ''unknown'')
      in map_option
           (\<lambda>(a, b, c, d). \<lparr>dd_device_id = device_id,
              dd_name = trim_end_char 46 (trim_end_str SERVICE_TYPE (rs_fullname info)),
              dd_address = show_ipv4 a b c d, dd_port = rs_port info, dd_platform = platform, dd_paired = False\<rparr>)
           (iter_next (rs_addresses info)))"

text \<open>The browse task over the daemon's events (\<open>None\<close>: an event of another kind), each with the id a missing one
  would get and whether the channel is open.\<close>

fun browser ::
  "(rstring \<Rightarrow> uuid option) \<Rightarrow> (resolved_service option \<times> uuid \<times> bool) list \<Rightarrow> DiscoveredDevice list" where
  "browser parse_uuid [] = []"
| "browser parse_uuid ((event, fresh, is_open) # rest) =
     (case Option.bind event (resolved_device parse_uuid fresh) of
        None \<Rightarrow> browser parse_uuid rest
      | Some dev \<Rightarrow> if is_open then dev # browser parse_uuid rest else [])"

section \<open>The service\<close>

text \<open>Of the mDNS daemon: what the program asked it to advertise and whether to browse. Of the UDP half: its flag.\<close>

record mdns_daemon =
  da_advertised :: "service_info option"
  da_browsing :: bool

record MdnsDiscovery =
  md_daemon :: mdns_daemon
  md_service_name :: rstring

record UdpBroadcastDiscovery =
  ud_running :: bool

record DiscoveryService =
  ds_mdns :: MdnsDiscovery
  ds_udp :: UdpBroadcastDiscovery
  ds_devices :: "uuid \<rightharpoonup> DiscoveredDevice"

definition mdns_new :: "rstring + unit \<Rightarrow> rstring \<Rightarrow> MdnsDiscovery result" where
  "mdns_new daemon service_name =
     and_then (map_err (\<lambda>e. Discovery (lit ''mdns daemon init failed: '' @ e)) daemon)
       (\<lambda>_. Inr \<lparr>md_daemon = \<lparr>da_advertised = None, da_browsing = False\<rparr>, md_service_name = service_name\<rparr>)"

definition udp_new :: UdpBroadcastDiscovery where
  "udp_new = \<lparr>ud_running = False\<rparr>"

definition UdpBroadcastDiscovery_default :: UdpBroadcastDiscovery where
  "UdpBroadcastDiscovery_default = udp_new"

definition service_new :: "rstring + unit \<Rightarrow> rstring \<Rightarrow> DiscoveryService result" where
  "service_new daemon service_name =
     and_then (mdns_new daemon service_name)
       (\<lambda>mdns. Inr \<lparr>ds_mdns = mdns, ds_udp = udp_new, ds_devices = Map.empty\<rparr>)"

definition insert_device :: "DiscoveredDevice \<Rightarrow> DiscoveryService \<Rightarrow> DiscoveryService" where
  "insert_device dev s = s\<lparr>ds_devices := (ds_devices s)(dd_device_id dev \<mapsto> dev)\<rparr>"

text \<open>\<^verbatim>\<open>forward_devices\<close>: every device received (with whether the next channel is open then) is entered, then
  sent on; the task ends with the first send that fails.\<close>

fun forward_devices ::
  "(DiscoveredDevice \<times> bool) list \<Rightarrow> DiscoveryService \<Rightarrow> DiscoveredDevice list \<times> DiscoveryService" where
  "forward_devices [] s = ([], s)"
| "forward_devices ((dev, is_open) # rest) s =
     (if is_open then (let (sent, s') = forward_devices rest (insert_device dev s) in (dev # sent, s'))
      else ([], insert_device dev s))"

text \<open>The mDNS half; \<open>browse\<close> is the daemon's answer.\<close>

definition mdns_advertise ::
  "(uuid \<Rightarrow> rstring) \<Rightarrow> (rstring \<Rightarrow> 128 word option) \<Rightarrow> (service_info \<Rightarrow> rstring + unit) \<Rightarrow> (service_info \<Rightarrow> rstring + unit) \<Rightarrow>
   DiscoveredDevice \<Rightarrow> MdnsDiscovery \<Rightarrow> unit result \<times> MdnsDiscovery" where
  "mdns_advertise show_uuid parse_v6 build register dev m =
     (case advertise show_uuid parse_v6 build register (md_service_name m) dev of
        Inl e \<Rightarrow> (Inl e, m)
      | Inr info \<Rightarrow> (Inr (), m\<lparr>md_daemon := (md_daemon m)\<lparr>da_advertised := Some info\<rparr>\<rparr>))"

definition mdns_browse :: "rstring + unit \<Rightarrow> MdnsDiscovery \<Rightarrow> unit result \<times> MdnsDiscovery" where
  "mdns_browse browse m =
     (case browse of
        Inl e \<Rightarrow> (Inl (Discovery (lit ''mdns browse failed: '' @ e)), m)
      | Inr _ \<Rightarrow> (Inr (), m\<lparr>md_daemon := (md_daemon m)\<lparr>da_browsing := True\<rparr>\<rparr>))"

definition mdns_stop :: "MdnsDiscovery \<Rightarrow> unit result \<times> MdnsDiscovery" where
  "mdns_stop m = (Inr (), m\<lparr>md_daemon := (md_daemon m)\<lparr>da_browsing := False\<rparr>\<rparr>)"

text \<open>The UDP half sets its flag before it binds; \<open>sockets\<close> is the outcome of binding and setting up its two
  sockets.\<close>

definition udp_start :: "rstring + unit \<Rightarrow> UdpBroadcastDiscovery \<Rightarrow> unit result \<times> UdpBroadcastDiscovery" where
  "udp_start sockets u =
     (let u' = u\<lparr>ud_running := True\<rparr> in case sockets of Inl e \<Rightarrow> (Inl (Io e), u') | Inr _ \<Rightarrow> (Inr (), u'))"

definition udp_stop :: "UdpBroadcastDiscovery \<Rightarrow> unit result \<times> UdpBroadcastDiscovery" where
  "udp_stop u = (Inr (), u\<lparr>ud_running := False\<rparr>)"

definition service_start ::
  "(uuid \<Rightarrow> rstring) \<Rightarrow> (rstring \<Rightarrow> 128 word option) \<Rightarrow> (service_info \<Rightarrow> rstring + unit) \<Rightarrow> (service_info \<Rightarrow> rstring + unit) \<Rightarrow>
   rstring + unit \<Rightarrow> rstring + unit \<Rightarrow> DiscoveredDevice \<Rightarrow> DiscoveryService \<Rightarrow> unit result \<times> DiscoveryService" where
  "service_start show_uuid parse_v6 build register browse sockets self_device s =
     (case mdns_advertise show_uuid parse_v6 build register self_device (ds_mdns s) of
        (Inl e, m1) \<Rightarrow> (Inl e, s\<lparr>ds_mdns := m1\<rparr>)
      | (Inr _, m1) \<Rightarrow>
          (case mdns_browse browse m1 of
             (Inl e, m2) \<Rightarrow> (Inl e, s\<lparr>ds_mdns := m2\<rparr>)
           | (Inr _, m2) \<Rightarrow>
               (case udp_start sockets (ds_udp s) of (r, u) \<Rightarrow> (r, s\<lparr>ds_mdns := m2, ds_udp := u\<rparr>))))"

definition service_stop :: "DiscoveryService \<Rightarrow> unit result \<times> DiscoveryService" where
  "service_stop s =
     (case mdns_stop (ds_mdns s) of
        (Inl e, m) \<Rightarrow> (Inl e, s\<lparr>ds_mdns := m\<rparr>)
      | (Inr _, m) \<Rightarrow>
          (case udp_stop (ds_udp s) of
             (Inl e, u) \<Rightarrow> (Inl e, s\<lparr>ds_mdns := m, ds_udp := u\<rparr>)
           | (Inr _, u) \<Rightarrow> (Inr (), s\<lparr>ds_mdns := m, ds_udp := u, ds_devices := Map.empty\<rparr>)))"

lemmas service_defs = service_start_def service_stop_def mdns_advertise_def mdns_browse_def mdns_stop_def udp_start_def
  udp_stop_def

text \<open>\<open>ks\<close>: the order the hash map yields its keys.\<close>

definition nearby_devices :: "uuid list \<Rightarrow> DiscoveryService \<Rightarrow> DiscoveredDevice list" where
  "nearby_devices ks s = map (\<lambda>k. the (ds_devices s k)) ks"

interpretation nearby: keyed_store "\<lambda>s. ds_devices s" insert_device dd_device_id
  by unfold_locales (simp_all add: insert_device_def)

section \<open>Properties\<close>

lemma listener_mem:
  "dev \<in> set (listener from_slice self_id rounds) \<Longrightarrow>
    \<exists>r \<in> set rounds. \<exists>received. lr_received r = Some received \<and> heard_device from_slice self_id received = Some dev"
  by (induction rounds) (auto split: if_splits option.splits)

definition undisturbed :: "listen_round \<Rightarrow> bool" where
  "undisturbed r \<longleftrightarrow> lr_running r \<and> lr_open r"

definition heard :: "(byte list \<Rightarrow> rstring + AnnouncePacket) \<Rightarrow> uuid \<Rightarrow> listen_round \<Rightarrow> DiscoveredDevice option" where
  "heard from_slice self_id r = Option.bind (lr_received r) (heard_device from_slice self_id)"

lemma listener_undisturbed:
  "list_all undisturbed rounds \<Longrightarrow>
    listener from_slice self_id rounds = List.map_filter (heard from_slice self_id) rounds"
  by (induction rounds) (auto simp: undisturbed_def heard_def List.map_filter_def split: option.splits)

text \<open>The UDP listener only ever reports announcements that parse, carry the magic and come from another
  device, under the address they came from and as unpaired; and it reports all of those, in order,
  while it runs and someone listens.\<close>

theorem listener_filters:
  "(dev \<in> set (listener from_slice self_id rounds) \<longrightarrow>
      dd_device_id dev \<noteq> self_id \<and> \<not> dd_paired dev \<and>
      (\<exists>r \<in> set rounds. \<exists>bytes a b c d p. lr_received r = Some (bytes, a, b, c, d)
         \<and> from_slice (take LISTEN_BUF bytes) = Inr p \<and> ap_magic p = MAGIC \<and> announce_packet dev = p
         \<and> dd_address dev = show_ipv4 a b c d))
   \<and> (list_all undisturbed rounds \<longrightarrow>
        listener from_slice self_id rounds = List.map_filter (heard from_slice self_id) rounds)"
proof (intro conjI impI)
  assume "dev \<in> set (listener from_slice self_id rounds)"
  then obtain r received where r: "r \<in> set rounds" "lr_received r = Some received"
    "heard_device from_slice self_id received = Some dev" using listener_mem by blast
  obtain bytes a b c d where x: "received = (bytes, a, b, c, d)" by (cases received)
  obtain p where p: "from_slice (take LISTEN_BUF bytes) = Inr p" "ap_magic p = MAGIC" "ap_device_id p \<noteq> self_id"
    "dev = \<lparr>dd_device_id = ap_device_id p, dd_name = ap_name p, dd_address = show_ipv4 a b c d, dd_port = ap_port p,
       dd_platform = ap_platform p, dd_paired = False\<rparr>"
    using r(3) x by (auto simp: heard_device_def parse_announce_def split: sum.splits if_splits)
  then show "dd_device_id dev \<noteq> self_id" "\<not> dd_paired dev" by simp_all
  have "announce_packet dev = p" using p by (simp add: announce_packet_def)
  moreover have "dd_address dev = show_ipv4 a b c d" using p(4) by simp
  ultimately show "\<exists>r \<in> set rounds. \<exists>bytes a b c d p. lr_received r = Some (bytes, a, b, c, d)
         \<and> from_slice (take LISTEN_BUF bytes) = Inr p \<and> ap_magic p = MAGIC \<and> announce_packet dev = p
         \<and> dd_address dev = show_ipv4 a b c d"
    using r(1,2) x p(1,2) by blast
qed (rule listener_undisturbed)

text \<open>A codec of one packet, and its announcer.\<close>

definition sample_device :: "uuid \<Rightarrow> DiscoveredDevice" where
  "sample_device u = \<lparr>dd_device_id = u, dd_name = lit ''desk'', dd_address = lit ''10.0.0.2'', dd_port = 53317,
     dd_platform = lit ''linux'', dd_paired = False\<rparr>"

definition sample_to_vec :: "AnnouncePacket \<Rightarrow> rstring + byte list" where
  "sample_to_vec p = (if p = announce_packet (sample_device 5) then Inr [7] else Inl [])"

definition sample_from_slice :: "byte list \<Rightarrow> rstring + AnnouncePacket" where
  "sample_from_slice b = (if b = [7] then Inr (announce_packet (sample_device 5)) else Inl [])"

theorem listener_filters_witness:
  "list_all (\<lambda>dev. dd_device_id dev \<noteq> 9 \<and> \<not> dd_paired dev)
      (listener sample_from_slice 9 [\<lparr>lr_running = True, lr_received = Some ([7], 10, 0, 0, 3), lr_open = True\<rparr>])
   \<and> listener sample_from_slice 9 [\<lparr>lr_running = True, lr_received = Some ([7], 10, 0, 0, 3), lr_open = True\<rparr>] \<noteq> []"
proof -
  let ?r = "[\<lparr>lr_running = True, lr_received = Some ([7], 10, 0, 0, 3), lr_open = True\<rparr>]"
  have u: "list_all undisturbed ?r" by (simp add: undisturbed_def)
  have e: "List.map_filter (heard sample_from_slice 9) ?r \<noteq> []"
    by (simp add: List.map_filter_def heard_def heard_device_def parse_announce_def sample_from_slice_def LISTEN_BUF_def
        announce_packet_def sample_device_def)
  from listener_filters [of _ sample_from_slice 9 ?r] u e show ?thesis unfolding list_all_iff by auto
qed

text \<open>What the JSON library promises of the packets it can write.\<close>

definition packet_codec :: "(AnnouncePacket \<Rightarrow> rstring + byte list) \<Rightarrow> (byte list \<Rightarrow> rstring + AnnouncePacket) \<Rightarrow> bool" where
  "packet_codec to_vec from_slice \<longleftrightarrow> (\<forall>p b. to_vec p = Inr b \<longrightarrow> from_slice b = Inr p)"

definition arrives :: "byte \<times> byte \<times> byte \<times> byte \<Rightarrow> byte list \<times> socket_addr \<Rightarrow> listen_round" where
  "arrives from sent = \<lparr>lr_running = True, lr_received = Some (fst sent, from), lr_open = True\<rparr>"



text \<open>Both halves forward into the same map; a merged run is a sequence of sightings.\<close>

datatype half = Mdns | Udp

definition merged :: "(half \<times> DiscoveredDevice) list \<Rightarrow> DiscoveryService \<Rightarrow> DiscoveryService" where
  "merged sightings s = fold insert_device (map snd sightings) s"

lemma forward_open:
  "list_all snd l \<Longrightarrow> forward_devices l s = (map fst l, fold insert_device (map fst l) s)"
  by (induction l arbitrary: s) (auto split: prod.splits)



section \<open>Corners of the code\<close>

text \<open>mDNS is not preferred: a later UDP announcement replaces what mDNS had found.\<close>

lemma udp_replaces_mdns:
  "dd_device_id dev' = dd_device_id dev \<Longrightarrow>
    ds_devices (merged [(Mdns, dev), (Udp, dev')] s) (dd_device_id dev) = Some dev'"
  by (simp add: merged_def insert_device_def)

text \<open>The instance name under which every device advertises is the service's, not its own: what a browser makes
  of the full name (instance, dot, service type) is the same for all of them.\<close>

lemma trim_service_type:
  assumes "sanitize_instance name \<noteq> []" and "46 \<notin> set (sanitize_instance name)"
  shows "trim_end_char 46 (trim_end_str SERVICE_TYPE (sanitize_instance name @ 46 # SERVICE_TYPE)) = sanitize_instance name"
proof -
  let ?n = "sanitize_instance name"
  have t: "SERVICE_TYPE \<noteq> []" "length SERVICE_TYPE = 21" by (simp_all add: SERVICE_TYPE_def lit_def)
  have d: "drop (length (?n @ [46]) - length SERVICE_TYPE) (?n @ [46]) \<noteq> SERVICE_TYPE"
  proof
    let ?d = "drop (length (?n @ [46]) - length SERVICE_TYPE) (?n @ [46])"
    assume e: "?d = SERVICE_TYPE"
    then have m: "length SERVICE_TYPE \<le> length (?n @ [46])" by (metis length_drop t(2) diff_le_self)
    have "butlast SERVICE_TYPE = drop (length (?n @ [46]) - length SERVICE_TYPE) ?n"
      using e m t by (metis butlast_append butlast_drop butlast_snoc)
    moreover have "46 \<in> set (butlast SERVICE_TYPE)" by (simp add: SERVICE_TYPE_def lit_def)
    ultimately have "46 \<in> set (drop (length (?n @ [46]) - length SERVICE_TYPE) ?n)" by (simp only:)
    then have "46 \<in> set ?n" by (rule in_set_dropD)
    with assms(2) show False by simp
  qed
  have "trim_end_str SERVICE_TYPE (?n @ 46 # SERVICE_TYPE) = trim_end_str SERVICE_TYPE (?n @ [46])"
    by (subst trim_end_str.simps) (simp add: t)
  also have "\<dots> = ?n @ [46]" by (subst trim_end_str.simps) (use d in auto)
  finally have e: "trim_end_str SERVICE_TYPE (?n @ 46 # SERVICE_TYPE) = ?n @ [46]" .
  have "last ?n \<noteq> 46" using assms last_in_set by metis
  then have "dropWhile (\<lambda>x. x = 46) (rev ?n) = rev ?n" by (simp add: dropWhile_eq_self_iff hd_rev)
  then show ?thesis unfolding e by (simp add: trim_end_char_def)
qed

lemma mdns_name_is_the_service_name:
  assumes "service_name \<noteq> []" and "resolved_device parse_uuid fresh info = Some seen"
    and "rs_fullname info = si_instance (advertised_info show_uuid service_name dev ip) @ 46 # SERVICE_TYPE"
  shows "dd_name seen = sanitize_instance service_name"
proof -
  have "46 \<notin> set (sanitize_instance service_name)" and "sanitize_instance service_name \<noteq> []"
    using assms(1) str_replace_free by (simp_all add: sanitize_instance_def str_replace_def)
  from trim_service_type [OF this(2,1)] assms(2,3) show ?thesis
    by (auto simp: resolved_device_def advertised_info_def Let_def)
qed

text \<open>A failed start leaves its first half running, and stopping leaves the advertisement in place.\<close>

lemma start_failure_leaves_advertised:
  assumes "advertise show_uuid parse_v6 build register (md_service_name (ds_mdns s)) dev = Inr info"
  shows "service_start show_uuid parse_v6 build register (Inr ()) (Inl e) dev s
    = (Inl (Io e), s\<lparr>ds_mdns := (ds_mdns s)\<lparr>md_daemon := \<lparr>da_advertised = Some info, da_browsing = True\<rparr>\<rparr>,
        ds_udp := \<lparr>ud_running = True\<rparr>\<rparr>)"
    and "da_advertised (md_daemon (ds_mdns (snd (service_stop s)))) = da_advertised (md_daemon (ds_mdns s))"
  using assms by (simp_all add: service_defs)

end
