(* ===== verification/Engine.thy ===== *)
theory Engine
  imports Server Discovery
begin

text \<open>
  \<^verbatim>\<open>filedrop-core/src/lib.rs\<close> (the engine that bundles the subsystems), \<^verbatim>\<open>filedrop-ffi/src/events.rs\<close> and
  \<^verbatim>\<open>runtime.rs\<close> (the events and the process-wide state). The engine's parts are shared with the router, so
  the engine is the server's state with an identity. The broadcast channel is the list of the events
  emitted so far; a running server is the number its shutdown channel was given.
\<close>

section \<open>The engine\<close>

record FileDropEngine = AppState +
  eng_device_id :: uuid
  eng_device_name :: rstring

definition engine_router :: "FileDropEngine \<Rightarrow> AppState" where
  "engine_router e =
     \<lparr>as_paths = as_paths e, as_queue = as_queue e, as_history = as_history e, as_pairing = as_pairing e,
      as_sessions = as_sessions e\<rparr>"

text \<open>\<open>dir_io\<close>, \<open>exists_ok\<close> and \<open>read_err\<close> are what the system answers; \<open>fresh\<close> is the random device id.\<close>

definition engine_init ::
  "(byte list \<Rightarrow> rstring + TransferRecord list) \<Rightarrow> (rstring \<Rightarrow> rstring option) \<Rightarrow> bool \<Rightarrow> rstring option \<Rightarrow> uuid \<Rightarrow>
   rstring \<Rightarrow> rstring \<Rightarrow> disk \<Rightarrow> FileDropEngine result \<times> disk" where
  "engine_init de dir_io exists_ok read_err fresh device_name app_data d =
     (let paths = \<lparr>app_data_dir = app_data\<rparr> in
      case ensure_dirs dir_io paths d of
        (Inl e, d1) \<Rightarrow> (Inl (Io e), d1)
      | (Inr _, d1) \<Rightarrow>
          (map_ok (\<lambda>history. \<lparr>as_paths = paths, as_queue = queue_new, as_history = history, as_pairing = psm_new,
                               as_sessions = Map.empty, eng_device_id = fresh, eng_device_name = device_name\<rparr>)
             (history_load de exists_ok read_err (history_file paths) d1), d1))"

section \<open>Events and the runtime\<close>

datatype FileDropEvent =
    DeviceDiscovered DiscoveredDevice
  | DeviceConnected uuid
  | PairingRequested uuid rstring rstring
  | TransferStarted uuid rstring u64
  | TransferProgressed TransferProgress
  | TransferPaused uuid
  | TransferCompleted uuid rstring
  | TransferFailed uuid rstring
  | DeviceDisconnected uuid

definition event_to_json :: "(FileDropEvent \<Rightarrow> rstring + rstring) \<Rightarrow> FileDropEvent \<Rightarrow> rstring" where
  "event_to_json to_string e = (case to_string e of Inr s \<Rightarrow> s | Inl _ \<Rightarrow> lit ''{}'')"

definition EVENT_CHANNEL_CAPACITY :: nat where
  "EVENT_CHANNEL_CAPACITY = 1024"

record FfiRuntime =
  rt_engine :: "FileDropEngine option"
  rt_events :: "FileDropEvent list"
  rt_server_shutdown :: "nat option"
  rt_discovery :: "DiscoveryService option"

text \<open>The process: the runtime, the servers that are accepting, the memory of the sessions and the disk.\<close>

record process =
  rt :: FfiRuntime
  servers :: "nat set"
  heap_of :: heap
  disk_of :: disk

definition runtime_new :: FfiRuntime where
  "runtime_new = \<lparr>rt_engine = None, rt_events = [], rt_server_shutdown = None, rt_discovery = None\<rparr>"

definition emit :: "FileDropEvent \<Rightarrow> process \<Rightarrow> process" where
  "emit e p = p\<lparr>rt := (rt p)\<lparr>rt_events := rt_events (rt p) @ [e]\<rparr>\<rparr>"

definition set_engine :: "FileDropEngine \<Rightarrow> process \<Rightarrow> process" where
  "set_engine e p = p\<lparr>rt := (rt p)\<lparr>rt_engine := Some e\<rparr>\<rparr>"

lemma process_simps [simp]:
  "rt_engine (rt (emit e p)) = rt_engine (rt p)" "rt_events (rt (emit e p)) = rt_events (rt p) @ [e]"
  "rt_discovery (rt (emit e p)) = rt_discovery (rt p)" "rt_server_shutdown (rt (emit e p)) = rt_server_shutdown (rt p)"
  "heap_of (emit e p) = heap_of p" "disk_of (emit e p) = disk_of p" "servers (emit e p) = servers p"
  "rt_engine (rt (set_engine g p)) = Some g" "rt_events (rt (set_engine g p)) = rt_events (rt p)"
  "heap_of (set_engine g p) = heap_of p" "disk_of (set_engine g p) = disk_of p" "servers (set_engine g p) = servers p"
  by (simp_all add: emit_def set_engine_def)

section \<open>Properties\<close>

lemma ensure_dirs_reads: "disk_read q (snd (ensure_dirs io sp d)) = disk_read q d"
  by (simp only: ensure_dirs_def disk_read_def create_all_files [THEN conjunct1] create_all_files [THEN conjunct2])

lemma history_load_ensured:
  "history_load de x r path (snd (ensure_dirs io sp d)) = history_load de x r path d"
  by (rule load_same_bytes) (rule ensure_dirs_reads)

text \<open>C21: a restart keeps the history: after a transfer record was added successfully, an engine initialized on the
  resulting disk lists exactly the records the old one held, and it starts with its directories made,
  an empty queue, no pairings and no sessions.\<close>

theorem restart_keeps_history:
  assumes "disk_ok d" and "cuts pieces" and "codec ser de" and "hs_path st = history_file \<lparr>app_data_dir = dir\<rparr>"
    and "records.keyed st" and "enumerates ks (hs_records (insert_record r st))"
    and "history_add ser pieces io ks r st d = (Inr (), st', d')"
  shows "\<exists>e d''. engine_init de (\<lambda>_. None) True None fresh name dir d' = (Inr e, d'')
    \<and> as_history e = st' \<and> history_list ks (as_history e) = history_list ks (insert_record r st)
    \<and> {components dir, components (received_files_dir (as_paths e)), components (staging_dir (as_paths e))} \<subseteq> dirs d''
    \<and> pending (as_queue e) = [] \<and> permits (as_queue e) = MAX_PARALLEL_TRANSFERS
    \<and> (\<forall>peer. \<not> is_paired peer (as_pairing e)) \<and> as_sessions e = Map.empty"
proof -
  let ?sp = "\<lparr>app_data_dir = dir\<rparr>"
  have s: "st' = insert_record r st" and p: "persist ser pieces io ks (insert_record r st) d = (Inr (), d')"
    using assms(7) by (auto simp: history_add_def Let_def split: prod.splits)
  have path: "hs_path (insert_record r st) = history_file ?sp" using assms(4) by (simp add: insert_record_def)
  have k: "\<forall>k v. hs_records (insert_record r st) k = Some v \<longrightarrow> rec_id v = k"
    using records.keyed_put [OF assms(5)] by (simp add: records.keyed_def)
  obtain json where j: "ser (map_values ks (hs_records (insert_record r st))) = Inr json"
    "disk_read (history_file ?sp) d' = Some json" using persist_effect(3) [OF assms(1,2) path p refl] by blast
  have l: "history_load de True None (history_file ?sp) d' = Inr st'"
  proof -
    have "st' = \<lparr>hs_path = history_file ?sp, hs_records = hs_records (insert_record r st)\<rparr>"
      by (rule HistoryStore.equality) (simp_all add: s path)
    then show ?thesis using load_written [OF assms(3) j assms(6) k] by simp
  qed
  have en: "fst (ensure_dirs (\<lambda>_. None) ?sp d') = Inr ()" by (simp add: ensure_dirs_def)
  define d2 where "d2 = snd (ensure_dirs (\<lambda>_. None) ?sp d')"
  have e: "ensure_dirs (\<lambda>_. None) ?sp d' = (Inr (), d2)" using en by (simp add: d2_def prod_eq_iff)
  have "history_load de True None (history_file ?sp) d2 = Inr st'" unfolding d2_def history_load_ensured by (rule l)
  moreover have "{components dir, components (received_files_dir ?sp), components (staging_dir ?sp)} \<subseteq> dirs d2"
    using ensure_dirs_creates [OF en] by (simp add: d2_def)
  ultimately show ?thesis using e s
    by (simp add: engine_init_def queue_new_def is_paired_def psm_new_def)
qed

theorem restart_keeps_history_witness:
  "\<exists>d' e d''. history_add sample_ser (\<lambda>b. [b]) (\<lambda>_. None) [1] (sample_record 1 5) sample_store empty_disk
      = (Inr (), insert_record (sample_record 1 5) sample_store, d')
    \<and> engine_init sample_de (\<lambda>_. None) True None 4 [] (lit ''/data'') d' = (Inr e, d'')
    \<and> as_history e = insert_record (sample_record 1 5) sample_store"
proof -
  let ?a = "history_add sample_ser (\<lambda>b. [b]) (\<lambda>_. None) [1] (sample_record 1 5) sample_store empty_disk"
  let ?t = "path_with_extension (lit ''json.tmp'') (history_file sample_paths)"
  have "\<exists>d'. ?a = (Inr (), insert_record (sample_record 1 5) sample_store, d')"
  proof -
    obtain f d1 where f: "disk_open True ?t (create_dir_all (path_parent (history_file sample_paths)) empty_disk) = (f, d1)"
      by fastforce
    then have n: "names d1 (components ?t) = Some f"
      using disk_open_name [of True ?t "create_dir_all (path_parent (history_file sample_paths)) empty_disk"] by simp
    have w: "names (disk_write f 0 [1] d1) (components ?t) = Some f" using n by (simp add: disk_simps)
    obtain d2 where r: "disk_rename ?t (history_file sample_paths) (disk_write f 0 [1] d1) = Some d2"
      using disk_rename_Some [OF w] by blast
    have v: "sample_ser (map_values [1] (hs_records (insert_record (sample_record 1 5) sample_store))) = Inr [1]"
      by (simp add: sample_ser_def map_values_def insert_record_def sample_record_def)
    have q: "hs_path (insert_record (sample_record 1 5) sample_store) = history_file sample_paths"
      by (simp add: insert_record_def sample_store_def)
    show ?thesis using f r by (simp add: history_add_def persist_def v q persist_ops_def Let_def)
  qed
  then obtain d' where a: "?a = (Inr (), insert_record (sample_record 1 5) sample_store, d')" by blast
  have k: "records.keyed sample_store" and c: "cuts (\<lambda>b. [b])"
    and e: "enumerates [1] (hs_records (insert_record (sample_record 1 5) sample_store))"
    and p: "hs_path sample_store = history_file \<lparr>app_data_dir = lit ''/data''\<rparr>"
    by (simp_all add: records.keyed_def sample_store_def sample_paths_def cuts_def enumerates_def insert_record_def
        sample_record_def)
  from restart_keeps_history [OF disk_ok_empty c sample_codec p k e a, of 4 "[]"] a show ?thesis by blast
qed

end
