(* ===== verification/Dto.thy ===== *)
theory Dto
  imports Engine
begin

text \<open>
  The data transfer objects of \<^verbatim>\<open>filedrop-ffi/src/api/mod.rs\<close> and their conversions: copies of the core's
  types with the same fields.
\<close>

record ResolvedEndpointDto =
  red_address :: rstring
  red_port :: u16

record DiscoveredDeviceDto =
  ddd_device_id :: uuid
  ddd_name :: rstring
  ddd_address :: rstring
  ddd_port :: u16
  ddd_platform :: rstring
  ddd_paired :: bool

definition device_of_dto :: "DiscoveredDeviceDto \<Rightarrow> DiscoveredDevice" where
  "device_of_dto dto =
     \<lparr>dd_device_id = ddd_device_id dto, dd_name = ddd_name dto, dd_address = ddd_address dto, dd_port = ddd_port dto,
      dd_platform = ddd_platform dto, dd_paired = ddd_paired dto\<rparr>"

definition dto_of_device :: "DiscoveredDevice \<Rightarrow> DiscoveredDeviceDto" where
  "dto_of_device d =
     \<lparr>ddd_device_id = dd_device_id d, ddd_name = dd_name d, ddd_address = dd_address d, ddd_port = dd_port d,
      ddd_platform = dd_platform d, ddd_paired = dd_paired d\<rparr>"

record QrPairingPayloadDto =
  qrd_version :: byte
  qrd_device_id :: uuid
  qrd_device_name :: rstring
  qrd_address :: rstring
  qrd_port :: u16
  qrd_token :: rstring
  qrd_expires_at :: i64

definition payload_of_dto :: "QrPairingPayloadDto \<Rightarrow> QrPairingPayload" where
  "payload_of_dto dto =
     \<lparr>qr_version = qrd_version dto, qr_device_id = qrd_device_id dto, qr_device_name = qrd_device_name dto,
      qr_address = qrd_address dto, qr_port = qrd_port dto, qr_token = qrd_token dto, qr_expires_at = qrd_expires_at dto\<rparr>"

datatype TransferStatusDto =
    QueuedDto | ConnectingDto | InProgressDto | PausedDto | CompletedDto | FailedDto | CancelledDto

fun dto_of_status :: "TransferStatus \<Rightarrow> TransferStatusDto" where
  "dto_of_status Queued = QueuedDto"
| "dto_of_status Connecting = ConnectingDto"
| "dto_of_status InProgress = InProgressDto"
| "dto_of_status Paused = PausedDto"
| "dto_of_status Completed = CompletedDto"
| "dto_of_status Failed = FailedDto"
| "dto_of_status Cancelled = CancelledDto"

record TransferProgressDto =
  tpd_transfer_id :: uuid
  tpd_file_name :: rstring
  tpd_bytes_transferred :: u64
  tpd_total_bytes :: u64
  tpd_status :: TransferStatusDto
  tpd_bytes_per_sec :: f64
  tpd_error :: "rstring option"

definition dto_of_progress :: "TransferProgress \<Rightarrow> TransferProgressDto" where
  "dto_of_progress p =
     \<lparr>tpd_transfer_id = tp_transfer_id p, tpd_file_name = tp_file_name p, tpd_bytes_transferred = tp_bytes_transferred p,
      tpd_total_bytes = tp_total_bytes p, tpd_status = dto_of_status (tp_status p),
      tpd_bytes_per_sec = tp_bytes_per_sec p, tpd_error = tp_error p\<rparr>"

datatype TransferRecordStatusDto = RecCompletedDto | RecFailedDto | RecCancelledDto

fun dto_of_record_status :: "TransferRecordStatus \<Rightarrow> TransferRecordStatusDto" where
  "dto_of_record_status RecCompleted = RecCompletedDto"
| "dto_of_record_status RecFailed = RecFailedDto"
| "dto_of_record_status RecCancelled = RecCancelledDto"

record TransferRecordDto =
  trd_id :: uuid
  trd_file_name :: rstring
  trd_file_size_bytes :: u64
  trd_peer_device_id :: uuid
  trd_peer_name :: rstring
  trd_outgoing :: bool
  trd_status :: TransferRecordStatusDto
  trd_sha256 :: "rstring option"
  trd_started_at :: i64
  trd_completed_at :: i64
  trd_saved_path :: "rstring option"

text \<open>A path is text here, so \<^verbatim>\<open>to_string_lossy\<close> loses nothing.\<close>

definition dto_of_record :: "TransferRecord \<Rightarrow> TransferRecordDto" where
  "dto_of_record r =
     \<lparr>trd_id = rec_id r, trd_file_name = rec_file_name r, trd_file_size_bytes = rec_file_size_bytes r,
      trd_peer_device_id = rec_peer_device_id r, trd_peer_name = rec_peer_name r, trd_outgoing = rec_outgoing r,
      trd_status = dto_of_record_status (rec_status r), trd_sha256 = rec_sha256 r, trd_started_at = rec_started_at r,
      trd_completed_at = rec_completed_at r, trd_saved_path = map_option (\<lambda>p. p) (rec_saved_path r)\<rparr>"

datatype ConnectionModeDto = ExistingLanDto | LocalOnlyHotspotDto | WifiDirectDto

fun dto_of_mode :: "ConnectionMode \<Rightarrow> ConnectionModeDto" where
  "dto_of_mode ExistingLan = ExistingLanDto"
| "dto_of_mode LocalOnlyHotspot = LocalOnlyHotspotDto"
| "dto_of_mode WifiDirect = WifiDirectDto"

datatype PlatformDirectCapabilityDto =
    AvailableDto ConnectionModeDto
  | RequiresPlatformChannelDto ConnectionModeDto rstring
  | UnsupportedDto

fun dto_of_capability :: "PlatformDirectCapability \<Rightarrow> PlatformDirectCapabilityDto" where
  "dto_of_capability (Available m) = AvailableDto (dto_of_mode m)"
| "dto_of_capability (RequiresPlatformChannel m reason) = RequiresPlatformChannelDto (dto_of_mode m) reason"
| "dto_of_capability Unsupported = UnsupportedDto"

datatype FileDropEventDto =
    DeviceDiscoveredDto DiscoveredDeviceDto
  | DeviceConnectedDto uuid
  | PairingRequestedDto uuid rstring rstring
  | TransferStartedDto uuid rstring u64
  | TransferProgressedDto TransferProgressDto
  | TransferPausedDto uuid
  | TransferCompletedDto uuid rstring
  | TransferFailedDto uuid rstring
  | DeviceDisconnectedDto uuid

fun dto_of_event :: "FileDropEvent \<Rightarrow> FileDropEventDto" where
  "dto_of_event (DeviceDiscovered d) = DeviceDiscoveredDto (dto_of_device d)"
| "dto_of_event (DeviceConnected u) = DeviceConnectedDto u"
| "dto_of_event (PairingRequested u n t) = PairingRequestedDto u n t"
| "dto_of_event (TransferStarted u n b) = TransferStartedDto u n b"
| "dto_of_event (TransferProgressed p) = TransferProgressedDto (dto_of_progress p)"
| "dto_of_event (TransferPaused u) = TransferPausedDto u"
| "dto_of_event (TransferCompleted u s) = TransferCompletedDto u s"
| "dto_of_event (TransferFailed u e) = TransferFailedDto u e"
| "dto_of_event (DeviceDisconnected u) = DeviceDisconnectedDto u"

section \<open>Properties\<close>

lemma dto_of_status_inj: "dto_of_status s = dto_of_status t \<longleftrightarrow> s = t"
  by (cases s; cases t) simp_all

lemma dto_of_record_status_inj: "dto_of_record_status s = dto_of_record_status t \<longleftrightarrow> s = t"
  by (cases s; cases t) simp_all

lemma dto_of_mode_inj: "dto_of_mode s = dto_of_mode t \<longleftrightarrow> s = t"
  by (cases s; cases t) simp_all

lemma dto_of_device_inj: "dto_of_device d = dto_of_device e \<longleftrightarrow> d = e"
  by (cases d; cases e) (auto simp: dto_of_device_def)

lemma dto_of_progress_inj: "dto_of_progress p = dto_of_progress q \<longleftrightarrow> p = q"
  by (cases p; cases q) (auto simp: dto_of_progress_def dto_of_status_inj)

text \<open>Crossing the bridge loses nothing: a device is itself again after both conversions, and different
  events, records and capabilities have different transfer objects.\<close>

theorem dto_faithful:
  "device_of_dto (dto_of_device d) = d \<and> dto_of_device (device_of_dto dto) = dto
   \<and> (dto_of_event e = dto_of_event f \<longleftrightarrow> e = f)
   \<and> (dto_of_record r = dto_of_record s \<longleftrightarrow> r = s)
   \<and> (dto_of_capability c = dto_of_capability k \<longleftrightarrow> c = k)"
proof (intro conjI)
  show "dto_of_event e = dto_of_event f \<longleftrightarrow> e = f"
    by (cases e; cases f) (simp_all add: dto_of_device_inj dto_of_progress_inj)
  show "dto_of_record r = dto_of_record s \<longleftrightarrow> r = s"
    by (cases r; cases s) (auto simp: dto_of_record_def dto_of_record_status_inj option.map_ident)
  show "dto_of_capability c = dto_of_capability k \<longleftrightarrow> c = k"
    by (cases c; cases k) (simp_all add: dto_of_mode_inj)
qed (simp_all add: device_of_dto_def dto_of_device_def)

end
