(* ===== verification/Workers.thy ===== *)
theory Workers
  imports Engine Client
begin

text \<open>
  The tasks that send the queued files: \<^verbatim>\<open>run_queued_send\<close> of \<^verbatim>\<open>filedrop-ffi/src/api/mod.rs\<close>, any number of
  them interleaved. A task's progress is its phase: between two phases it awaits (the semaphore, a lock
  of the queue, the network), so any other task may move. The heap is the one the sessions live in.
\<close>

datatype phase =
    Start
  | Holding
  | Popped "QueuedTransfer \<times> TransferSession"
  | Sending "QueuedTransfer \<times> TransferSession"
  | Sent
  | Marked
  | Done

text \<open>A task: the transfer it was spawned for, and where it is.\<close>

record worker =
  wk_id :: uuid
  wk_path :: rstring
  wk_name :: rstring
  wk_total :: u64
  wk_addr :: rstring
  wk_phase :: phase

record pool =
  pl_queue :: TransferQueue
  pl_heap :: heap
  pl_workers :: "worker list"
  pl_events :: "FileDropEvent list"

definition pool_new :: "heap \<Rightarrow> pool" where
  "pool_new h = \<lparr>pl_queue = queue_new, pl_heap = h, pl_workers = [], pl_events = []\<rparr>"

definition worker_of :: "rstring \<Rightarrow> QueuedTransfer \<Rightarrow> worker" where
  "worker_of addr t = \<lparr>wk_id = qt_id t, wk_path = qt_file_path t, wk_name = qt_file_name t, wk_total = qt_total_bytes t,
     wk_addr = addr, wk_phase = Start\<rparr>"

text \<open>One file of \<^verbatim>\<open>send_files\<close>: queue the transfer, spawn its task.\<close>

definition submit :: "rstring \<Rightarrow> QueuedTransfer \<Rightarrow> pool \<Rightarrow> pool" where
  "submit addr t p = p\<lparr>pl_queue := enqueue t (pl_queue p), pl_workers := pl_workers p @ [worker_of addr t]\<rparr>"

definition goto :: "nat \<Rightarrow> phase \<Rightarrow> pool \<Rightarrow> pool" where
  "goto i ph p = p\<lparr>pl_workers := (pl_workers p)[i := (pl_workers p ! i)\<lparr>wk_phase := ph\<rparr>]\<rparr>"

text \<open>What the program's parameters are for every task, and what the system answers one step.\<close>

record 'h send_env =
  se_hash :: "'h hash_api"
  se_show_uuid :: "uuid \<Rightarrow> rstring"
  se_show_status :: "nat \<Rightarrow> rstring"
  se_pieces :: "byte list \<Rightarrow> byte list list"

record worker_io =
  wi_now :: nat
  wi_disk :: disk
  wi_net :: network
  wi_send :: send_io
  wi_rehash :: "(nat \<times> rstring) option"

definition text_or_default :: "rstring result \<Rightarrow> rstring" where
  "text_or_default r = (case r of Inl _ \<Rightarrow> [] | Inr s \<Rightarrow> s)"

text \<open>The send itself and the event that reports it; \<open>None\<close> is a read of a hash still outstanding.\<close>

definition send_and_report ::
  "'h send_env \<Rightarrow> worker_io \<Rightarrow> worker \<Rightarrow> TransferSession \<Rightarrow> heap \<Rightarrow> (FileDropEvent \<times> heap) option" where
  "send_and_report E io w session h =
     (case send_file (se_hash E) (se_show_uuid E) (se_show_status E) (se_pieces E) (wi_net io) (wi_send io)
             (wk_addr w) (wk_id w) (wk_path w) session SendOptions_default (wi_disk io) h of
        None \<Rightarrow> None
      | Some (Inl e, h') \<Rightarrow> Some (TransferFailed (wk_id w) (display_error (se_show_uuid E) e), h')
      | Some (Inr _, h') \<Rightarrow>
          map_option
            (\<lambda>hashed. (TransferCompleted (wk_id w) (text_or_default hashed), h'))
            (hash_of_file (se_hash E) (wi_rehash io) (wk_path w) (wi_disk io)))"

text \<open>One step of task \<open>i\<close>; \<open>None\<close> when it has to wait or is done.\<close>

definition work :: "'h send_env \<Rightarrow> worker_io \<Rightarrow> nat \<Rightarrow> pool \<Rightarrow> pool option" where
  "work E io i p =
     (let w = pl_workers p ! i; q = pl_queue p in
      case wk_phase w of
        Start \<Rightarrow> map_option (\<lambda>q'. goto i Holding (p\<lparr>pl_queue := q'\<rparr>)) (acquire_permit q)
      | Holding \<Rightarrow>
          (case pop_pending (wi_now io) (pl_heap p) q of
             ((None, h), q') \<Rightarrow> Some (goto i Done (p\<lparr>pl_queue := q', pl_heap := h\<rparr>))
           | ((Some e, h), q') \<Rightarrow> Some (goto i (Popped e) (p\<lparr>pl_queue := q', pl_heap := h\<rparr>)))
      | Popped e \<Rightarrow>
          Some (goto i (Sending e)
            (p\<lparr>pl_queue := push_active e q,
               pl_events := pl_events p @ [TransferStarted (wk_id w) (wk_name w) (wk_total w)]\<rparr>))
      | Sending e \<Rightarrow>
          map_option (\<lambda>(report, h). goto i Sent (p\<lparr>pl_heap := h, pl_events := pl_events p @ [report]\<rparr>))
            (send_and_report E io w (snd e) (pl_heap p))
      | Sent \<Rightarrow> Some (goto i Marked (p\<lparr>pl_queue := mark_finished (wk_id w) q\<rparr>))
      | Marked \<Rightarrow> Some (goto i Done (p\<lparr>pl_queue := drop_permit q\<rparr>))
      | Done \<Rightarrow> None)"

inductive worker_move :: "'h send_env \<Rightarrow> pool \<Rightarrow> pool \<Rightarrow> bool" for E where
  work: "i < length (pl_workers p) \<Longrightarrow> work E io i p = Some p' \<Longrightarrow> worker_move E p p'"

text \<open>The rest of the program may change the sessions and emit events of its own.\<close>

fun task_event :: "FileDropEvent \<Rightarrow> bool" where
  "task_event (TransferStarted _ _ _) = True"
| "task_event (TransferCompleted _ _) = True"
| "task_event (TransferFailed _ _) = True"
| "task_event _ = False"

inductive pool_move :: "'h send_env \<Rightarrow> pool \<Rightarrow> pool \<Rightarrow> bool" for E where
  submits: "pool_move E p (submit addr t p)"
| works: "worker_move E p p' \<Longrightarrow> pool_move E p p'"
| others: "list_all (\<lambda>e. \<not> task_event e) es \<Longrightarrow> pool_move E p (p\<lparr>pl_heap := h, pl_events := pl_events p @ es\<rparr>)"

inductive_cases worker_move_cases: "worker_move E p p'"

definition reachable :: "'h send_env \<Rightarrow> pool \<Rightarrow> bool" where
  "reachable E p \<longleftrightarrow> (\<exists>h. (pool_move E)\<^sup>*\<^sup>* (pool_new h) p)"

text \<open>A hash of a file ends, and so does a send.\<close>

lemma hash_loop_ends: "\<exists>r. hash_loop H h (rs @ [ReadErr e]) = Some r" "\<exists>r. hash_loop H h (rs @ [Got []]) = Some r"
proof -
  have "r = ReadErr e \<or> r = Got [] \<Longrightarrow> \<exists>y. hash_loop H h (rs @ [r]) = Some y" for r
  proof (induction rs arbitrary: h)
    case Nil
    then show ?case by auto
  next
    case (Cons x rs)
    then show ?case by (cases x) auto
  qed
  then show "\<exists>r. hash_loop H h (rs @ [ReadErr e]) = Some r" "\<exists>r. hash_loop H h (rs @ [Got []]) = Some r" by blast+
qed

lemma hash_of_file_ends: "\<exists>r. hash_of_file H err path d = Some r"
proof (cases "disk_read path d")
  case None
  then show ?thesis by (simp add: hash_of_file_def sha256_file_def)
next
  case (Some c)
  have "\<exists>y. hash_loop H (h_new H) (case err of None \<Rightarrow> map Got (buffer_reads c) @ [Got []]
      | Some (k, e) \<Rightarrow> take k (map Got (buffer_reads c)) @ [ReadErr e]) = Some y"
    using hash_loop_ends by (cases err) auto
  with Some show ?thesis by (auto simp: hash_of_file_def sha256_file_def)
qed

lemma send_and_report_ends: "\<exists>r. send_and_report E io w session h = Some r"
proof -
  note ends = hash_of_file_ends [of "se_hash E" _ "wk_path w" "wi_disk io"]
  obtain a where a: "hash_of_file (se_hash E) (si_hash (wi_send io)) (wk_path w) (wi_disk io) = Some a" using ends by blast
  obtain b where b: "hash_of_file (se_hash E) (wi_rehash io) (wk_path w) (wi_disk io) = Some b" using ends by blast
  have "\<exists>o'. open_to_send (se_hash E) SendOptions_default (wi_send io) (wk_path w) (wi_disk io) = Some o'"
    by (simp add: open_to_send_def a split: option.splits)
  then obtain r h' where "send_file (se_hash E) (se_show_uuid E) (se_show_status E) (se_pieces E) (wi_net io) (wi_send io)
      (wk_addr w) (wk_id w) (wk_path w) session SendOptions_default (wi_disk io) h = Some (r, h')"
    by (auto simp: send_file_def intro: prod.exhaust)
  then show ?thesis using b by (cases r) (simp_all add: send_and_report_def)
qed

section \<open>Counting\<close>

fun holds :: "phase \<Rightarrow> nat" where
  "holds Start = 0" | "holds Done = 0" | "holds _ = 1"

fun waits :: "phase \<Rightarrow> nat" where
  "waits Start = 1" | "waits Holding = 1" | "waits _ = 0"

fun steps_left :: "phase \<Rightarrow> nat" where
  "steps_left Start = 6" | "steps_left Holding = 5" | "steps_left (Popped _) = 4" | "steps_left (Sending _) = 3"
| "steps_left Sent = 2" | "steps_left Marked = 1" | "steps_left Done = 0"

definition tally :: "(phase \<Rightarrow> nat) \<Rightarrow> pool \<Rightarrow> nat" where
  "tally f p = sum_list (map (\<lambda>w. f (wk_phase w)) (pl_workers p))"

lemma tally_goto:
  assumes "i < length (pl_workers p)"
  shows "tally f (goto i ph p) + f (wk_phase (pl_workers p ! i)) = tally f p + f ph"
proof -
  have l: "f (wk_phase (pl_workers p ! i)) \<le> tally f p"
    using assms unfolding tally_def by (intro member_le_sum_list) auto
  have "tally f (goto i ph p) = tally f p + f ph - f (wk_phase (pl_workers p ! i))"
    using assms by (simp add: tally_def goto_def map_update sum_list_update)
  with l show ?thesis by simp
qed

lemma goto_fields [simp]:
  "pl_queue (goto i ph p) = pl_queue p" "pl_heap (goto i ph p) = pl_heap p" "pl_events (goto i ph p) = pl_events p"
  "length (pl_workers (goto i ph p)) = length (pl_workers p)"
  by (simp_all add: goto_def)

lemma tally_fields [simp]:
  "tally f (p\<lparr>pl_queue := q\<rparr>) = tally f p" "tally f (p\<lparr>pl_heap := h\<rparr>) = tally f p"
  "tally f (p\<lparr>pl_events := es\<rparr>) = tally f p"
  by (simp_all add: tally_def)

lemma tally_submit: "tally f (submit addr t p) = tally f p + f Start"
  by (simp add: tally_def submit_def worker_of_def)

text \<open>Permits are either free or held, and every pending entry has a task that will pop it.\<close>

definition pool_inv :: "pool \<Rightarrow> bool" where
  "pool_inv p \<longleftrightarrow> permits (pl_queue p) + tally holds p = MAX_PARALLEL_TRANSFERS
     \<and> length (pending (pl_queue p)) = tally waits p"

lemma tally_member: "i < length (pl_workers p) \<Longrightarrow> f (wk_phase (pl_workers p ! i)) \<le> tally f p"
  unfolding tally_def by (intro member_le_sum_list) auto

lemma pending_for_holder:
  assumes "pool_inv p" and "i < length (pl_workers p)" and "wk_phase (pl_workers p ! i) = Holding"
  shows "\<exists>t ts. pending (pl_queue p) = t # ts"
  using assms tally_member [OF assms(2), of waits] by (cases "pending (pl_queue p)") (auto simp: pool_inv_def)

lemma pool_inv_work:
  assumes "pool_inv p" and i: "i < length (pl_workers p)" and "work E io i p = Some p'"
  shows "pool_inv p' \<and> tally steps_left p' < tally steps_left p"
proof -
  let ?w = "pl_workers p ! i"
  note f = pool_inv_def queue_defs
  have g: "tally f (goto i ph (p\<lparr>pl_queue := q, pl_heap := h, pl_events := es\<rparr>)) + f (wk_phase ?w) = tally f p + f ph"
    for f ph q h es using tally_goto [of i "p\<lparr>pl_queue := q, pl_heap := h, pl_events := es\<rparr>" f ph] i by simp
  have n: "\<exists>q h es ph. p' = goto i ph (p\<lparr>pl_queue := q, pl_heap := h, pl_events := es\<rparr>)
      \<and> permits q + holds ph = permits (pl_queue p) + holds (wk_phase ?w)
      \<and> length (pending q) + waits (wk_phase ?w) = length (pending (pl_queue p)) + waits ph
      \<and> Suc (steps_left ph) = steps_left (wk_phase ?w)"
  proof (cases "wk_phase ?w")
    case Start
    then obtain n where "permits (pl_queue p) = Suc n" "p' = goto i Holding (p\<lparr>pl_queue := (pl_queue p)\<lparr>permits := n\<rparr>\<rparr>)"
      using assms(3) by (auto simp: work_def acquire_permit_def Let_def gr0_conv_Suc split: if_splits)
    then show ?thesis using Start
      by (intro exI [of _ "(pl_queue p)\<lparr>permits := n\<rparr>"] exI [of _ "pl_heap p"] exI [of _ "pl_events p"] exI [of _ Holding]) simp
  next
    case Holding
    then obtain t ts where t: "pending (pl_queue p) = t # ts" using pending_for_holder [OF assms(1) i] by blast
    then obtain e h where "p' = goto i (Popped e) (p\<lparr>pl_queue := (pl_queue p)\<lparr>pending := ts\<rparr>, pl_heap := h\<rparr>)"
      using assms(3) Holding by (auto simp: work_def pop_pending_def Let_def split: prod.splits)
    then show ?thesis using Holding t
      by (intro exI [of _ "(pl_queue p)\<lparr>pending := ts\<rparr>"] exI [of _ h] exI [of _ "pl_events p"] exI [of _ "Popped e"]) simp
  next
    case (Popped e)
    then show ?thesis using assms(3)
      by (intro exI [of _ "push_active e (pl_queue p)"] exI [of _ "pl_heap p"]
          exI [of _ "pl_events p @ [TransferStarted (wk_id ?w) (wk_name ?w) (wk_total ?w)]"] exI [of _ "Sending e"])
        (simp add: work_def queue_defs Let_def)
  next
    case (Sending e)
    then obtain report h where "p' = goto i Sent (p\<lparr>pl_heap := h, pl_events := pl_events p @ [report]\<rparr>)"
      using assms(3) by (auto simp: work_def Let_def)
    then show ?thesis using Sending
      by (intro exI [of _ "pl_queue p"] exI [of _ h] exI [of _ "pl_events p @ [report]"] exI [of _ Sent]) simp
  next
    case Sent
    then show ?thesis using assms(3)
      by (intro exI [of _ "mark_finished (wk_id ?w) (pl_queue p)"] exI [of _ "pl_heap p"] exI [of _ "pl_events p"]
          exI [of _ Marked]) (simp add: work_def queue_defs Let_def)
  next
    case Marked
    then show ?thesis using assms(3)
      by (intro exI [of _ "drop_permit (pl_queue p)"] exI [of _ "pl_heap p"] exI [of _ "pl_events p"]
          exI [of _ Done]) (simp add: work_def queue_defs Let_def)
  next
    case Done
    then show ?thesis using assms(3) by (simp add: work_def)
  qed
  then obtain q h es ph where p': "p' = goto i ph (p\<lparr>pl_queue := q, pl_heap := h, pl_events := es\<rparr>)"
    and c: "permits q + holds ph = permits (pl_queue p) + holds (wk_phase ?w)"
      "length (pending q) + waits (wk_phase ?w) = length (pending (pl_queue p)) + waits ph"
      "Suc (steps_left ph) = steps_left (wk_phase ?w)" by blast
  have "pl_queue p' = q" by (simp add: p')
  note g' = g [where ph = ph and q = q and h = h and es = es, folded p']
  have "permits (pl_queue p) + tally holds p = MAX_PARALLEL_TRANSFERS" "length (pending (pl_queue p)) = tally waits p"
    using assms(1) by (simp_all add: pool_inv_def)
  then have "permits q + tally holds p' = MAX_PARALLEL_TRANSFERS" "length (pending q) = tally waits p'"
    "tally steps_left p' < tally steps_left p"
    using g' [of holds] g' [of waits] g' [of steps_left] c by linarith+
  with \<open>pl_queue p' = q\<close> show ?thesis by (simp add: pool_inv_def)
qed

lemma pool_inv_move: "pool_move E p p' \<Longrightarrow> pool_inv p \<Longrightarrow> pool_inv p'"
proof (induction rule: pool_move.induct)
  case (submits p addr t)
  then show ?case by (simp add: pool_inv_def tally_submit) (simp add: submit_def enqueue_def)
next
  case (works p p')
  then show ?case by (auto elim!: worker_move_cases dest: pool_inv_work)
next
  case (others es p h)
  then show ?case by (simp add: pool_inv_def)
qed

interpretation sends: invariant_system "pool_move E" pool_inv for E :: "'h send_env"
  by unfold_locales (rule pool_inv_move)

lemma reachable_inv: "reachable E p \<Longrightarrow> pool_inv p"
proof -
  assume "reachable E p"
  then obtain h where h: "(pool_move E)\<^sup>*\<^sup>* (pool_new h) p" by (auto simp: reachable_def)
  have "pool_inv (pool_new h)" by (simp add: pool_inv_def pool_new_def queue_new_def tally_def)
  with h show ?thesis by (rule sends.run_inv)
qed

section \<open>Properties\<close>

text \<open>C20: at most three transfers run at once: at every point of every interleaving of the sending tasks, the tasks
  between taking and dropping a permit number exactly the permits taken, three at most.\<close>

theorem sends_bounded:
  assumes "reachable E p"
  shows "tally holds p \<le> MAX_PARALLEL_TRANSFERS \<and> permits (pl_queue p) = MAX_PARALLEL_TRANSFERS - tally holds p"
  using reachable_inv [OF assms] by (auto simp: pool_inv_def)

definition idle_pool :: pool where
  "idle_pool = submit (lit ''10.0.0.2:8080'') (sample_transfer 1) (pool_new sample_heap)"

definition sample_env :: "byte list send_env" where
  "sample_env = \<lparr>se_hash = toy_hash, se_show_uuid = (\<lambda>_. []), se_show_status = nat_to_string, se_pieces = byte_reads\<rparr>"

lemma idle_pool_reachable: "reachable E idle_pool"
  unfolding idle_pool_def reachable_def by (rule exI [of _ sample_heap], rule r_into_rtranclp) (rule submits)

theorem sends_bounded_witness:
  "tally holds idle_pool \<le> MAX_PARALLEL_TRANSFERS"
  using sends_bounded [OF idle_pool_reachable [of sample_env]] by blast

lemma some_task_moves:
  assumes inv: "pool_inv p"
  shows "(\<exists>p'. worker_move E p p') \<longleftrightarrow> (\<exists>w \<in> set (pl_workers p). wk_phase w \<noteq> Done)"
proof
  assume "\<exists>p'. worker_move E p p'"
  then obtain io i p' where "i < length (pl_workers p)" "work E io i p = Some p'" by (auto elim!: worker_move_cases)
  then show "\<exists>w \<in> set (pl_workers p). wk_phase w \<noteq> Done"
    by (intro bexI [of _ "pl_workers p ! i"]) (auto simp: work_def Let_def)
next
  assume ex: "\<exists>w \<in> set (pl_workers p). wk_phase w \<noteq> Done"
  have step: "\<exists>p'. worker_move E p p'" if "i < length (pl_workers p)" "work E io i p \<noteq> None" for io i
    using that by (auto intro: worker_move.work)
  show "\<exists>p'. worker_move E p p'"
  proof (cases "\<exists>i < length (pl_workers p). wk_phase (pl_workers p ! i) \<notin> {Start, Done}")
    case True
    then obtain i where i: "i < length (pl_workers p)" "wk_phase (pl_workers p ! i) \<notin> {Start, Done}" by blast
    then have "work E io i p \<noteq> None" for io
      using send_and_report_ends
      by (cases "wk_phase (pl_workers p ! i)") (fastforce simp: work_def Let_def split: prod.splits option.splits)+
    with i(1) step show ?thesis by blast
  next
    case False
    then have "holds (wk_phase w) = 0" if "w \<in> set (pl_workers p)" for w using that by (auto simp: in_set_conv_nth)
    then have "tally holds p = 0" by (simp add: tally_def)
    then have a: "permits (pl_queue p) = MAX_PARALLEL_TRANSFERS" using inv by (simp add: pool_inv_def)
    obtain i where "i < length (pl_workers p)" "wk_phase (pl_workers p ! i) \<noteq> Done"
      using ex by (auto simp: in_set_conv_nth)
    with False have i: "i < length (pl_workers p)" "wk_phase (pl_workers p ! i) = Start" by auto
    then have "work E io i p \<noteq> None" for io
      using a by (simp add: work_def Let_def acquire_permit_def MAX_PARALLEL_TRANSFERS_def)
    with i(1) step show ?thesis by blast
  qed
qed

text \<open>C14: no queued transfer is lost and none is stuck: a task that holds a permit always finds an entry to pop, as
  long as a task is not done some task can move, every move brings the tasks closer to being done (so
  any order of moves ends), and when all are done nothing is pending and all permits are back.\<close>

theorem sends_all_finish:
  assumes "reachable E p"
  shows "(\<forall>i < length (pl_workers p). wk_phase (pl_workers p ! i) = Holding \<longrightarrow> pending (pl_queue p) \<noteq> [])
    \<and> ((\<exists>p'. worker_move E p p') \<longleftrightarrow> (\<exists>w \<in> set (pl_workers p). wk_phase w \<noteq> Done))
    \<and> (\<forall>p'. worker_move E p p' \<longrightarrow> tally steps_left p' < tally steps_left p)
    \<and> ((\<forall>w \<in> set (pl_workers p). wk_phase w = Done) \<longrightarrow>
        pending (pl_queue p) = [] \<and> permits (pl_queue p) = MAX_PARALLEL_TRANSFERS)"
proof (intro conjI)
  note inv = reachable_inv [OF assms]
  show "\<forall>i < length (pl_workers p). wk_phase (pl_workers p ! i) = Holding \<longrightarrow> pending (pl_queue p) \<noteq> []"
    using pending_for_holder [OF inv] by fastforce
  show "\<forall>p'. worker_move E p p' \<longrightarrow> tally steps_left p' < tally steps_left p"
    using pool_inv_work [OF inv] by (auto elim!: worker_move_cases)
  show "(\<forall>w \<in> set (pl_workers p). wk_phase w = Done) \<longrightarrow>
        pending (pl_queue p) = [] \<and> permits (pl_queue p) = MAX_PARALLEL_TRANSFERS"
  proof
    assume d: "\<forall>w \<in> set (pl_workers p). wk_phase w = Done"
    then have "tally holds p = 0" "tally waits p = 0" by (simp_all add: tally_def)
    with inv show "pending (pl_queue p) = [] \<and> permits (pl_queue p) = MAX_PARALLEL_TRANSFERS"
      by (simp add: pool_inv_def)
  qed
  show "(\<exists>p'. worker_move E p p') \<longleftrightarrow> (\<exists>w \<in> set (pl_workers p). wk_phase w \<noteq> Done)"
    by (rule some_task_moves [OF inv])
qed

theorem sends_all_finish_witness:
  "\<exists>p'. worker_move sample_env idle_pool p'"
proof -
  have "worker_of (lit ''10.0.0.2:8080'') (sample_transfer 1) \<in> set (pl_workers idle_pool)" "wk_phase (worker_of (lit ''10.0.0.2:8080'') (sample_transfer 1)) \<noteq> Done"
    by (simp_all add: idle_pool_def submit_def worker_of_def)
  with sends_all_finish [OF idle_pool_reachable [of sample_env]] show ?thesis by blast
qed

text \<open>What the events say: a task announces its transfer before it sends and reports the outcome after.\<close>

fun begun :: "phase \<Rightarrow> bool" where
  "begun Start = False" | "begun Holding = False" | "begun (Popped _) = False" | "begun _ = True"

fun ended :: "phase \<Rightarrow> bool" where
  "ended Sent = True" | "ended Marked = True" | "ended Done = True" | "ended _ = False"

fun starts :: "uuid \<Rightarrow> FileDropEvent \<Rightarrow> bool" where
  "starts u (TransferStarted v _ _) = (v = u)"
| "starts u _ = False"

fun reports :: "uuid \<Rightarrow> FileDropEvent \<Rightarrow> bool" where
  "reports u (TransferCompleted v _) = (v = u)"
| "reports u (TransferFailed v _) = (v = u)"
| "reports u _ = False"

definition in_phase :: "uuid \<Rightarrow> (phase \<Rightarrow> bool) \<Rightarrow> worker \<Rightarrow> bool" where
  "in_phase u f w \<longleftrightarrow> wk_id w = u \<and> f (wk_phase w)"

definition told :: "pool \<Rightarrow> bool" where
  "told p \<longleftrightarrow> (\<forall>u. length (filter (starts u) (pl_events p)) = length (filter (in_phase u begun) (pl_workers p))
     \<and> length (filter (reports u) (pl_events p)) = length (filter (in_phase u ended) (pl_workers p)))"

lemma length_filter_update:
  "i < length xs \<Longrightarrow> length (filter P (xs[i := y])) + of_bool (P (xs ! i)) = length (filter P xs) + of_bool (P y)"
proof (induction xs arbitrary: i)
  case Nil
  then show ?case by simp
next
  case (Cons x xs)
  show ?case
  proof (cases i)
    case 0
    then show ?thesis by simp
  next
    case (Suc j)
    then show ?thesis using Cons.IH [of j] Cons.prems by simp
  qed
qed

lemma told_goto:
  assumes "told p" and i: "i < length (pl_workers p)"
    and "pl_workers q = pl_workers p" and "pl_events q = pl_events p @ es"
    and "\<And>u. length (filter (starts u) es) + of_bool (in_phase u begun (pl_workers p ! i))
           = of_bool (wk_id (pl_workers p ! i) = u \<and> begun ph)"
    and "\<And>u. length (filter (reports u) es) + of_bool (in_phase u ended (pl_workers p ! i))
           = of_bool (wk_id (pl_workers p ! i) = u \<and> ended ph)"
  shows "told (goto i ph q)"
proof -
  let ?w = "pl_workers p ! i"
  have u: "length (filter (in_phase u f) ((pl_workers p)[i := ?w\<lparr>wk_phase := ph\<rparr>])) + of_bool (in_phase u f ?w)
      = length (filter (in_phase u f) (pl_workers p)) + of_bool (wk_id ?w = u \<and> f ph)" for u f
    using length_filter_update [OF i, of "in_phase u f" "?w\<lparr>wk_phase := ph\<rparr>"] by (simp add: in_phase_def)
  have "length (filter (starts v) (pl_events (goto i ph q)))
      = length (filter (in_phase v begun) (pl_workers (goto i ph q)))" for v
    using assms(1) u [of v begun] assms(5) [of v] assms(4) by (simp add: told_def goto_def assms(3))
  moreover have "length (filter (reports v) (pl_events (goto i ph q)))
      = length (filter (in_phase v ended) (pl_workers (goto i ph q)))" for v
    using assms(1) u [of v ended] assms(6) [of v] assms(4) by (simp add: told_def goto_def assms(3))
  ultimately show ?thesis by (simp add: told_def)
qed

lemma reports_send: "send_and_report E io w session h = Some (report, h') \<Longrightarrow>
    starts u report = False \<and> reports u report = (wk_id w = u)"
  unfolding send_and_report_def
  by (auto split: option.split_asm prod.split_asm sum.split_asm)

lemma told_work:
  assumes "told p" and "pool_inv p" and i: "i < length (pl_workers p)" and "work E io i p = Some p'"
  shows "told p'"
proof (cases "wk_phase (pl_workers p ! i)")
  case Start
  then show ?thesis using assms(4)
    by (auto simp: work_def Let_def in_phase_def intro!: told_goto [OF assms(1) i, where es = "[]"])
next
  case Holding
  then obtain t ts where "pending (pl_queue p) = t # ts" using pending_for_holder [OF assms(2) i] by blast
  then show ?thesis using assms(4) Holding
    by (auto simp: work_def Let_def in_phase_def pop_pending_def split: prod.splits
        intro!: told_goto [OF assms(1) i, where es = "[]"])
next
  case (Popped e)
  then show ?thesis using assms(4)
    by (auto simp: work_def Let_def in_phase_def intro!: told_goto [OF assms(1) i])
next
  case (Sending e)
  then obtain report h where r: "send_and_report E io (pl_workers p ! i) (snd e) (pl_heap p) = Some (report, h)"
    and p': "p' = goto i Sent (p\<lparr>pl_heap := h, pl_events := pl_events p @ [report]\<rparr>)"
    using assms(4) by (auto simp: work_def Let_def)
  show ?thesis unfolding p' using Sending reports_send [OF r]
    by (intro told_goto [OF assms(1) i, where es = "[report]"]) (simp_all add: in_phase_def)
next
  case Sent
  then show ?thesis using assms(4)
    by (auto simp: work_def Let_def in_phase_def intro!: told_goto [OF assms(1) i, where es = "[]"])
next
  case Marked
  then show ?thesis using assms(4)
    by (auto simp: work_def Let_def in_phase_def intro!: told_goto [OF assms(1) i, where es = "[]"])
next
  case Done
  then show ?thesis using assms(4) by (simp add: work_def)
qed

lemma silent_event: "\<not> task_event e \<Longrightarrow> \<not> starts u e \<and> \<not> reports u e"
  by (cases e) simp_all

lemma told_move: "pool_move E p p' \<Longrightarrow> pool_inv p \<and> told p \<Longrightarrow> pool_inv p' \<and> told p'"
proof (induction rule: pool_move.induct)
  case (submits p addr t)
  then show ?case using pool_move.submits [THEN pool_inv_move, of p]
    by (simp add: told_def) (simp add: submit_def in_phase_def worker_of_def)
next
  case (works p p')
  then show ?case by (auto elim!: worker_move_cases dest: pool_inv_work told_work)
next
  case (others es p h)
  have "filter (starts u) es = []" "filter (reports u) es = []" for u
    using others(1) silent_event [of _ u] by (auto simp: list_all_iff filter_empty_conv)
  with others(2) show ?case by (simp add: pool_inv_def told_def)
qed

interpretation reported: invariant_system "pool_move E" "\<lambda>p. pool_inv p \<and> told p" for E :: "'h send_env"
  by unfold_locales (rule told_move)

text \<open>C19: every transfer is reported: at every point of every interleaving, the started events of an id are as many
  as the tasks of that id that have begun to send, and its completed and failed events together as many
  as those that have ended, so a task that is done has announced its transfer once and reported its
  outcome once.\<close>

theorem sends_reported:
  assumes "reachable E p"
  shows "length (filter (starts u) (pl_events p)) = length (filter (in_phase u begun) (pl_workers p))
    \<and> length (filter (reports u) (pl_events p)) = length (filter (in_phase u ended) (pl_workers p))"
proof -
  obtain h where h: "(pool_move E)\<^sup>*\<^sup>* (pool_new h) p" using assms by (auto simp: reachable_def)
  have "pool_inv (pool_new h) \<and> told (pool_new h)"
    by (simp add: pool_inv_def pool_new_def queue_new_def tally_def told_def)
  with h have "pool_inv p \<and> told p" by (rule reported.run_inv)
  then show ?thesis by (simp add: told_def)
qed

theorem sends_reported_witness:
  "length (filter (reports 1) (pl_events idle_pool)) = 0"
  using sends_reported [OF idle_pool_reachable [of sample_env], of 1]
  by (simp add: idle_pool_def submit_def in_phase_def worker_of_def pool_new_def)

section \<open>Corners of the code\<close>

text \<open>A task does not check whose entry it pops. Two files are submitted and the second task runs first: it pops
  the first file's entry and sends its own file on that entry's session; when it finishes it removes
  its own id, which is not active yet. The first task then registers the second file's entry, and
  removes only its own id. All tasks are done, and the second transfer stays active for good.\<close>

definition some_io :: worker_io where
  "some_io = \<lparr>wi_now = 0, wi_disk = abc_disk, wi_net = (\<lambda>_. (0, Inr (200, None))), wi_send = send_fine\<lparr>si_meta := Some []\<rparr>,
     wi_rehash = None\<rparr>"

primrec works_in_turn :: "nat list \<Rightarrow> pool \<Rightarrow> pool option" where
  "works_in_turn [] p = Some p"
| "works_in_turn (i # is) p =
     (if i < length (pl_workers p) then Option.bind (work sample_env some_io i p) (works_in_turn is) else None)"

lemma works_in_turn_reachable: "works_in_turn is p = Some p' \<Longrightarrow> reachable sample_env p \<Longrightarrow> reachable sample_env p'"
proof (induction "is" arbitrary: p)
  case Nil
  then show ?case by simp
next
  case (Cons i "is")
  then obtain p1 where p1: "i < length (pl_workers p)" "work sample_env some_io i p = Some p1" "works_in_turn is p1 = Some p'"
    by (auto simp: bind_eq_Some_conv split: if_splits)
  have "pool_move sample_env p p1" using p1(1,2) by (intro works worker_move.work)
  with Cons.prems(2) have "reachable sample_env p1" unfolding reachable_def by (meson rtranclp.rtrancl_into_rtrancl)
  with Cons.IH p1(3) show ?case by blast
qed

definition swapped :: "pool option" where
  "swapped = works_in_turn (replicate 6 1 @ replicate 6 0)
     (submit [] (sample_transfer 2) (submit [] (sample_transfer 1) (pool_new sample_heap)))"

lemma swapped_leaves_entry:
  "\<exists>p. swapped = Some p \<and> list_all (\<lambda>w. wk_phase w = Done) (pl_workers p)
    \<and> map (\<lambda>e. qt_id (fst e)) (active (pl_queue p)) = [2] \<and> find_session 2 (pl_queue p) \<noteq> None"
  by (simp add: swapped_def numeral_eq_Suc work_def submit_def pool_new_def queue_new_def worker_of_def sample_transfer_def
      sample_heap_def queue_defs goto_def pop_pending_def session_new_def MAX_PARALLEL_TRANSFERS_def some_io_def Let_def
      find_session_def send_and_report_def send_file_def open_to_send_def send_fine_def)

lemma swapped_reachable: "swapped = Some p \<Longrightarrow> reachable sample_env p"
proof -
  assume s: "swapped = Some p"
  have one: "(pool_move sample_env)\<^sup>*\<^sup>* (pool_new sample_heap) (submit [] (sample_transfer 1) (pool_new sample_heap))"
    by (rule r_into_rtranclp) (rule submits)
  have "(pool_move sample_env)\<^sup>*\<^sup>* (pool_new sample_heap) (submit [] (sample_transfer 2) (submit [] (sample_transfer 1) (pool_new sample_heap)))"
    by (rule rtranclp.rtrancl_into_rtrancl [OF one]) (rule submits)
  then have "reachable sample_env (submit [] (sample_transfer 2) (submit [] (sample_transfer 1) (pool_new sample_heap)))"
    unfolding reachable_def by blast
  with s show ?thesis unfolding swapped_def by (rule works_in_turn_reachable)
qed

end
