(* ===== verification/Api.thy ===== *)
theory Api
  imports Dto Workers
begin

text \<open>
  \<^verbatim>\<open>filedrop-ffi/src/api/mod.rs\<close>: the functions Dart calls, over the \<open>process\<close>. An error is its text. What the
  system, the random generators and the clock give are arguments. \<open>send_files\<close> also returns the tasks it
  spawned; \<open>Workers\<close> is how they go on.
\<close>

definition show_err :: "(uuid \<Rightarrow> rstring) \<Rightarrow> 'a result \<Rightarrow> rstring + 'a" where
  "show_err show_uuid r = map_err (display_error show_uuid) r"

text \<open>\<^verbatim>\<open>unwrap_or_default\<close> of a list result.\<close>

definition list_or_default :: "'a list result \<Rightarrow> 'a list" where
  "list_or_default r = (case r of Inl _ \<Rightarrow> [] | Inr l \<Rightarrow> l)"

section \<open>Events and the engine\<close>

datatype received = Got_event FileDropEvent | Lagged nat | Closed

text \<open>\<^verbatim>\<open>subscribe_events\<close> over what the channel yields, each with whether the sink still takes it: what reached
  Dart, and whether the function returned.\<close>

fun subscribe_events :: "(received \<times> bool) list \<Rightarrow> FileDropEventDto list \<times> (rstring + unit) option" where
  "subscribe_events [] = ([], None)"
| "subscribe_events ((Got_event e, sink_ok) # rest) =
     (if sink_ok then (let (es, r) = subscribe_events rest in (dto_of_event e # es, r)) else ([], Some (Inr ())))"
| "subscribe_events ((Lagged n, sink_ok) # rest) = subscribe_events rest"
| "subscribe_events ((Closed, sink_ok) # rest) = ([], Some (Inr ()))"

definition init_engine ::
  "(uuid \<Rightarrow> rstring) \<Rightarrow> (byte list \<Rightarrow> rstring + TransferRecord list) \<Rightarrow> (rstring \<Rightarrow> rstring option) \<Rightarrow> bool \<Rightarrow> rstring option \<Rightarrow>
   uuid \<Rightarrow> rstring \<Rightarrow> rstring \<Rightarrow> process \<Rightarrow> (rstring + uuid) \<times> process" where
  "init_engine show_uuid de dir_io exists_ok read_err fresh device_name app_data p =
     (case engine_init de dir_io exists_ok read_err fresh device_name app_data (disk_of p) of
        (Inl e, d) \<Rightarrow> (Inl (display_error show_uuid e), p\<lparr>disk_of := d\<rparr>)
      | (Inr eng, d) \<Rightarrow>
          (let p1 = p\<lparr>disk_of := d\<rparr> in
           case rt_engine (rt p1) of
             Some _ \<Rightarrow> (Inl (lit ''engine already initialized''), p1)
           | None \<Rightarrow> (Inr (eng_device_id eng), set_engine eng p1)))"

definition the_engine :: "process \<Rightarrow> rstring + FileDropEngine" where
  "the_engine p =
     (case rt_engine (rt p) of
        Some e \<Rightarrow> Inr e
      | None \<Rightarrow> Inl (lit ''engine not initialized; call init_engine first''))"

section \<open>Server\<close>

text \<open>The first of this device's addresses as text.\<close>

definition first_address :: "(128 word \<Rightarrow> rstring) \<Rightarrow> ip_addr list result \<Rightarrow> rstring option" where
  "first_address show_v6 addresses = map_option (show_ip show_v6) (iter_next (list_or_default addresses))"

text \<open>Storing a new sender drops the one stored before, which tells the server it belonged to to stop.\<close>

definition store_shutdown :: "nat option \<Rightarrow> process \<Rightarrow> process" where
  "store_shutdown tx p =
     p\<lparr>rt := (rt p)\<lparr>rt_server_shutdown := tx\<rparr>,
       servers := (case rt_server_shutdown (rt p) of None \<Rightarrow> servers p | Some old \<Rightarrow> servers p - {old})\<rparr>"

definition start_server ::
  "(uuid \<Rightarrow> rstring) \<Rightarrow> (128 word \<Rightarrow> rstring) \<Rightarrow> (u16 \<Rightarrow> bool) \<Rightarrow> (u16 \<Rightarrow> rstring + unit) \<Rightarrow> rstring + socket_addr \<Rightarrow>
   ip_addr list result \<Rightarrow> nat \<Rightarrow> process \<Rightarrow> (rstring + ResolvedEndpointDto) \<times> process" where
  "start_server show_uuid show_v6 bind_ok listen local_addr addresses tx p =
     (case the_engine p of Inl e \<Rightarrow> (Inl e, p) | Inr eng \<Rightarrow>
     (case show_err show_uuid (pick_server_port bind_ok) of Inl e \<Rightarrow> (Inl e, p) | Inr port \<Rightarrow>
     (case listen port of Inl e \<Rightarrow> (Inl e, p) | Inr _ \<Rightarrow>
     (case local_addr of Inl e \<Rightarrow> (Inl e, p) | Inr la \<Rightarrow>
        (let p1 = store_shutdown (Some tx) p; p2 = p1\<lparr>servers := insert tx (servers p1)\<rparr>
         in (Inr \<lparr>red_address = unwrap_or (first_address show_v6 addresses) (show_ip show_v6 (sa_ip la)),
                  red_port = sa_port la\<rparr>, p2))))))"

definition stop_server :: "process \<Rightarrow> (rstring + unit) \<times> process" where
  "stop_server p =
     (Inr (), case rt_server_shutdown (rt p) of Some _ \<Rightarrow> store_shutdown None p | None \<Rightarrow> p)"

section \<open>Discovery\<close>

definition start_discovery ::
  "(uuid \<Rightarrow> rstring) \<Rightarrow> (rstring \<Rightarrow> 128 word option) \<Rightarrow> (service_info \<Rightarrow> rstring + unit) \<Rightarrow> (service_info \<Rightarrow> rstring + unit) \<Rightarrow>
   rstring + unit \<Rightarrow> rstring + unit \<Rightarrow> rstring + unit \<Rightarrow> DiscoveredDeviceDto \<Rightarrow> process \<Rightarrow> (rstring + unit) \<times> process" where
  "start_discovery show_uuid parse_v6 build register daemon browse sockets self_device p =
     (case show_err show_uuid (service_new daemon (lit ''filedrop'')) of Inl e \<Rightarrow> (Inl e, p) | Inr service \<Rightarrow>
     (case service_start show_uuid parse_v6 build register browse sockets (device_of_dto self_device) service of
        (Inl e, _) \<Rightarrow> (Inl (display_error show_uuid e), p)
      | (Inr _, service') \<Rightarrow> (Inr (), p\<lparr>rt := (rt p)\<lparr>rt_discovery := Some service'\<rparr>\<rparr>)))"

text \<open>A device arriving at the task \<^verbatim>\<open>start_discovery\<close> spawned, after \<^verbatim>\<open>forward_devices\<close> has entered it.\<close>

definition device_arrives :: "DiscoveredDevice \<Rightarrow> process \<Rightarrow> process" where
  "device_arrives dev p =
     emit (DeviceDiscovered dev)
       (p\<lparr>rt := (rt p)\<lparr>rt_discovery := map_option (insert_device dev) (rt_discovery (rt p))\<rparr>\<rparr>)"

definition stop_discovery :: "(uuid \<Rightarrow> rstring) \<Rightarrow> process \<Rightarrow> (rstring + unit) \<times> process" where
  "stop_discovery show_uuid p =
     (case rt_discovery (rt p) of
        Some service \<Rightarrow>
          (show_err show_uuid (fst (service_stop service)), p\<lparr>rt := (rt p)\<lparr>rt_discovery := None\<rparr>\<rparr>)
      | None \<Rightarrow> (Inr (), p))"

definition get_nearby_devices :: "uuid list \<Rightarrow> process \<Rightarrow> rstring + DiscoveredDeviceDto list" where
  "get_nearby_devices ks p =
     (case rt_discovery (rt p) of
        Some service \<Rightarrow> Inr (map dto_of_device (nearby_devices ks service))
      | None \<Rightarrow> Inr [])"

section \<open>Pairing\<close>

definition chrono_now_plus_secs :: "u64 option \<Rightarrow> i64 \<Rightarrow> i64" where
  "chrono_now_plus_secs since_epoch secs = i64_wrap (i64_wrap (int (unat (unwrap_or since_epoch 0))) + secs)"

text \<open>\<open>t1\<close> and \<open>t2\<close> are the two readings of the clock.\<close>

definition pair_device ::
  "(128 word \<Rightarrow> rstring) \<Rightarrow> ip_addr list result \<Rightarrow> rstring \<Rightarrow> u64 option \<Rightarrow> u64 option \<Rightarrow> uuid \<Rightarrow> rstring \<Rightarrow> process \<Rightarrow>
   (rstring + QrPairingPayloadDto) \<times> process" where
  "pair_device show_v6 addresses tok t1 t2 peer_device_id peer_name p =
     (case the_engine p of
        Inl e \<Rightarrow> (Inl e, p)
      | Inr eng \<Rightarrow>
          (let pairing = snd (create_request peer_device_id peer_name tok 300 (now_unix t1) (as_pairing eng));
               p1 = emit (PairingRequested peer_device_id peer_name tok) (set_engine (eng\<lparr>as_pairing := pairing\<rparr>) p)
           in (Inr \<lparr>qrd_version = 1, qrd_device_id = eng_device_id eng, qrd_device_name = eng_device_name eng,
                    qrd_address = unwrap_or (first_address show_v6 addresses) [], qrd_port = DEFAULT_PORT, qrd_token = tok,
                    qrd_expires_at = chrono_now_plus_secs t2 300\<rparr>, p1)))"

text \<open>\<^verbatim>\<open>accept_transfer\<close> and \<^verbatim>\<open>reject_transfer\<close>: a confirmation, with the transfer's id as the peer's.\<close>

definition confirm_transfer :: "(uuid \<Rightarrow> rstring) \<Rightarrow> bool \<Rightarrow> uuid \<Rightarrow> process \<Rightarrow> (rstring + unit) \<times> process" where
  "confirm_transfer show_uuid accept transfer_id p =
     (case the_engine p of
        Inl e \<Rightarrow> (Inl e, p)
      | Inr eng \<Rightarrow>
          (case confirm transfer_id accept (as_pairing eng) of
             (Inl e, m) \<Rightarrow> (Inl (display_error show_uuid e), set_engine (eng\<lparr>as_pairing := m\<rparr>) p)
           | (Inr _, m) \<Rightarrow> (Inr (), set_engine (eng\<lparr>as_pairing := m\<rparr>) p)))"

definition accept_transfer :: "(uuid \<Rightarrow> rstring) \<Rightarrow> uuid \<Rightarrow> process \<Rightarrow> (rstring + unit) \<times> process" where
  "accept_transfer show_uuid = confirm_transfer show_uuid True"

definition reject_transfer :: "(uuid \<Rightarrow> rstring) \<Rightarrow> uuid \<Rightarrow> process \<Rightarrow> (rstring + unit) \<times> process" where
  "reject_transfer show_uuid = confirm_transfer show_uuid False"

section \<open>Sending\<close>

text \<open>The loop of \<^verbatim>\<open>send_files\<close>; \<open>meta_err\<close> is the failure of reading a file's metadata, \<open>fresh\<close> the random ids.
  A file that cannot be read ends the call; what was queued before stays queued, with its task.\<close>

fun send_loop ::
  "(rstring \<Rightarrow> rstring option) \<Rightarrow> disk \<Rightarrow> uuid \<Rightarrow> uuid list \<Rightarrow> rstring list \<Rightarrow> QueuedTransfer list \<Rightarrow>
   (rstring + uuid list) \<times> QueuedTransfer list" where
  "send_loop meta_err d peer fresh [] queued = (Inr (map qt_id queued), queued)"
| "send_loop meta_err d peer fresh (path # paths) queued =
     (case (case meta_err path of Some e \<Rightarrow> Inl e
            | None \<Rightarrow> (case disk_read path d of None \<Rightarrow> Inl ENOENT | Some c \<Rightarrow> Inr c)) of
        Inl e \<Rightarrow> (Inl (lit ''cannot read '' @ path @ lit '': '' @ e), queued)
      | Inr content \<Rightarrow>
          send_loop meta_err d peer (tl fresh) paths
            (queued @ [\<lparr>qt_id = hd fresh, qt_file_path = path, qt_file_name = sent_name path,
               qt_total_bytes = of_nat (length content), qt_peer_device_id = peer, qt_direction = Send,
               qt_status = Queued\<rparr>]))"

text \<open>\<^verbatim>\<open>Display\<close> of a \<^verbatim>\<open>SocketAddr\<close>.\<close>

definition show_socket_addr :: "(128 word \<Rightarrow> rstring) \<Rightarrow> socket_addr \<Rightarrow> rstring" where
  "show_socket_addr show_v6 a =
     (case sa_ip a of V6 w \<Rightarrow> lit ''['' @ show_v6 w @ lit '']'' | V4 _ _ _ _ \<Rightarrow> show_ip show_v6 (sa_ip a))
     @ lit '':'' @ nat_to_string (unat (sa_port a))"

definition send_files ::
  "(128 word \<Rightarrow> rstring) \<Rightarrow> (rstring \<Rightarrow> rstring + socket_addr) \<Rightarrow> (rstring \<Rightarrow> rstring option) \<Rightarrow> uuid list \<Rightarrow> rstring \<Rightarrow> u16 \<Rightarrow>
   uuid \<Rightarrow> rstring list \<Rightarrow> process \<Rightarrow> (rstring + uuid list) \<times> process \<times> worker list" where
  "send_files show_v6 parse_addr meta_err fresh peer_address peer_port peer_device_id file_paths p =
     (case the_engine p of Inl e \<Rightarrow> (Inl e, p, []) | Inr eng \<Rightarrow>
     (case parse_addr (peer_address @ lit '':'' @ nat_to_string (unat peer_port)) of
        Inl e \<Rightarrow> (Inl (lit ''invalid peer address: '' @ e), p, [])
      | Inr addr \<Rightarrow>
          (let (result, queued) = send_loop meta_err (disk_of p) peer_device_id fresh file_paths []
           in (result, set_engine (eng\<lparr>as_queue := fold enqueue queued (as_queue eng)\<rparr>) p, map (worker_of (show_socket_addr show_v6 addr)) queued))))"

section \<open>Control and status\<close>

text \<open>Pausing, resuming and cancelling look the transfer up among the queue's active ones.\<close>

definition control_transfer ::
  "(uuid \<Rightarrow> rstring) \<Rightarrow> control \<Rightarrow> uuid \<Rightarrow> process \<Rightarrow> (rstring + unit) \<times> process" where
  "control_transfer show_uuid c transfer_id p =
     (case the_engine p of
        Inl e \<Rightarrow> (Inl e, p)
      | Inr eng \<Rightarrow>
          (case find_session transfer_id (as_queue eng) of
             Some session \<Rightarrow>
               (let p1 = p\<lparr>heap_of := apply_control c session (heap_of p)\<rparr>
                in (Inr (), if c = Pause then emit (TransferPaused transfer_id) p1 else p1))
           | None \<Rightarrow> (Inl (lit ''transfer '' @ show_uuid transfer_id @ lit '' not active''), p)))"

definition pause_transfer :: "(uuid \<Rightarrow> rstring) \<Rightarrow> uuid \<Rightarrow> process \<Rightarrow> (rstring + unit) \<times> process" where
  "pause_transfer show_uuid = control_transfer show_uuid Pause"

definition resume_transfer :: "(uuid \<Rightarrow> rstring) \<Rightarrow> uuid \<Rightarrow> process \<Rightarrow> (rstring + unit) \<times> process" where
  "resume_transfer show_uuid = control_transfer show_uuid Resume"

definition cancel_transfer :: "(uuid \<Rightarrow> rstring) \<Rightarrow> uuid \<Rightarrow> process \<Rightarrow> (rstring + unit) \<times> process" where
  "cancel_transfer show_uuid = control_transfer show_uuid Cancel"

definition get_transfer_status ::
  "(uuid \<Rightarrow> rstring) \<Rightarrow> (real \<Rightarrow> f64) \<Rightarrow> nat \<Rightarrow> uuid \<Rightarrow> process \<Rightarrow> rstring + TransferProgressDto" where
  "get_transfer_status show_uuid fl now transfer_id p =
     and_then (the_engine p)
       (\<lambda>eng. case find_session transfer_id (as_queue eng) of
                Some s \<Rightarrow> Inr (dto_of_progress (session_progress fl InProgress None now s (heap_of p)))
              | None \<Rightarrow> Inl (lit ''transfer '' @ show_uuid transfer_id @ lit '' not found''))"

definition get_transfer_history :: "uuid list \<Rightarrow> process \<Rightarrow> rstring + TransferRecordDto list" where
  "get_transfer_history ks p = and_then (the_engine p) (\<lambda>eng. Inr (map dto_of_record (history_list ks (as_history eng))))"

definition platform_direct_capability :: "rstring \<Rightarrow> PlatformDirectCapabilityDto" where
  "platform_direct_capability target_os = dto_of_capability (platform_capability target_os)"

definition check_usable_lan ::
  "(uuid \<Rightarrow> rstring) \<Rightarrow> (128 word \<Rightarrow> rstring) \<Rightarrow> rstring + interface list \<Rightarrow> rstring + rstring option" where
  "check_usable_lan show_uuid show_v6 interfaces =
     show_err show_uuid (map_ok (map_option (show_ip show_v6)) (usable_lan_ipv4 interfaces))"

section \<open>Calls\<close>

text \<open>What one call can do to the process; a server gets a channel no running server has. A device found by a service
  that was stopped or replaced meanwhile is still announced, but entered nowhere that can be read.\<close>

inductive plain_call :: "process \<Rightarrow> process \<Rightarrow> bool" where
  init: "plain_call p (snd (init_engine su de dio xo re fresh name dir p))"
| start_srv: "tx \<notin> servers p \<Longrightarrow> plain_call p (snd (start_server su sv bind listen la addrs tx p))"
| stop_srv: "plain_call p (snd (stop_server p))"
| start_disc: "plain_call p (snd (start_discovery su pv build reg daemon browse socks dev p))"
| arrival: "plain_call p (device_arrives dev p)"
| late_arrival: "plain_call p (emit (DeviceDiscovered dev) p)"
| stop_disc: "plain_call p (snd (stop_discovery su p))"
| pair: "plain_call p (snd (pair_device sv addrs tok t1 t2 peer name p))"
| decide: "plain_call p (snd (confirm_transfer su accept u p))"
| control: "plain_call p (snd (control_transfer su c u p))"

inductive api_call :: "process \<Rightarrow> process \<Rightarrow> bool" where
  plain: "plain_call p p' \<Longrightarrow> api_call p p'"
| send: "api_call p (fst (snd (send_files sv pa me fr addr port peer paths p)))"

inductive_cases api_call_cases: "api_call p p'"

lemmas api_defs = init_engine_def start_server_def stop_server_def start_discovery_def device_arrives_def
  stop_discovery_def pair_device_def confirm_transfer_def send_files_def control_transfer_def the_engine_def
  store_shutdown_def

text \<open>The shutdown sender kept is that of the one server accepting.\<close>

definition server_inv :: "process \<Rightarrow> bool" where
  "server_inv p \<longleftrightarrow> servers p = set_option (rt_server_shutdown (rt p))"

lemma server_inv_plain:
  assumes "plain_call p p'" and "server_inv p"
  shows "server_inv p'"
  using assms
proof (cases rule: plain_call.cases)
  case (start_srv tx su sv bind listen la addrs)
  with assms(2) show ?thesis
    by (auto simp: server_inv_def api_defs Let_def split: option.splits sum.splits)
next
  case stop_srv
  with assms(2) show ?thesis by (auto simp: server_inv_def api_defs split: option.splits)
qed (auto simp: server_inv_def api_defs Let_def emit_def set_engine_def split: option.splits sum.splits prod.splits)

lemma server_inv_call: "api_call p p' \<Longrightarrow> server_inv p \<Longrightarrow> server_inv p'"
proof (erule api_call_cases)
  show "plain_call p p' \<Longrightarrow> server_inv p \<Longrightarrow> server_inv p'" by (rule server_inv_plain)
qed (auto simp: server_inv_def api_defs Let_def set_engine_def split: option.splits sum.splits prod.splits)

interpretation calls: invariant_system api_call server_inv
  by unfold_locales (rule server_inv_call)

definition process_new :: "heap \<Rightarrow> disk \<Rightarrow> process" where
  "process_new h d = \<lparr>rt = runtime_new, servers = {}, heap_of = h, disk_of = d\<rparr>"

lemma process_new_inv: "server_inv (process_new h d)"
  by (simp add: server_inv_def process_new_def runtime_new_def)

section \<open>Properties\<close>



lemma identity_plain:
  assumes "plain_call p p'" and "rt_engine (rt p) = Some e"
  shows "\<exists>e'. rt_engine (rt p') = Some e' \<and> eng_device_id e' = eng_device_id e \<and> eng_device_name e' = eng_device_name e
    \<and> as_paths e' = as_paths e \<and> as_history e' = as_history e \<and> as_sessions e' = as_sessions e"
  using assms
  by (cases rule: plain_call.cases) (auto simp: api_defs Let_def split: option.splits sum.splits prod.splits)

lemma identity_call:
  assumes "api_call p p'" and "rt_engine (rt p) = Some e"
  shows "\<exists>e'. rt_engine (rt p') = Some e' \<and> eng_device_id e' = eng_device_id e \<and> eng_device_name e' = eng_device_name e
    \<and> as_paths e' = as_paths e \<and> as_history e' = as_history e \<and> as_sessions e' = as_sessions e"
  using assms(1)
proof (rule api_call_cases)
  assume "plain_call p p'"
  then show ?thesis using assms(2) by (rule identity_plain)
qed (use assms(2) in \<open>auto simp: api_defs Let_def split: option.splits sum.splits prod.splits\<close>)

lemma identity_calls:
  assumes "api_call\<^sup>*\<^sup>* p p'" and "rt_engine (rt p) = Some e"
  shows "\<exists>e'. rt_engine (rt p') = Some e' \<and> eng_device_id e' = eng_device_id e \<and> eng_device_name e' = eng_device_name e
    \<and> as_paths e' = as_paths e \<and> as_history e' = as_history e \<and> as_sessions e' = as_sessions e"
  using assms
proof (induction rule: rtranclp_induct)
  case base
  then show ?case by blast
next
  case (step q r)
  then obtain f where "rt_engine (rt q) = Some f" "eng_device_id f = eng_device_id e" "eng_device_name f = eng_device_name e"
    "as_paths f = as_paths e" "as_history f = as_history e" "as_sessions f = as_sessions e" by blast
  with identity_call [OF step.hyps(2)] show ?case by metis
qed

lemma init_twice:
  "rt_engine (rt p) = Some e \<Longrightarrow> \<exists>msg d. init_engine su de io x re fresh name dir p = (Inl msg, p\<lparr>disk_of := d\<rparr>)"
  by (auto simp: init_engine_def Let_def split: prod.splits sum.splits)

text \<open>C33: the identity is set once: an initialized engine keeps its device id, its name, its paths, its history and
  the server's sessions through any sequence of calls (no call ever records a transfer), and another
  initialization is refused with nothing changed but files on disk.\<close>

theorem identity_is_stable:
  assumes "api_call\<^sup>*\<^sup>* p p'" and "rt_engine (rt p) = Some e"
  shows "\<exists>e' msg d. rt_engine (rt p') = Some e' \<and> eng_device_id e' = eng_device_id e
    \<and> eng_device_name e' = eng_device_name e \<and> as_paths e' = as_paths e
    \<and> history_list ks (as_history e') = history_list ks (as_history e) \<and> as_sessions e' = as_sessions e
    \<and> init_engine su de io x re fresh name dir p' = (Inl msg, p'\<lparr>disk_of := d\<rparr>)"
proof -
  obtain e' where e: "rt_engine (rt p') = Some e'" "eng_device_id e' = eng_device_id e" "eng_device_name e' = eng_device_name e"
    "as_paths e' = as_paths e" "as_history e' = as_history e" "as_sessions e' = as_sessions e"
    using identity_calls [OF assms] by blast
  obtain msg d where "init_engine su de io x re fresh name dir p' = (Inl msg, p'\<lparr>disk_of := d\<rparr>)"
    using init_twice [OF e(1)] by blast
  with e show ?thesis by auto
qed

definition sample_engine :: FileDropEngine where
  "sample_engine = \<lparr>as_paths = sample_paths, as_queue = queue_new, as_history = sample_store, as_pairing = psm_new,
     as_sessions = Map.empty, eng_device_id = 4, eng_device_name = [65]\<rparr>"

definition sample_process :: process where
  "sample_process = set_engine sample_engine (process_new sample_heap abc_disk)"

theorem identity_is_stable_witness:
  "\<exists>e'. rt_engine (rt (snd (stop_server sample_process))) = Some e' \<and> eng_device_id e' = 4"
proof -
  have r: "api_call\<^sup>*\<^sup>* sample_process (snd (stop_server sample_process))" by (rule r_into_rtranclp) (rule plain [OF stop_srv])
  have e: "rt_engine (rt sample_process) = Some sample_engine" by (simp add: sample_process_def)
  from identity_is_stable [OF r e] show ?thesis by (fastforce simp: sample_engine_def)
qed




definition busy_process :: process where
  "busy_process =
     set_engine (sample_engine\<lparr>as_queue := push_active (sample_transfer 1, abc_session) queue_new\<rparr>) sample_process"


lemma receiving_not_controllable:
  "rt_engine (rt p) = Some eng \<Longrightarrow> find_session u (as_queue eng) = None \<Longrightarrow> as_sessions eng u = Some s \<Longrightarrow>
    control_transfer su c u p = (Inl (lit ''transfer '' @ su u @ lit '' not active''), p)"
  by (simp add: control_transfer_def the_engine_def)

lemma accept_is_a_confirmation:
  "rt_engine (rt p) = Some eng \<Longrightarrow> requests (as_pairing eng) u = None \<Longrightarrow>
    fst (accept_transfer su u p) = Inl (display_error su (DeviceNotFound u))"
  by (simp add: accept_transfer_def confirm_transfer_def the_engine_def confirm_def)

section \<open>Queueing the files\<close>

text \<open>What the tasks see of the process.\<close>

definition pool_of :: "worker list \<Rightarrow> process \<Rightarrow> pool option" where
  "pool_of ws p =
     map_option (\<lambda>eng. \<lparr>pl_queue = as_queue eng, pl_heap = heap_of p, pl_workers = ws, pl_events = rt_events (rt p)\<rparr>)
       (rt_engine (rt p))"

definition can_read :: "(rstring \<Rightarrow> rstring option) \<Rightarrow> disk \<Rightarrow> rstring \<Rightarrow> bool" where
  "can_read meta_err d path \<longleftrightarrow> meta_err path = None \<and> disk_read path d \<noteq> None"

text \<open>The transfer of one path.\<close>

definition queued_for :: "disk \<Rightarrow> uuid \<Rightarrow> uuid \<Rightarrow> rstring \<Rightarrow> QueuedTransfer" where
  "queued_for d peer u path =
     \<lparr>qt_id = u, qt_file_path = path, qt_file_name = sent_name path,
      qt_total_bytes = of_nat (length (the (disk_read path d))), qt_peer_device_id = peer, qt_direction = Send,
      qt_status = Queued\<rparr>"

lemma send_loop_read:
  "can_read meta_err d path \<Longrightarrow> send_loop meta_err d peer (u # us) (path # paths) acc =
    send_loop meta_err d peer us paths (acc @ [queued_for d peer u path])"
  by (auto simp: can_read_def queued_for_def)

lemma send_loop_stop:
  "\<not> can_read meta_err d path \<Longrightarrow> \<exists>e. send_loop meta_err d peer fresh (path # paths) acc = (Inl e, acc)"
  by (auto simp: can_read_def split: option.splits)

lemma send_loop_result:
  assumes "length paths \<le> length fresh"
  shows "snd (send_loop meta_err d peer fresh paths acc) = acc @ map2 (queued_for d peer) fresh (takeWhile (can_read meta_err d) paths)
    \<and> (if list_all (can_read meta_err d) paths
        then fst (send_loop meta_err d peer fresh paths acc) = Inr (map qt_id acc @ take (length paths) fresh)
        else \<exists>e. fst (send_loop meta_err d peer fresh paths acc) = Inl e)"
  using assms
proof (induction paths arbitrary: fresh acc)
  case Nil
  then show ?case by simp
next
  case (Cons path paths)
  then obtain u us where u: "fresh = u # us" "length paths \<le> length us" by (cases fresh) auto
  show ?case
  proof (cases "can_read meta_err d path")
    case True
    then show ?thesis using Cons.IH [OF u(2), of "acc @ [queued_for d peer u path]"]
      by (simp add: u(1) send_loop_read del: send_loop.simps) (simp add: queued_for_def)
  next
    case False
    then show ?thesis using send_loop_stop [OF False, of peer fresh paths acc] by auto
  qed
qed

lemma submits_pool:
  "fold (submit addr) ts P = P\<lparr>pl_queue := fold enqueue ts (pl_queue P), pl_workers := pl_workers P @ map (worker_of addr) ts\<rparr>"
  by (induction ts arbitrary: P) (simp_all add: submit_def)

lemma submits_reach: "(pool_move E)\<^sup>*\<^sup>* P (fold (submit addr) ts P)"
proof (induction ts arbitrary: P)
  case Nil
  then show ?case by simp
next
  case (Cons t ts)
  have "pool_move E P (submit addr t P)" by (rule submits)
  with Cons [of "submit addr t P"] show ?case by simp
qed

lemma send_files_submits:
  assumes "send_files sv pa me fresh host port peer paths p = (r, p', ws')" and "pool_of ws p = Some P"
  shows "\<exists>addr ts. pool_of (ws @ ws') p' = Some (fold (submit addr) ts P) \<and> ws' = map (worker_of addr) ts"
proof -
  obtain eng where e: "rt_engine (rt p) = Some eng" using assms(2) by (auto simp: pool_of_def)
  show ?thesis
  proof (cases "pa (host @ lit '':'' @ nat_to_string (unat port))")
    case (Inl err)
    with assms e show ?thesis by (intro exI [of _ "[]"]) (auto simp: send_files_def the_engine_def)
  next
    case (Inr addr)
    obtain res ts where q: "send_loop me (disk_of p) peer fresh paths [] = (res, ts)" by fastforce
    from assms e Inr q have "p' = set_engine (eng\<lparr>as_queue := fold enqueue ts (as_queue eng)\<rparr>) p"
      "ws' = map (worker_of (show_socket_addr sv addr)) ts" by (auto simp: send_files_def the_engine_def)
    with assms(2) e show ?thesis
      by (intro exI [of _ "show_socket_addr sv addr"] exI [of _ ts]) (auto simp: pool_of_def submits_pool)
  qed
qed



section \<open>The event stream\<close>

fun stops :: "received \<times> bool \<Rightarrow> bool" where
  "stops (Got_event _, sink_ok) = (\<not> sink_ok)"
| "stops (Lagged _, _) = False"
| "stops (Closed, _) = True"

fun event_in :: "received \<times> bool \<Rightarrow> FileDropEvent list" where
  "event_in (Got_event e, _) = [e]"
| "event_in _ = []"

text \<open>The event stream: the app gets every event the channel delivers, in order and converted, across any
  number of gaps (a lag skips and goes on), until its sink or the channel closes, and exactly then the
  subscription returns.\<close>

theorem subscribe_delivers:
  "subscribe_events rs =
     (map dto_of_event (concat (map event_in (takeWhile (\<lambda>r. \<not> stops r) rs))),
      if list_ex stops rs then Some (Inr ()) else None)"
  by (induction rs rule: subscribe_events.induct) (auto split: prod.splits)

end
