(* ===== verification/App.thy ===== *)
theory App
  imports Api Upload
begin

text \<open>
  The running application: the process, the sending tasks it spawned and the uploads its server is receiving,
  over one heap of sessions and one disk. A move is one call from Dart, one step of one task, one request
  that arrives or one step of one upload; any order of them can happen. No call reaches a session of the
  server, so the control stimuli of \<open>Server\<close> do not occur here.
\<close>

record 'h application =
  proc :: process
  tasks :: "worker list"
  uploads :: "'h handler list"

definition world_of :: "process \<Rightarrow> world option" where
  "world_of p = map_option (\<lambda>eng. \<lparr>app = engine_router eng, mem = heap_of p, fs = disk_of p\<rparr>) (rt_engine (rt p))"

text \<open>What a handler or a task did to the shared state, put back into the process.\<close>

definition put_world :: "world \<Rightarrow> process \<Rightarrow> process" where
  "put_world w p =
     (case rt_engine (rt p) of
        None \<Rightarrow> p
      | Some eng \<Rightarrow>
          set_engine (eng\<lparr>as_paths := as_paths (app w), as_queue := as_queue (app w), as_history := as_history (app w),
                         as_pairing := as_pairing (app w), as_sessions := as_sessions (app w)\<rparr>)
            (p\<lparr>heap_of := mem w, disk_of := fs w\<rparr>))"

definition put_pool :: "pool \<Rightarrow> process \<Rightarrow> process" where
  "put_pool P p =
     (case rt_engine (rt p) of
        None \<Rightarrow> p
      | Some eng \<Rightarrow>
          set_engine (eng\<lparr>as_queue := pl_queue P\<rparr>) (p\<lparr>heap_of := pl_heap P, rt := (rt p)\<lparr>rt_events := pl_events P\<rparr>\<rparr>))"

fun is_control_stimulus :: "stimulus \<Rightarrow> bool" where
  "is_control_stimulus (Control _) = True"
| "is_control_stimulus _ = False"

inductive app_move :: "'h send_env \<Rightarrow> 'h application \<Rightarrow> 'h application \<Rightarrow> bool" for E where
  call: "plain_call (proc A) p \<Longrightarrow> app_move E A (A\<lparr>proc := p\<rparr>)"
| send: "send_files sv pa me fresh host port peer paths (proc A) = (r, p, ws) \<Longrightarrow>
    app_move E A (A\<lparr>proc := p, tasks := tasks A @ ws\<rparr>)"
| task: "pool_of (tasks A) (proc A) = Some P \<Longrightarrow> worker_move E P P' \<Longrightarrow>
    app_move E A (A\<lparr>proc := put_pool P' (proc A), tasks := pl_workers P'\<rparr>)"
| request: "world_of (proc A) = Some w \<Longrightarrow> receive_begin (se_hash E) (se_show_uuid E) io now u hdr w = (h, w') \<Longrightarrow>
    app_move E A (A\<lparr>proc := put_world w' (proc A), uploads := uploads A @ [h]\<rparr>)"
| upload: "world_of (proc A) = Some w \<Longrightarrow> i < length (uploads A) \<Longrightarrow> \<not> is_control_stimulus x \<Longrightarrow>
    recv_step (se_hash E) (se_show_uuid E) x (uploads A ! i, w) = Some (h, w') \<Longrightarrow>
    app_move E A (A\<lparr>proc := put_world w' (proc A), uploads := (uploads A)[i := h]\<rparr>)"

definition app_new :: "heap \<Rightarrow> disk \<Rightarrow> 'h application" where
  "app_new h d = \<lparr>proc = process_new h d, tasks = [], uploads = []\<rparr>"

section \<open>What each move changes\<close>

text \<open>The server leaves everything of the shared state but its sessions alone.\<close>

definition same_but_sessions :: "AppState \<Rightarrow> AppState \<Rightarrow> bool" where
  "same_but_sessions a b \<longleftrightarrow> b = a\<lparr>as_sessions := as_sessions b\<rparr>"

lemma same_but_sessions_simps [simp]:
  "same_but_sessions a a" "same_but_sessions a (a\<lparr>as_sessions := m\<rparr>)" "same_but_sessions a (insert_session s a)"
  "same_but_sessions (app w) (app (remove_session u w))" "same_but_sessions (app w) (app (remove_file ok f (remove_session u w)))"
  by (simp_all add: same_but_sessions_def insert_session_def remove_session_def remove_file_def)

text \<open>No session of an upload is ever paused or cancelled: then its handler never waits and never answers 499.\<close>

fun session_cell :: "'h handler \<Rightarrow> nat set" where
  "session_cell (Receiving r) = {ts_cell (rv_session r)}"
| "session_cell (Waiting r _) = {ts_cell (rv_session r)}"
| "session_cell _ = {}"

fun unhindered :: "heap \<Rightarrow> 'h handler \<Rightarrow> bool" where
  "unhindered m (Receiving r) =
     (\<not> is_paused (rv_session r) m \<and> \<not> is_cancelled (rv_session r) m \<and> ts_cell (rv_session r) < next_cell m)"
| "unhindered m (Waiting r _) = False"
| "unhindered m (Responded resp) = (status_of resp \<noteq> CLIENT_CLOSED)"
| "unhindered m Panicked = True"

text \<open>A heap grew: it has every cell the other has, with its flags.\<close>

definition same_flags :: "heap \<Rightarrow> heap \<Rightarrow> bool" where
  "same_flags m m' \<longleftrightarrow> next_cell m \<le> next_cell m'
     \<and> (\<forall>c < next_cell m. paused (cells m' c) = paused (cells m c) \<and> cancelled (cells m' c) = cancelled (cells m c))"

lemma same_flags_refl [simp]: "same_flags m m"
  by (simp add: same_flags_def)

lemma same_flags_unhindered: "same_flags m m' \<Longrightarrow> unhindered m h \<Longrightarrow> unhindered m' h"
  by (cases h) (auto simp: same_flags_def is_paused_def is_cancelled_def cell_of_def)

lemma same_flags_add [simp]: "same_flags m (add_bytes n session m)"
  by (simp add: same_flags_def add_bytes_def update_cell_def)

lemma add_bytes_flags [simp]:
  "paused (cell_of t (add_bytes n session m)) = paused (cell_of t m)"
  "cancelled (cell_of t (add_bytes n session m)) = cancelled (cell_of t m)"
  "next_cell (add_bytes n session m) = next_cell m"
  by (simp_all add: add_bytes_def cell_simps)

lemma same_flags_new [simp]: "same_flags m (snd (session_new u n b d now m))"
  by (simp add: same_flags_def session_new_def)

lemma receive_begin_app:
  assumes "receive_begin H su io now u hdr w = (h, w')"
  shows "same_but_sessions (app w) (app w') \<and> same_flags (mem w) (mem w') \<and> unhindered (mem w') h
    \<and> (\<forall>c \<in> session_cell h. c = next_cell (mem w))"
  using assms
  by (auto simp: receive_begin_def receive_open_def Let_def status_codes new_receiver_def session_new_def
      with_initial_bytes_def update_cell_def same_flags_def is_paused_def is_cancelled_def cell_of_def
      split: option.splits sum.splits prod.splits if_splits)

lemma rename_into_place_app:
  "rename_into_place io r w = (a, w') \<Longrightarrow> same_but_sessions (app w) (app w') \<and> mem w' = mem w \<and> status_of a \<noteq> CLIENT_CLOSED"
  by (auto simp: rename_into_place_def remove_session_def status_codes split: option.split_asm)

lemma verify_and_rename_app:
  assumes "verify_and_rename H su io r w = Some (a, w')"
  shows "same_but_sessions (app w) (app w') \<and> mem w' = mem w \<and> status_of a \<noteq> CLIENT_CLOSED"
  using assms by (cases rule: verify_cases)
    (auto simp: status_codes remove_file_def remove_session_def dest: rename_into_place_app)

lemma receive_end_app:
  "receive_end H su io r w = Some (a, w') \<Longrightarrow>
    same_but_sessions (app w) (app w') \<and> mem w' = mem w \<and> status_of a \<noteq> CLIENT_CLOSED"
  by (auto simp: receive_end_def remove_session_def status_codes split: option.split_asm if_split_asm dest: verify_and_rename_app)

lemma write_chunk_app:
  assumes "write_chunk H io r c w = (h, w')" and "unhindered (mem w) (Receiving r)"
  shows "same_but_sessions (app w) (app w') \<and> same_flags (mem w) (mem w') \<and> unhindered (mem w') h
    \<and> session_cell h \<subseteq> {ts_cell (rv_session r)}"
  using assms
  by (auto simp: write_chunk_def remove_session_def status_codes is_paused_def is_cancelled_def
      split: option.split_asm prod.split_asm)

lemma recv_step_app:
  assumes "recv_step H su x (h, w) = Some (h', w')" and "unhindered (mem w) h" and "\<not> is_control_stimulus x"
  shows "same_but_sessions (app w) (app w') \<and> same_flags (mem w) (mem w') \<and> unhindered (mem w') h'
    \<and> session_cell h' \<subseteq> session_cell h"
proof (cases h)
  case (Receiving r)
  show ?thesis
  proof (cases x)
    case (Data c io)
    with Receiving assms show ?thesis by (auto dest: write_chunk_app split: if_split_asm)
  next
    case (EndOfBody io)
    with Receiving assms show ?thesis by (auto dest: receive_end_app)
  qed (use Receiving assms in \<open>auto simp: status_codes remove_session_def\<close>)
qed (use assms in \<open>cases x; simp\<close>)+

lemma put_world_view:
  assumes "world_of p = Some w" and "same_but_sessions (app w) (app w')"
  shows "\<exists>eng. rt_engine (rt p) = Some eng \<and>
    put_world w' p = set_engine (eng\<lparr>as_sessions := as_sessions (app w')\<rparr>) (p\<lparr>heap_of := mem w', disk_of := fs w'\<rparr>)"
proof -
  obtain eng where e: "rt_engine (rt p) = Some eng" "app w = engine_router eng" using assms(1) by (auto simp: world_of_def)
  then have "as_paths (app w') = as_paths eng" "as_queue (app w') = as_queue eng" "as_history (app w') = as_history eng"
    "as_pairing (app w') = as_pairing eng"
    using assms(2) unfolding same_but_sessions_def engine_router_def by (metis AppState.simps)+
  with e show ?thesis by (simp add: put_world_def)
qed

text \<open>The cells of the sessions that are being sent: those the calls from Dart can reach.\<close>

fun phase_cell :: "phase \<Rightarrow> nat set" where
  "phase_cell (Popped e) = {ts_cell (snd e)}"
| "phase_cell (Sending e) = {ts_cell (snd e)}"
| "phase_cell _ = {}"

definition active_cells :: "TransferQueue \<Rightarrow> nat set" where
  "active_cells q = (\<lambda>e. ts_cell (snd e)) ` set (active q)"

definition task_cells :: "worker list \<Rightarrow> nat set" where
  "task_cells ws = (\<Union>w \<in> set ws. phase_cell (wk_phase w))"

lemma active_cells_simps [simp]:
  "active_cells (q\<lparr>pending := ts\<rparr>) = active_cells q" "active_cells (q\<lparr>permits := n\<rparr>) = active_cells q"
  "active_cells queue_new = {}" "active_cells (fold enqueue ts q) = active_cells q"
  "active_cells (push_active e q) = insert (ts_cell (snd e)) (active_cells q)"
  by (simp_all add: active_cells_def queue_new_def push_active_def enqueues)

lemma active_cells_finished: "active_cells (mark_finished u q) \<subseteq> active_cells q"
  by (auto simp: active_cells_def mark_finished_def)

lemma found_cell: "find_session u q = Some s \<Longrightarrow> ts_cell s \<in> active_cells q"
  by (auto simp: find_session_def active_cells_def find_Some_iff image_iff) (metis nth_mem snd_conv)

lemma task_cells_goto:
  assumes "i < length (pl_workers P)"
  shows "task_cells (pl_workers (goto i ph P)) \<subseteq> task_cells (pl_workers P) \<union> phase_cell ph"
    and "phase_cell (wk_phase (pl_workers P ! i)) \<subseteq> task_cells (pl_workers P)"
  using assms set_update_subset_insert [of "pl_workers P" i] by (fastforce simp: task_cells_def goto_def)+

definition pool_cells :: "pool \<Rightarrow> nat set" where
  "pool_cells P = active_cells (pl_queue P) \<union> task_cells (pl_workers P)"

lemma fold_progress_flags: "same_flags m (fold (progress_read session) ps m)"
proof -
  have "same_flags a b \<Longrightarrow> same_flags a (fold (progress_read session) ps b)" for a b
    by (induction ps arbitrary: b) (auto simp: same_flags_def progress_read_def add_bytes_def update_cell_def)
  then show ?thesis by simp
qed

lemma send_and_report_flags: "send_and_report E io w session m = Some (report, m') \<Longrightarrow> same_flags m m'"
  by (auto simp: send_and_report_def send_file_def Let_def fold_progress_flags
      split: option.split_asm sum.split_asm prod.split_asm)

lemma work_cells:
  assumes "work E io i P = Some P'" and i: "i < length (pl_workers P)"
  shows "same_flags (pl_heap P) (pl_heap P')
    \<and> (\<forall>c \<in> pool_cells P'. c \<in> pool_cells P \<or> c = next_cell (pl_heap P) \<and> c < next_cell (pl_heap P'))"
proof -
  have u: "task_cells (pl_workers (goto i ph (P\<lparr>pl_queue := q, pl_heap := h, pl_events := es\<rparr>)))
      \<subseteq> task_cells (pl_workers P) \<union> phase_cell ph" for ph q h es
    using task_cells_goto(1) [of i "P\<lparr>pl_queue := q, pl_heap := h, pl_events := es\<rparr>" ph] i by simp
  note v = task_cells_goto(2) [OF i]
  have "\<exists>ph q h es. P' = goto i ph (P\<lparr>pl_queue := q, pl_heap := h, pl_events := es\<rparr>) \<and> same_flags (pl_heap P) h
     \<and> (\<forall>c \<in> active_cells q \<union> phase_cell ph. c \<in> active_cells (pl_queue P) \<union> phase_cell (wk_phase (pl_workers P ! i))
          \<or> c = next_cell (pl_heap P) \<and> c < next_cell h)"
  proof (cases "wk_phase (pl_workers P ! i)")
    case Start
    with assms(1) show ?thesis
      by (intro exI [of _ Holding] exI [of _ "(pl_queue P)\<lparr>permits := permits (pl_queue P) - 1\<rparr>"] exI [of _ "pl_heap P"]
          exI [of _ "pl_events P"]) (auto simp: work_def Let_def acquire_permit_def split: if_split_asm)
  next
    case Holding
    show ?thesis
    proof (cases "pending (pl_queue P)")
      case Nil
      with assms(1) Holding show ?thesis
        by (intro exI [of _ Done] exI [of _ "drop_permit (pl_queue P)"] exI [of _ "pl_heap P"] exI [of _ "pl_events P"])
          (auto simp: work_def Let_def pop_pending_def drop_permit_def)
    next
      case (Cons t ts)
      obtain s h where n: "session_new (qt_id t) (qt_file_name t) (qt_total_bytes t) (qt_direction t) (wi_now io) (pl_heap P)
          = (s, h)" by fastforce
      have "ts_cell s = next_cell (pl_heap P)" "next_cell h = Suc (next_cell (pl_heap P))" "same_flags (pl_heap P) h"
        using n cell_of_new same_flags_new by (metis fst_conv snd_conv)+
      then show ?thesis using assms(1) Holding Cons n
        by (intro exI [of _ "Popped (t\<lparr>qt_status := Connecting\<rparr>, s)"] exI [of _ "(pl_queue P)\<lparr>pending := ts\<rparr>"] exI [of _ h]
            exI [of _ "pl_events P"]) (auto simp: work_def Let_def pop_pending_def)
    qed
  next
    case (Popped e)
    with assms(1) show ?thesis
      by (intro exI [of _ "Sending e"] exI [of _ "push_active e (pl_queue P)"] exI [of _ "pl_heap P"]
          exI [of _ "pl_events P' "]) (auto simp: work_def Let_def)
  next
    case (Sending e)
    then obtain report h where r: "send_and_report E io (pl_workers P ! i) (snd e) (pl_heap P) = Some (report, h)"
      and P': "P' = goto i Sent (P\<lparr>pl_heap := h, pl_events := pl_events P @ [report]\<rparr>)"
      using assms(1) by (auto simp: work_def Let_def)
    then show ?thesis using send_and_report_flags [OF r]
      by (intro exI [of _ Sent] exI [of _ "pl_queue P"] exI [of _ h] exI [of _ "pl_events P @ [report]"]) auto
  next
    case Sent
    with assms(1) show ?thesis using active_cells_finished
      by (intro exI [of _ Marked] exI [of _ "mark_finished (wk_id (pl_workers P ! i)) (pl_queue P)"] exI [of _ "pl_heap P"]
          exI [of _ "pl_events P"]) (auto simp: work_def Let_def)
  next
    case Marked
    with assms(1) show ?thesis
      by (intro exI [of _ Done] exI [of _ "drop_permit (pl_queue P)"] exI [of _ "pl_heap P"] exI [of _ "pl_events P"])
        (auto simp: work_def Let_def drop_permit_def)
  next
    case Done
    with assms(1) show ?thesis by (simp add: work_def)
  qed
  then obtain ph q h es where P': "P' = goto i ph (P\<lparr>pl_queue := q, pl_heap := h, pl_events := es\<rparr>)"
    and f: "same_flags (pl_heap P) h" and c: "\<forall>c \<in> active_cells q \<union> phase_cell ph. c \<in> active_cells (pl_queue P)
      \<union> phase_cell (wk_phase (pl_workers P ! i)) \<or> c = next_cell (pl_heap P) \<and> c < next_cell h" by blast
  have "pool_cells P' \<subseteq> active_cells q \<union> task_cells (pl_workers P) \<union> phase_cell ph"
    using u [where ph = ph and q = q and h = h and es = es] unfolding pool_cells_def P' by auto
  then show ?thesis using f c v by (fastforce simp: P' pool_cells_def)
qed

text \<open>What a call does to the state it shares with the tasks and the uploads.\<close>

definition queue_of :: "process \<Rightarrow> TransferQueue" where
  "queue_of p = (case rt_engine (rt p) of None \<Rightarrow> queue_new | Some eng \<Rightarrow> as_queue eng)"

lemma plain_call_view:
  assumes "plain_call p p'"
  shows "queue_of p' = queue_of p
    \<and> (\<exists>es. rt_events (rt p') = rt_events (rt p) @ es \<and> list_all (\<lambda>e. \<not> task_event e) es)
    \<and> (heap_of p' = heap_of p \<or>
        (\<exists>c session. ts_cell session \<in> active_cells (queue_of p) \<and> heap_of p' = apply_control c session (heap_of p)))
    \<and> (rt_engine (rt p) \<noteq> None \<longrightarrow> rt_engine (rt p') \<noteq> None)"
  using assms
proof (cases rule: plain_call.cases)
  case (init su de dio xo re fresh name dir)
  have "as_queue eng = queue_new" if "engine_init de dio xo re fresh name dir (disk_of p) = (Inr eng, d)" for eng d
    using that by (auto simp: engine_init_def Let_def map_ok_def split: prod.splits sum.splits)
  with init show ?thesis
    by (auto simp: queue_of_def init_engine_def Let_def split: prod.splits sum.splits option.splits)
next
  case (control su c u)
  then show ?thesis
    by (auto simp: queue_of_def api_defs Let_def dest: found_cell split: option.splits simp del: apply_control.simps)
qed (auto simp: queue_of_def api_defs Let_def emit_def set_engine_def split: option.splits sum.splits prod.splits)

lemma apply_control_unhindered:
  "ts_cell session \<notin> session_cell h \<Longrightarrow> unhindered m h \<Longrightarrow> unhindered (apply_control c session m) h"
  by (cases h; cases c) (auto simp: session_ops is_paused_def is_cancelled_def cell_simps)

lemma apply_control_next: "next_cell (apply_control c session m) = next_cell m"
  by (cases c) (simp_all add: session_ops cell_simps)

text \<open>No upload shares its session with what is being sent, and none is disturbed.\<close>

definition sent_cells :: "'h application \<Rightarrow> nat set" where
  "sent_cells A = active_cells (queue_of (proc A)) \<union> task_cells (tasks A)"

definition apart :: "'h application \<Rightarrow> bool" where
  "apart A \<longleftrightarrow> (\<forall>h \<in> set (uploads A). unhindered (heap_of (proc A)) h \<and> session_cell h \<inter> sent_cells A = {})
     \<and> (\<forall>c \<in> sent_cells A. c < next_cell (heap_of (proc A)))"

lemma unhindered_cell: "unhindered m h \<Longrightarrow> c \<in> session_cell h \<Longrightarrow> c < next_cell m"
  by (cases h) auto

text \<open>A move that keeps the flags, makes at most new cells, and leaves the uploads as they are.\<close>

lemma apart_keeps:
  assumes "apart A" and "same_flags (heap_of (proc A)) (heap_of (proc B))" and "uploads B = uploads A"
    and "\<forall>c \<in> sent_cells B. c \<in> sent_cells A \<or> c = next_cell (heap_of (proc A)) \<and> c < next_cell (heap_of (proc B))"
  shows "apart B"
  unfolding apart_def assms(3)
proof (intro conjI ballI)
  fix h assume h: "h \<in> set (uploads A)"
  then have u: "unhindered (heap_of (proc A)) h" and d: "session_cell h \<inter> sent_cells A = {}"
    using assms(1) by (auto simp: apart_def)
  show "unhindered (heap_of (proc B)) h" using same_flags_unhindered [OF assms(2) u] .
  show "session_cell h \<inter> sent_cells B = {}" using d assms(4) unhindered_cell [OF u] by fastforce
next
  fix c assume "c \<in> sent_cells B"
  then show "c < next_cell (heap_of (proc B))"
    using assms(1,2,4) unfolding apart_def same_flags_def by fastforce
qed

lemma apart_call:
  assumes "apart A" and "plain_call (proc A) p"
  shows "apart (A\<lparr>proc := p\<rparr>)"
proof -
  note v = plain_call_view [OF assms(2)]
  have s: "sent_cells (A\<lparr>proc := p\<rparr>) = sent_cells A" using v by (simp add: sent_cells_def)
  show ?thesis
  proof (cases "heap_of p = heap_of (proc A)")
    case True
    then show ?thesis using apart_keeps [OF assms(1), of "A\<lparr>proc := p\<rparr>"] s by simp
  next
    case False
    then obtain c session where c: "ts_cell session \<in> active_cells (queue_of (proc A))"
      "heap_of p = apply_control c session (heap_of (proc A))" using v by blast
    then have "ts_cell session \<in> sent_cells A" by (simp add: sent_cells_def)
    with assms(1) c show ?thesis unfolding apart_def s
      by (auto simp: apply_control_next intro!: apply_control_unhindered)
  qed
qed

lemma queue_of_simps [simp]:
  "queue_of (set_engine eng p) = as_queue eng" "rt_engine (rt p) = Some eng \<Longrightarrow> queue_of p = as_queue eng"
  by (simp_all add: queue_of_def)

lemma apart_send:
  assumes "apart A" and "send_files sv pa me fresh host port peer paths (proc A) = (r, p, ws)"
  shows "apart (A\<lparr>proc := p, tasks := tasks A @ ws\<rparr>)"
proof -
  have "heap_of p = heap_of (proc A)" "active_cells (queue_of p) = active_cells (queue_of (proc A))"
    "task_cells (tasks A @ ws) = task_cells (tasks A)"
    using assms(2)
    by (auto simp: send_files_def the_engine_def task_cells_def worker_of_def split: option.splits sum.splits prod.splits)
  then show ?thesis by (intro apart_keeps [OF assms(1)]) (simp_all add: sent_cells_def)
qed

lemma apart_task:
  assumes "apart A" and "pool_of (tasks A) (proc A) = Some P" and "worker_move E P P'"
  shows "apart (A\<lparr>proc := put_pool P' (proc A), tasks := pl_workers P'\<rparr>)"
proof -
  obtain eng where e: "rt_engine (rt (proc A)) = Some eng"
    and P: "P = \<lparr>pl_queue = as_queue eng, pl_heap = heap_of (proc A), pl_workers = tasks A, pl_events = rt_events (rt (proc A))\<rparr>"
    using assms(2) by (auto simp: pool_of_def)
  obtain io i where w: "i < length (pl_workers P)" "work E io i P = Some P'" using assms(3) by (auto elim: worker_move_cases)
  let ?B = "A\<lparr>proc := put_pool P' (proc A), tasks := pl_workers P'\<rparr>"
  have "heap_of (proc ?B) = pl_heap P'" "sent_cells ?B = pool_cells P'" "sent_cells A = pool_cells P"
    using e by (simp_all add: put_pool_def sent_cells_def pool_cells_def P)
  with work_cells [OF w(2,1)] show ?thesis by (intro apart_keeps [OF assms(1)]) (simp_all add: P)
qed

lemma apart_serve:
  assumes "apart A" and w: "world_of (proc A) = Some w" and "same_but_sessions (app w) (app w')"
    and f: "same_flags (mem w) (mem w')" and "unhindered (mem w') h"
    and "\<forall>c \<in> session_cell h. c \<notin> sent_cells A" and "set hs \<subseteq> insert h (set (uploads A))"
  shows "apart (A\<lparr>proc := put_world w' (proc A), uploads := hs\<rparr>)"
proof -
  let ?B = "A\<lparr>proc := put_world w' (proc A), uploads := hs\<rparr>"
  obtain eng where e: "rt_engine (rt (proc A)) = Some eng"
    and p: "put_world w' (proc A) = set_engine (eng\<lparr>as_sessions := as_sessions (app w')\<rparr>) (proc A\<lparr>heap_of := mem w', disk_of := fs w'\<rparr>)"
    using put_world_view [OF w assms(3)] by blast
  have m: "heap_of (proc A) = mem w" "heap_of (proc ?B) = mem w'" using w by (auto simp: world_of_def p)
  have s: "sent_cells ?B = sent_cells A" using e by (simp add: sent_cells_def p)
  have "unhindered (mem w') g \<and> session_cell g \<inter> sent_cells A = {}" if "g \<in> set hs" for g
  proof (cases "g = h")
    case True
    with assms(5,6) show ?thesis by blast
  next
    case False
    with that assms(7) have "g \<in> set (uploads A)" by blast
    with assms(1) show ?thesis by (auto simp: apart_def m intro: same_flags_unhindered [OF f])
  qed
  moreover have "c < next_cell (mem w')" if "c \<in> sent_cells A" for c
    using that assms(1) f by (fastforce simp: apart_def m same_flags_def)
  ultimately show ?thesis unfolding apart_def s m by simp
qed

lemma upload_frame:
  assumes "apart A" and "world_of (proc A) = Some w" and "i < length (uploads A)" and "\<not> is_control_stimulus x"
    and "recv_step H su x (uploads A ! i, w) = Some (h, w')"
  shows "same_but_sessions (app w) (app w') \<and> same_flags (mem w) (mem w') \<and> unhindered (mem w') h
    \<and> session_cell h \<inter> sent_cells A = {}"
proof -
  have "uploads A ! i \<in> set (uploads A)" using assms(3) by simp
  with assms(1,2) have "unhindered (mem w) (uploads A ! i)" "session_cell (uploads A ! i) \<inter> sent_cells A = {}"
    by (auto simp: apart_def world_of_def)
  with recv_step_app [OF assms(5) _ assms(4)] show ?thesis by blast
qed

lemma apart_move: "app_move E A B \<Longrightarrow> apart A \<Longrightarrow> apart B"
proof (induction rule: app_move.induct)
  case (call A p)
  then show ?case by (blast intro: apart_call)
next
  case (send sv pa me fresh host port peer paths A r p ws)
  then show ?case by (blast intro: apart_send)
next
  case (task A P P')
  then show ?case by (blast intro: apart_task)
next
  case (request A w io now u hdr h w')
  note b = receive_begin_app [OF request(2)]
  have "next_cell (mem w) \<notin> sent_cells A" using request(1,3) by (auto simp: apart_def world_of_def)
  with b request(1,3) show ?case by (intro apart_serve [where w = w and h = h]) auto
next
  case (upload A w i x h w')
  show ?case using upload_frame [OF upload(5,1,2,3,4)] upload(1,5) set_update_subset_insert [of "uploads A" i h]
    by (intro apart_serve [where w = w and h = h]) auto
qed

lemma apart_new: "apart (app_new h d)"
  by (simp add: apart_def app_new_def sent_cells_def process_new_def runtime_new_def queue_of_def task_cells_def)

section \<open>The tasks of the application are the tasks of the pool\<close>

text \<open>What the tasks see; before the engine is there, an empty queue.\<close>

definition task_view :: "'h application \<Rightarrow> pool" where
  "task_view A = \<lparr>pl_queue = queue_of (proc A), pl_heap = heap_of (proc A), pl_workers = tasks A,
     pl_events = rt_events (rt (proc A))\<rparr>"

lemma task_view_engine: "pool_of (tasks A) (proc A) = Some P \<Longrightarrow> P = task_view A \<and> rt_engine (rt (proc A)) \<noteq> None"
  by (auto simp: pool_of_def task_view_def)

lemma task_view_others:
  assumes "queue_of (proc B) = queue_of (proc A)" and "tasks B = tasks A"
    and "rt_events (rt (proc B)) = rt_events (rt (proc A)) @ es" and "list_all (\<lambda>e. \<not> task_event e) es"
  shows "(pool_move E)\<^sup>*\<^sup>* (task_view A) (task_view B)"
  using r_into_rtranclp [of "pool_move E", OF others [OF assms(4), of E "task_view A" "heap_of (proc B)"]]
  by (simp add: task_view_def assms(1-3))

lemma view_send:
  assumes "send_files sv pa me fresh host port peer paths (proc A) = (r, p, ws)"
  shows "(pool_move E)\<^sup>*\<^sup>* (task_view A) (task_view (A\<lparr>proc := p, tasks := tasks A @ ws\<rparr>))"
proof (cases "pool_of (tasks A) (proc A)")
  case None
  then have "ws = []" "p = proc A" using assms by (auto simp: send_files_def the_engine_def pool_of_def)
  then show ?thesis by (simp add: task_view_def)
next
  case (Some P)
  obtain addr ts where "pool_of (tasks A @ ws) p = Some (fold (submit addr) ts P)"
    using send_files_submits [OF assms Some] by blast
  then have "task_view (A\<lparr>proc := p, tasks := tasks A @ ws\<rparr>) = fold (submit addr) ts P"
    using task_view_engine [of "A\<lparr>proc := p, tasks := tasks A @ ws\<rparr>"] by simp
  moreover have "task_view A = P" using task_view_engine [OF Some] by simp
  ultimately show ?thesis by (simp add: submits_reach)
qed

lemma view_serve:
  assumes "world_of (proc A) = Some w" and "same_but_sessions (app w) (app w')"
  shows "(pool_move E)\<^sup>*\<^sup>* (task_view A) (task_view (A\<lparr>proc := put_world w' (proc A), uploads := hs\<rparr>))"
  using put_world_view [OF assms] by (intro task_view_others [where es = "[]"]) auto

lemma view_move: "app_move E A B \<Longrightarrow> apart A \<Longrightarrow> (pool_move E)\<^sup>*\<^sup>* (task_view A) (task_view B)"
proof (induction rule: app_move.induct)
  case (call A p)
  then show ?case using plain_call_view [OF call(1)] by (auto intro: task_view_others)
next
  case (send sv pa me fresh host port peer paths A r p ws)
  then show ?case by (blast intro: view_send)
next
  case (task A P P')
  note v = task_view_engine [OF task(1)]
  then have "task_view (A\<lparr>proc := put_pool P' (proc A), tasks := pl_workers P'\<rparr>) = P'"
    by (auto simp: task_view_def put_pool_def)
  with v r_into_rtranclp [of "pool_move E", OF works [OF task(2)]] show ?case by simp
next
  case (request A w io now u hdr h w')
  then show ?case using receive_begin_app [OF request(2)] by (blast intro: view_serve)
next
  case (upload A w i x h w')
  then show ?case using upload_frame [OF upload(5,1,2,3,4)] by (blast intro: view_serve)
qed

interpretation application: refinement "app_move E" apart "pool_move E" task_view for E :: "'h send_env"
  by unfold_locales (blast intro: apart_move, rule view_move)

lemma task_view_new: "task_view (app_new h d) = pool_new h"
  by (simp add: task_view_def app_new_def process_new_def runtime_new_def queue_of_def pool_new_def)

section \<open>Properties\<close>

text \<open>C8: the application is an instance of the task pool: after any interleaving of calls from Dart, tasks,
  arriving requests and upload steps, what the sending tasks see of the process (its queue, its
  sessions, its events) is a state the pool of tasks alone reaches, so the bound on parallel sends, the
  absence of stuck transfers and the reports hold of the whole application.\<close>

theorem app_refines_pool:
  assumes "(app_move E)\<^sup>*\<^sup>* (app_new h d) A"
  shows "(pool_move E)\<^sup>*\<^sup>* (pool_new h) (task_view A) \<and> reachable E (task_view A)"
  using application.run_view [OF assms apart_new] by (auto simp: task_view_new reachable_def)

definition sample_app :: "byte list application" where
  "sample_app = (app_new sample_heap abc_disk)\<lparr>proc := snd (init_engine (\<lambda>_. []) (\<lambda>_. Inr []) (\<lambda>_. None) False None 4 [65]
     (lit ''/data'') (process_new sample_heap abc_disk))\<rparr>"

lemma sample_app_reached: "(app_move E)\<^sup>*\<^sup>* (app_new sample_heap abc_disk) sample_app"
proof -
  have "plain_call (proc (app_new sample_heap abc_disk)) (proc sample_app)"
    unfolding sample_app_def app_new_def by (simp add: init)
  then have "app_move E (app_new sample_heap abc_disk) ((app_new sample_heap abc_disk)\<lparr>proc := proc sample_app\<rparr>)"
    by (rule call)
  then show ?thesis by (auto simp: sample_app_def intro: r_into_rtranclp)
qed

lemma sample_app_engine: "\<exists>eng. rt_engine (rt (proc sample_app)) = Some eng"
proof -
  obtain eng d where "engine_init (\<lambda>_. Inr []) (\<lambda>_. None) False None 4 [65] (lit ''/data'') abc_disk = (Inr eng, d)"
    by (simp add: engine_init_def Let_def ensure_dirs_def history_load_def split: prod.splits option.splits)
  then show ?thesis by (simp add: sample_app_def init_engine_def process_new_def runtime_new_def Let_def)
qed

theorem app_refines_pool_witness:
  "reachable sample_env (task_view sample_app) \<and> rt_engine (rt (proc sample_app)) \<noteq> None"
  using app_refines_pool [OF sample_app_reached, of sample_env] sample_app_engine by auto



end
