(* ===== verification/Overlap.thy ===== *)
theory Overlap
  imports Receive
begin

text \<open>
  Several uploads at once on one server: any number of handlers of \<open>Server\<close> over one world, a request arriving or
  one handler taking a step at a time. What a handler does between two stimuli is one step here, as in
  \<open>Server\<close>. Uploads with different ids do not disturb each other; two with the same id share a staging file.
\<close>

section \<open>The server with its uploads\<close>

record 'h server =
  sv_world :: world
  sv_uploads :: "'h handler list"

inductive serve_move :: "'h hash_api \<Rightarrow> (uuid \<Rightarrow> rstring) \<Rightarrow> 'h server \<Rightarrow> 'h server \<Rightarrow> bool" for H su where
  arrives: "receive_begin H su io now u hdr (sv_world S) = (h, w) \<Longrightarrow>
    serve_move H su S \<lparr>sv_world = w, sv_uploads = sv_uploads S @ [h]\<rparr>"
| advances: "i < length (sv_uploads S) \<Longrightarrow> recv_step H su x (sv_uploads S ! i, sv_world S) = Some (h, w) \<Longrightarrow>
    serve_move H su S \<lparr>sv_world = w, sv_uploads = (sv_uploads S)[i := h]\<rparr>"

fun reading :: "'h handler \<Rightarrow> 'h receiver option" where
  "reading (Receiving r) = Some r"
| "reading (Waiting r _) = Some r"
| "reading _ = None"

definition id_in_flight :: "'h handler \<Rightarrow> uuid set" where
  "id_in_flight h = (case reading h of None \<Rightarrow> {} | Some r \<Rightarrow> {rv_id r})"

definition other_id :: "'h handler \<Rightarrow> 'h handler \<Rightarrow> bool" where
  "other_id h k \<longleftrightarrow> id_in_flight h \<inter> id_in_flight k = {}"

section \<open>What an upload relies on\<close>

text \<open>The body so far, in any chunks, is in the hasher and at its place in the file.\<close>

definition received_so_far :: "'h hash_api \<Rightarrow> 'h receiver \<Rightarrow> byte list \<Rightarrow> bool" where
  "received_so_far H r c \<longleftrightarrow>
     (\<exists>cs old. rv_hasher r = foldl (hasher_update H) (hasher_new H) cs
        \<and> rv_pos r = unat (rv_resume r) + length (concat cs) \<and> rv_written r = rv_resume r + of_nat (length (concat cs))
        \<and> c = patch (unat (rv_resume r)) (concat cs) old \<and> (rv_resume r = 0 \<longrightarrow> old = []))"

text \<open>The two paths of an upload with id \<open>u\<close>.\<close>

definition placed :: "(uuid \<Rightarrow> rstring) \<Rightarrow> StoragePaths \<Rightarrow> uuid \<Rightarrow> rstring \<Rightarrow> rstring \<Rightarrow> bool" where
  "placed su sp u staging final \<longleftrightarrow>
     staging_of su sp u = staging \<and> (\<exists>raw name. sanitize_filename raw = Some name \<and> final_of sp name = final)"

definition intact :: "'h hash_api \<Rightarrow> (uuid \<Rightarrow> rstring) \<Rightarrow> world \<Rightarrow> 'h receiver \<Rightarrow> bool" where
  "intact H su w r \<longleftrightarrow>
     names (fs w) (components (rv_staging r)) = Some (rv_file r)
     \<and> placed su (as_paths (app w)) (rv_id r) (rv_staging r) (rv_final r)
     \<and> received_so_far H r (contents (fs w) (rv_file r))"

lemma intact_mem [simp]: "intact H su (w\<lparr>mem := m\<rparr>) r = intact H su w r"
  by (simp add: intact_def)

definition own_files :: "'h hash_api \<Rightarrow> (uuid \<Rightarrow> rstring) \<Rightarrow> world \<Rightarrow> 'h handler \<Rightarrow> bool" where
  "own_files H su w h \<longleftrightarrow> (case reading h of None \<Rightarrow> True | Some r \<Rightarrow> intact H su w r)"

text \<open>The staging file of one upload is neither that of another nor the final file of any.\<close>

lemma placed_apart:
  assumes "uuid_text su" and "placed su sp u staging final" and "placed su sp v staging' final'"
  shows "components staging \<noteq> components final'"
    and "u \<noteq> v \<Longrightarrow> components staging \<noteq> components staging'"
proof -
  show "components staging \<noteq> components final'"
    using assms(2,3) staging_final_apart [OF assms(1)] unfolding placed_def by metis
  assume "u \<noteq> v"
  then have "su u \<noteq> su v" using assms(1) by (auto simp: uuid_text_def dest: injD)
  then show "components staging \<noteq> components staging'"
    using assms(2,3) upload_components(1) [OF assms(1), of sp] by (auto simp: placed_def part_name_def)
qed

lemma intact_apart:
  assumes "uuid_text su" and "intact H su w r" and "intact H su w s"
  shows "components (rv_staging r) \<noteq> components (rv_final s)"
    and "rv_id r \<noteq> rv_id s \<Longrightarrow> components (rv_staging r) \<noteq> components (rv_staging s)"
  using assms(2,3) placed_apart [OF assms(1)] unfolding intact_def by blast+

lemma intact_kept:
  assumes "intact H su w r" and "as_paths (app w') = as_paths (app w)"
    and "names (fs w') (components (rv_staging r)) = names (fs w) (components (rv_staging r))"
    and "contents (fs w') (rv_file r) = contents (fs w) (rv_file r)"
  shows "intact H su w' r"
  using assms by (simp add: intact_def)

section \<open>What a step touches\<close>

text \<open>The changes one upload can make to the disk.\<close>

inductive touched :: "'h receiver \<Rightarrow> disk \<Rightarrow> disk \<Rightarrow> bool" for r d where
  untouched: "touched r d d"
| written: "touched r d (disk_write (rv_file r) off bs d)"
| removed: "touched r d (disk_remove (rv_staging r) d)"
| renamed: "disk_rename (rv_staging r) (rv_final r) d = Some e \<Longrightarrow> touched r d e"

inductive_cases touched_cases: "touched r d e"

lemma touched_ok: "touched r d e \<Longrightarrow> disk_ok d \<Longrightarrow> disk_ok e"
  by (auto elim!: touched_cases simp: disk_ok_write disk_ok_remove disk_ok_rename)

lemma touched_names:
  "touched r d e \<Longrightarrow> p \<noteq> components (rv_staging r) \<Longrightarrow> p \<noteq> components (rv_final r) \<Longrightarrow> names e p = names d p"
  by (auto elim!: touched_cases simp: disk_simps disk_rename_def split: option.splits)

lemma touched_contents: "touched r d e \<Longrightarrow> f \<noteq> rv_file r \<Longrightarrow> contents e f = contents d f"
  by (auto elim!: touched_cases simp: disk_write_def disk_simps disk_rename_def split: option.splits)

lemma rename_touches:
  "rename_into_place io r w = (a, w') \<Longrightarrow> touched r (fs w) (fs w') \<and> as_paths (app w') = as_paths (app w)"
  by (auto simp: rename_into_place_def remove_session_def split: option.split_asm intro: touched.intros)

lemma verify_touches:
  assumes "verify_and_rename H su io r w = Some (a, w')"
  shows "touched r (fs w) (fs w') \<and> as_paths (app w') = as_paths (app w)"
  using assms by (cases rule: verify_cases)
    (auto simp: remove_file_def remove_session_def dest: rename_touches intro: touched.intros)

lemma end_touches:
  assumes "receive_end H su io r w = Some (a, w')"
  shows "touched r (fs w) (fs w') \<and> as_paths (app w') = as_paths (app w)"
  using assms unfolding receive_end_def
  by (auto simp: remove_session_def dest: verify_touches intro: touched.intros split: option.split_asm if_split_asm)

lemma write_touches:
  assumes "write_chunk H io r chunk w = (h, w')"
  shows "touched r (fs w) (fs w') \<and> as_paths (app w') = as_paths (app w)"
  using assms by (auto simp: write_chunk_def remove_session_def split: option.split_asm prod.split_asm intro: touched.intros)

lemma step_touches:
  assumes "recv_step H su x (h, w) = Some (h', w')"
  shows "\<exists>r. reading h = Some r \<and> touched r (fs w) (fs w') \<and> as_paths (app w') = as_paths (app w)"
  using assms
  by (cases "(H, su, x, h, w)" rule: recv_step.cases)
    (auto simp: remove_file_def remove_session_def intro: touched.intros split: if_split_asm
      dest: write_touches end_touches)

text \<open>A step that goes on reading is a control call, a sleep, or a chunk written.\<close>

lemma write_intact:
  assumes "write_chunk H io r chunk w = (h', w')" and "intact H su w r" and "reading h' = Some r'"
  shows "rv_id r' = rv_id r \<and> intact H su w' r'"
proof -
  have h: "h' = Receiving r'" and n: "io_write io = None"
    and r': "r' = r\<lparr>rv_hasher := hasher_update H (rv_hasher r) chunk, rv_pos := rv_pos r + length chunk,
        rv_written := rv_written r + of_nat (length chunk)\<rparr>"
    and w': "fs w' = disk_write (rv_file r) (rv_pos r) chunk (fs w)" "app w' = app w"
    using assms(1,3) by (auto simp: write_chunk_def split: option.split_asm prod.split_asm)
  obtain cs old where c: "rv_hasher r = foldl (hasher_update H) (hasher_new H) cs"
    "rv_pos r = unat (rv_resume r) + length (concat cs)" "rv_written r = rv_resume r + of_nat (length (concat cs))"
    "contents (fs w) (rv_file r) = patch (unat (rv_resume r)) (concat cs) old" "rv_resume r = 0 \<longrightarrow> old = []"
    using assms(2) unfolding intact_def received_so_far_def by blast
  have "received_so_far H r' (contents (fs w') (rv_file r))"
    unfolding received_so_far_def
    using c by (intro exI [of _ "cs @ [chunk]"] exI [of _ old]) (simp add: r' w' disk_write_def patch_comp add.assoc)
  then show ?thesis using assms(2) by (simp add: intact_def r' w' disk_simps)
qed

lemma step_intact:
  assumes "recv_step H su x (h, w) = Some (h', w')" and "own_files H su w h"
  shows "own_files H su w' h'" and "id_in_flight h' \<subseteq> id_in_flight h"
proof -
  have "own_files H su w' h' \<and> id_in_flight h' \<subseteq> id_in_flight h"
    using assms
    by (cases "(H, su, x, h, w)" rule: recv_step.cases)
      (auto simp: own_files_def id_in_flight_def split: if_split_asm option.splits dest: write_intact)
  then show "own_files H su w' h'" "id_in_flight h' \<subseteq> id_in_flight h" by simp_all
qed

text \<open>A request that arrives makes the directory and opens, at most, the staging file of its id.\<close>

lemma receive_open_touches:
  assumes "receive_open H io now u name len resume expected staging final w = (h, w')" and "disk_ok (fs w)"
  shows "disk_ok (fs w')" "as_paths (app w') = as_paths (app w)"
    and "names (fs w) p = Some f \<Longrightarrow> names (fs w') p = Some f
      \<and> (reading h = None \<or> p \<noteq> components staging \<longrightarrow> contents (fs w') f = contents (fs w) f)"
proof -
  let ?d = "create_dir_all (path_parent staging) (fs w)"
  have d: "disk_ok ?d" using assms(2) by (simp add: disk_simps)
  have k: "names (snd (disk_open t staging ?d)) p = Some f
      \<and> (\<not> t \<or> p \<noteq> components staging \<longrightarrow> contents (snd (disk_open t staging ?d)) f = contents ?d f)"
    if "names ?d p = Some f" for t p f
    using that d by (auto simp: disk_open_def disk_ok_def split: option.splits)
  have "fs w' = fs w \<and> reading h = None \<or> fs w' = ?d \<and> reading h = None
      \<or> fs w' = snd (disk_open (resume = 0) staging ?d) \<and> (resume = 0 \<longrightarrow> reading h \<noteq> None)"
    using assms(1) by (auto simp: receive_open_def Let_def split: option.splits prod.splits if_splits)
  then show "disk_ok (fs w')" and "names (fs w) p = Some f \<Longrightarrow> names (fs w') p = Some f
      \<and> (reading h = None \<or> p \<noteq> components staging \<longrightarrow> contents (fs w') f = contents (fs w) f)"
    using assms(2) d disk_ok_open [OF d] k by (auto simp: disk_simps)
  show "as_paths (app w') = as_paths (app w)"
    using assms(1) by (auto simp: receive_open_def Let_def insert_session_def split: option.splits prod.splits if_splits)
qed

lemma begin_touches:
  assumes "uuid_text su" and "receive_begin H su io now u hdr w = (h, w')" and "disk_ok (fs w)"
  shows "disk_ok (fs w') \<and> as_paths (app w') = as_paths (app w)
    \<and> (names (fs w) p = Some f \<longrightarrow> names (fs w') p = Some f
      \<and> (reading h = None \<or> p \<noteq> components (staging_of su (as_paths (app w)) u) \<longrightarrow> contents (fs w') f = contents (fs w) f))"
proof (cases "\<exists>name len. request_ok hdr name len")
  case True
  then obtain name len where "request_ok hdr name len" by blast
  from receive_open_touches [OF assms(2) [unfolded receive_begin_ok [OF assms(1) this]] assms(3)] show ?thesis by blast
next
  case False
  then show ?thesis using assms(2,3) receive_begin_not_ok [OF assms(1), of hdr H io now u w] by (auto split: if_splits)
qed

lemma begin_intact:
  assumes "uuid_text su" and "receive_begin H su io now u hdr w = (h, w')" and "disk_ok (fs w)"
  shows "own_files H su w' h" and "id_in_flight h \<subseteq> {u}"
proof -
  have "own_files H su w' h \<and> id_in_flight h \<subseteq> {u}"
  proof (cases "\<exists>r. h = Receiving r")
    case True
    then obtain r where h: "h = Receiving r" by blast
    note b = receive_begin_entered [OF assms(1,3) assms(2) [unfolded h]]
    then obtain name where e: "entered su hdr u w name r w'" by blast
    have "rv_hasher r = hasher_new H" "rv_pos r = unat (rv_resume r)" "rv_written r = rv_resume r"
      "rv_resume r = 0 \<longrightarrow> contents (fs w') (rv_file r) = []" "names (fs w') (components (rv_staging r)) = Some (rv_file r)"
      using b(1) by (simp_all add: upload_start_def)
    moreover from this have "received_so_far H r (contents (fs w') (rv_file r))"
      unfolding received_so_far_def by (intro exI [of _ "[]"] exI [of _ "contents (fs w') (rv_file r)"]) (simp add: patch_def)
    moreover have "\<exists>raw. sanitize_filename raw = Some name"
      using e by (auto simp: entered_def request_ok_def bind_eq_Some_conv)
    ultimately show ?thesis using e
      by (auto simp: h own_files_def id_in_flight_def intact_def placed_def entered_def insert_session_def)
  next
    case False
    then have "reading h = None" using receive_begin_refused [OF assms(1,3,2), of "[]"] by auto
    then show ?thesis by (simp add: own_files_def id_in_flight_def)
  qed
  then show "own_files H su w' h" "id_in_flight h \<subseteq> {u}" by simp_all
qed

section \<open>Uploads with different ids\<close>

text \<open>The laws of coexistence: what an upload relies on survives the others.\<close>

lemma own_files_arrival:
  assumes "uuid_text su" and "receive_begin H su io now u hdr w = (h, w')" and "disk_ok (fs w)"
    and "own_files H su w k" and "other_id h k"
  shows "own_files H su w' k"
proof (cases "reading k")
  case None
  then show ?thesis by (simp add: own_files_def)
next
  case (Some s)
  then have s: "intact H su w s" using assms(4) by (simp add: own_files_def)
  then have n: "names (fs w) (components (rv_staging s)) = Some (rv_file s)"
    and p: "rv_staging s = staging_of su (as_paths (app w)) (rv_id s)" by (simp_all add: intact_def placed_def)
  have "reading h = None \<or> components (rv_staging s) \<noteq> components (staging_of su (as_paths (app w)) u)"
  proof (cases "reading h")
    case (Some r)
    then have "rv_id r = u" using begin_intact(2) [OF assms(1-3)] by (simp add: id_in_flight_def)
    then have "rv_id s \<noteq> u" using assms(5) Some \<open>reading k = _\<close> by (simp add: other_id_def id_in_flight_def)
    then have "su (rv_id s) \<noteq> su u" using assms(1) by (auto simp: uuid_text_def dest: injD)
    then show ?thesis by (simp add: p upload_components(1) [OF assms(1)] part_name_def)
  qed simp
  then have "intact H su w' s" using begin_touches [OF assms(1-3)] n s by (intro intact_kept [OF s]) auto
  with Some show ?thesis by (simp add: own_files_def)
qed

lemma own_files_step:
  assumes "uuid_text su" and "recv_step H su x (h, w) = Some (h', w')" and "disk_ok (fs w)"
    and "own_files H su w h" and "own_files H su w k" and "other_id h k"
  shows "own_files H su w' k"
proof (cases "reading k")
  case None
  then show ?thesis by (simp add: own_files_def)
next
  case (Some s)
  obtain r where r: "reading h = Some r" "touched r (fs w) (fs w')" "as_paths (app w') = as_paths (app w)"
    using step_touches [OF assms(2)] by blast
  have i: "intact H su w r" "intact H su w s" using assms(4,5) Some r(1) by (simp_all add: own_files_def)
  have "rv_id s \<noteq> rv_id r" using assms(6) Some r(1) by (auto simp: other_id_def id_in_flight_def)
  note a = intact_apart(1) [OF assms(1) i(2,1)] intact_apart(2) [OF assms(1) i(2,1) this]
  have "rv_file s \<noteq> rv_file r" using i a(2) assms(3) unfolding intact_def disk_ok_def by metis
  then have "intact H su w' s"
    using touched_names [OF r(2) a(2,1)] touched_contents [OF r(2)] by (intro intact_kept [OF i(2) r(3)]) simp_all
  with Some show ?thesis by (simp add: own_files_def)
qed

interpretation overlap: coexisting "\<lambda>w. uuid_text su \<and> disk_ok (fs w)" "own_files H su" other_id
    "\<lambda>w h w'. \<exists>io now u hdr. receive_begin H su io now u hdr w = (h, w')"
    "\<lambda>h w h' w'. \<exists>x. recv_step H su x (h, w) = Some (h', w')" for H su
proof (unfold_locales, goal_cases)
  case (1 h k)
  then show ?case by (auto simp: other_id_def)
next
  case (2 w h w')
  then show ?case using begin_touches begin_intact(1) by blast
next
  case (3 w h w' k)
  then show ?case using own_files_arrival by blast
next
  case (4 h w h' w')
  then show ?case using step_touches touched_ok step_intact(1) by blast
next
  case (5 h w h' w' k)
  then show ?case using own_files_step by blast
qed

text \<open>Moves after which the uploads in flight still have different ids.\<close>

definition serve_apart :: "'h hash_api \<Rightarrow> (uuid \<Rightarrow> rstring) \<Rightarrow> 'h server \<Rightarrow> 'h server \<Rightarrow> bool" where
  "serve_apart H su S T \<longleftrightarrow> serve_move H su S T \<and> sorted_wrt other_id (sv_uploads T)"

definition all_intact :: "'h hash_api \<Rightarrow> (uuid \<Rightarrow> rstring) \<Rightarrow> 'h server \<Rightarrow> bool" where
  "all_intact H su S \<longleftrightarrow> overlap.all_own su H (sv_world S) (sv_uploads S)"

lemma serve_move_intact:
  "serve_move H su S T \<Longrightarrow> sorted_wrt other_id (sv_uploads T) \<Longrightarrow> all_intact H su S \<Longrightarrow> all_intact H su T"
  unfolding all_intact_def
proof (induction rule: serve_move.induct)
  case (arrives io now u hdr S h w)
  then show ?case by simp (rule overlap.all_own_arrive [of H su "sv_world S" h w], blast+)
next
  case (advances i S x h w)
  then show ?case by simp (rule overlap.all_own_step [of H su "sv_uploads S" i "sv_world S" h w], blast+)
qed

lemma serve_apart_intact: "serve_apart H su S T \<Longrightarrow> all_intact H su S \<Longrightarrow> all_intact H su T"
  unfolding serve_apart_def by (blast intro: serve_move_intact)

interpretation serving: invariant_system "serve_apart H su" "all_intact H su" for H su
  by unfold_locales (rule serve_apart_intact)

section \<open>Runs\<close>

lemma serve_arrives:
  "receive_begin H su io now u hdr v = (h, v') \<Longrightarrow> (serve_move H su)\<^sup>*\<^sup>* S \<lparr>sv_world = v, sv_uploads = hs\<rparr> \<Longrightarrow>
    (serve_move H su)\<^sup>*\<^sup>* S \<lparr>sv_world = v', sv_uploads = hs @ [h]\<rparr>"
  using arrives [of H su io now u hdr "\<lparr>sv_world = v, sv_uploads = hs\<rparr>" h v'] by (simp add: rtranclp.rtrancl_into_rtrancl)

lemma serve_advances:
  "recv_step H su x (hs ! i, v) = Some (h, v') \<Longrightarrow> i < length hs \<Longrightarrow>
    (serve_move H su)\<^sup>*\<^sup>* S \<lparr>sv_world = v, sv_uploads = hs\<rparr> \<Longrightarrow>
    (serve_move H su)\<^sup>*\<^sup>* S \<lparr>sv_world = v', sv_uploads = hs[i := h]\<rparr>"
  using advances [of i "\<lparr>sv_world = v, sv_uploads = hs\<rparr>" H su x h v'] by (simp add: rtranclp.rtrancl_into_rtrancl)

text \<open>A request without a range, and its body in one chunk.\<close>

lemma fresh_upload:
  assumes "uuid_text su" and "digest_law H sha" and "disk_ok (fs v)" and "request_ok hdr name len"
    and "parse_resume_offset hdr = None"
  shows "\<exists>r v1 r1 v2. receive_begin H su open_fine now u hdr v = (Receiving r, v1)
    \<and> recv_step H su (Data data io_fine) (Receiving r, v1) = Some (Receiving r1, v2)
    \<and> rv_staging r1 = staging_of su (as_paths (app v)) u \<and> rv_final r1 = final_of (as_paths (app v)) name
    \<and> rv_expected r1 = hdr (lit ''X-FileDrop-Sha256'') \<and> rv_total r1 = len \<and> rv_resume r1 = 0
    \<and> rv_written r1 = of_nat (length data) \<and> finalize_hex H (rv_hasher r1) = hex_encode (sha data)
    \<and> disk_ok (fs v2) \<and> as_paths (app v2) = as_paths (app v) \<and> disk_read (rv_staging r1) (fs v2) = Some data"
proof -
  obtain r v1 where b: "upload_start H r v1" "entered su hdr u v name r v1" "rv_total r = len"
    "receive_begin H su open_fine now u hdr v = (Receiving r, v1)"
    using plain_transfer [OF assms(1-4)] by blast
  obtain r1 v2 where w: "write_chunk H io_fine r data v1 = (Receiving r1, v2)" "receiving H r v1 ([] @ data) r1 v2"
    using receiving_write [OF receiving_start [OF b(1)]] io_fine_simps(1) by blast
  note f = receiving_fields [OF w(2)]
  have z: "rv_resume r = 0" using b(2) assms(5) by (simp add: entered_def unwrap_or_def)
  then have c: "stored_content r v1 data = data" using b(1) by (simp add: stored_content_def upload_start_def patch_def)
  have "finalize_hex H (rv_hasher r1) = hex_encode (sha data)"
    using w(2) hasher_digest [OF assms(2)] by (auto simp: receiving_def)
  with b w(1) f z c stored_read(1,3) [OF b(1), of data] show ?thesis
    by (auto simp: entered_def insert_session_def)
qed

text \<open>A request that announces \<open>data\<close>; and two of them, the first ending while the second is in flight.\<close>

definition announces :: "(byte list \<Rightarrow> byte list) \<Rightarrow> headers \<Rightarrow> byte list \<Rightarrow> bool" where
  "announces sha hdr data \<longleftrightarrow> (\<exists>name. request_ok hdr name (of_nat (length data))) \<and> parse_resume_offset hdr = None
     \<and> hdr (lit ''X-FileDrop-Sha256'') = Some (hex_encode (sha data))"

lemma sample_pair: "announces toy_sha (sample_headers 3 None) [1, 2, 3]"
  using sample_request [of 3 None] by (auto simp: announces_def parse_resume_offset_def)

lemma two_uploads:
  assumes "uuid_text su" and "digest_law H sha" and "disk_ok (fs w)" and "announces sha hdr data"
  shows "\<exists>r v1 r1 v2 s v3 resp w'. receive_begin H su open_fine 0 u hdr w = (Receiving r, v1)
    \<and> recv_step H su (Data data io_fine) (Receiving r, v1) = Some (Receiving r1, v2)
    \<and> receive_begin H su open_fine 0 v hdr v2 = (Receiving s, v3) \<and> rv_id r = u \<and> rv_id r1 = u \<and> rv_id s = v
    \<and> rv_expected r1 = Some (hex_encode (sha data))
    \<and> recv_step H su (EndOfBody io_fine) (Receiving r1, v3) = Some (Responded resp, w') \<and> status_of resp = OK"
proof -
  obtain name where n: "request_ok hdr name (of_nat (length data))" "parse_resume_offset hdr = None"
    "hdr (lit ''X-FileDrop-Sha256'') = Some (hex_encode (sha data))" using assms(4) by (auto simp: announces_def)
  note fresh = fresh_upload [OF assms(1,2) _ n(1,2)]
  obtain r v1 r1 v2 where a: "receive_begin H su open_fine 0 u hdr w = (Receiving r, v1)"
    "recv_step H su (Data data io_fine) (Receiving r, v1) = Some (Receiving r1, v2)"
    and r: "rv_expected r1 = Some (hex_encode (sha data))" "rv_total r1 = of_nat (length data)" "rv_resume r1 = 0"
    "rv_written r1 = of_nat (length data)" "finalize_hex H (rv_hasher r1) = hex_encode (sha data)"
    and v2: "disk_ok (fs v2)" "disk_read (rv_staging r1) (fs v2) = Some data"
    using fresh [OF assms(3), of 0 u data] n(3) by auto
  obtain s v3 where b: "receive_begin H su open_fine 0 v hdr v2 = (Receiving s, v3)" using fresh [OF v2(1), of 0 v data] by blast
  have i: "rv_id r = u" "rv_id r1 = u" "rv_id s = v"
    using begin_intact(2) [OF assms(1) a(1) assms(3)] begin_intact(2) [OF assms(1) b v2(1)]
      step_intact(2) [OF a(2) begin_intact(1) [OF assms(1) a(1) assms(3)]] by (simp_all add: id_in_flight_def)
  have "names (fs v3) (components (rv_staging r1)) \<noteq> None"
    using v2 begin_touches [OF assms(1) b v2(1)] by (auto simp: disk_read_def)
  then obtain e where "disk_rename (rv_staging r1) (rv_final r1) (fs v3) = Some e" using disk_rename_Some by blast
  then have "recv_step H su (EndOfBody io_fine) (Receiving r1, v3)
      = Some (Responded (Text OK (lit ''transfer complete'')), remove_session (rv_id r1) (v3\<lparr>fs := e\<rparr>))"
    using r by (simp add: receive_end_def verify_and_rename_def rename_into_place_def)
  with a b i r(1) show ?thesis by auto
qed

section \<open>Properties\<close>

text \<open>An answer 200 comes from the end of the body.\<close>

lemma accepted_step:
  assumes "recv_step H su x (h, w) = Some (Responded resp, w')" and "status_of resp = OK"
  obtains r io where "h = Receiving r" "rv_written r = rv_total r" "verify_and_rename H su io r w = Some (resp, w')"
  using assms
  by (cases "(H, su, x, h, w)" rule: recv_step.cases)
    (auto simp: status_codes write_chunk_def receive_end_def split: if_split_asm option.split_asm prod.split_asm)

lemma accepted_intact:
  assumes "digest_law H sha" and "uuid_text su" and "intact H su w r" and "rv_written r = rv_total r"
    and "verify_and_rename H su io r w = Some (resp, w')" and "status_of resp = OK"
  shows "\<exists>c. disk_read (rv_final r) (fs w') = Some c \<and> (\<forall>e. rv_expected r = Some e \<longrightarrow> hex_encode (sha c) = e)
    \<and> (rv_resume r = 0 \<longrightarrow> of_nat (length c) = rv_total r)"
  using assms(5)
proof (cases rule: verify_cases)
  case 3
  let ?c = "contents (fs w) (rv_file r)"
  have d: "disk_rename (rv_staging r) (rv_final r) (fs w) = Some (fs w')"
    using 3(1) assms(6) by (auto simp: rename_into_place_def remove_session_def status_codes split: option.split_asm)
  have s: "disk_read (rv_staging r) (fs w) = Some ?c" using assms(3) by (simp add: intact_def disk_read_def)
  have f: "disk_read (rv_final r) (fs w') = Some ?c"
    using disk_rename_read(1) [OF d intact_apart(1) [OF assms(2,3,3)]] s by simp
  obtain cs old where c: "rv_hasher r = foldl (hasher_update H) (hasher_new H) cs"
    "rv_written r = rv_resume r + of_nat (length (concat cs))" "?c = patch (unat (rv_resume r)) (concat cs) old"
    "rv_resume r = 0 \<longrightarrow> old = []"
    using assms(3) unfolding intact_def received_so_far_def by blast
  have z: "?c = concat cs" if "rv_resume r = 0" using c that by (simp add: patch_def)
  have "hex_encode (sha ?c) = e" if "rv_expected r = Some e" for e
  proof (cases "rv_resume r = 0")
    case True
    with 3(2) that show ?thesis by (simp add: c(1) z hasher_digest [OF assms(1)])
  next
    case False
    with 3(2) that have "hash_of_file H (io_hash io) (rv_staging r) (fs w) = Some (Inr e)" by simp
    from hash_of_file_same [OF assms(1) s this] show ?thesis by simp
  qed
  moreover have "of_nat (length ?c) = rv_total r" if "rv_resume r = 0"
    using that c(2) assms(4) by (simp add: z)
  ultimately show ?thesis using f by blast
qed (use assms(6) in \<open>simp_all add: status_codes\<close>)

text \<open>Uploads received at the same time do not disturb each other: as long as those in flight have different
  ids, in any interleaving of arrivals, chunks, errors and controls, an upload that is answered 200 leaves
  under its final name a file with the announced hash and, unless it was resumed, the announced size.\<close>

theorem overlapping_uploads_verified:
  assumes "uuid_text su" and "digest_law H sha" and "disk_ok (fs w)"
    and "(serve_apart H su)\<^sup>*\<^sup>* \<lparr>sv_world = w, sv_uploads = []\<rparr> S"
    and "i < length (sv_uploads S)" and "sv_uploads S ! i = Receiving r"
    and "recv_step H su x (sv_uploads S ! i, sv_world S) = Some (Responded resp, w')" and "status_of resp = OK"
  shows "\<exists>c. disk_read (rv_final r) (fs w') = Some c \<and> (\<forall>e. rv_expected r = Some e \<longrightarrow> hex_encode (sha c) = e)
    \<and> (rv_resume r = 0 \<longrightarrow> of_nat (length c) = rv_total r)"
proof -
  have "all_intact H su S"
    using serving.run_inv [OF assms(4)] overlap.all_own_nil [of su w H] assms(1,3) by (simp add: all_intact_def)
  then have "intact H su (sv_world S) r"
    using overlap.all_own_nth [OF _ assms(5)] assms(6) by (fastforce simp: all_intact_def own_files_def)
  then show ?thesis using assms accepted_step [OF assms(7,8)] by (auto intro: accepted_intact)
qed

theorem overlapping_uploads_verified_witness:
  "\<exists>S r resp w'. (serve_apart toy_hash sample_show)\<^sup>*\<^sup>* \<lparr>sv_world = sample_world empty_disk, sv_uploads = []\<rparr> S
    \<and> length (sv_uploads S) = 2 \<and> sv_uploads S ! 0 = Receiving r
    \<and> recv_step toy_hash sample_show (EndOfBody io_fine) (sv_uploads S ! 0, sv_world S) = Some (Responded resp, w')
    \<and> status_of resp = OK \<and> (\<exists>c. disk_read (rv_final r) (fs w') = Some c \<and> hex_encode (toy_sha c) = hex_encode (toy_sha [1, 2, 3]))"
proof -
  let ?w = "sample_world empty_disk" and ?h = "sample_headers 3 None"
  note t = sample_show_text and k = sample_world_ok
  obtain r v1 r1 v2 s v3 resp w' where a: "receive_begin toy_hash sample_show open_fine 0 7 ?h ?w = (Receiving r, v1)"
    "recv_step toy_hash sample_show (Data [1, 2, 3] io_fine) (Receiving r, v1) = Some (Receiving r1, v2)"
    "receive_begin toy_hash sample_show open_fine 0 8 ?h v2 = (Receiving s, v3)"
    "rv_id r = 7" "rv_id r1 = 7" "rv_id s = 8" "rv_expected r1 = Some (hex_encode (toy_sha [1, 2, 3]))"
    "recv_step toy_hash sample_show (EndOfBody io_fine) (Receiving r1, v3) = Some (Responded resp, w')" "status_of resp = OK"
    using two_uploads [OF t toy_hash_law k sample_pair, where u = 7 and v = 8] by auto
  let ?S = "\<lparr>sv_world = v3, sv_uploads = [Receiving r1, Receiving s]\<rparr>"
  have "serve_apart toy_hash sample_show \<lparr>sv_world = ?w, sv_uploads = []\<rparr> \<lparr>sv_world = v1, sv_uploads = [Receiving r]\<rparr>"
    using arrives [of toy_hash sample_show _ _ _ _ "\<lparr>sv_world = ?w, sv_uploads = []\<rparr>"] a(1) by (fastforce simp: serve_apart_def)
  moreover have "serve_apart toy_hash sample_show \<lparr>sv_world = v1, sv_uploads = [Receiving r]\<rparr> \<lparr>sv_world = v2, sv_uploads = [Receiving r1]\<rparr>"
    using advances [of 0 "\<lparr>sv_world = v1, sv_uploads = [Receiving r]\<rparr>" toy_hash sample_show "Data [1, 2, 3] io_fine"] a(2)
    by (simp add: serve_apart_def del: recv_step.simps)
  moreover have "serve_apart toy_hash sample_show \<lparr>sv_world = v2, sv_uploads = [Receiving r1]\<rparr> ?S"
    using arrives [of toy_hash sample_show _ _ _ _ "\<lparr>sv_world = v2, sv_uploads = [Receiving r1]\<rparr>"] a(3,5,6)
    by (fastforce simp: serve_apart_def other_id_def id_in_flight_def)
  ultimately have S: "(serve_apart toy_hash sample_show)\<^sup>*\<^sup>* \<lparr>sv_world = ?w, sv_uploads = []\<rparr> ?S" by simp
  have e: "recv_step toy_hash sample_show (EndOfBody io_fine) (sv_uploads ?S ! 0, sv_world ?S) = Some (Responded resp, w')"
    using a(8) by (simp del: recv_step.simps)
  from overlapping_uploads_verified [OF t toy_hash_law k S, of 0 r1, OF _ _ e a(9)] a(7,9) S e show ?thesis
    by (intro exI [of _ ?S] exI [of _ r1]) (fastforce simp del: recv_step.simps)
qed

section \<open>Two uploads with the same id\<close>

text \<open>A second request with the id of an upload in flight truncates and shares its staging file. The first upload is
  still answered 200, its hash being that of the stream, while what the second one wrote is what ends up
  under the final name: the checksum does not protect the stored file.\<close>

lemma same_id_corrupts:
  fixes w :: world
  assumes "uuid_text su" and "digest_law H sha" and "disk_ok (fs w)" and "request_ok hdr name (of_nat (length data))"
    and "parse_resume_offset hdr = None" and "hdr (lit ''X-FileDrop-Sha256'') = Some (hex_encode (sha data))"
  shows "\<exists>S r m w'. (serve_move H su)\<^sup>*\<^sup>* \<lparr>sv_world = w, sv_uploads = []\<rparr> S \<and> sv_uploads S ! 0 = Receiving r
    \<and> rv_expected r = Some (hex_encode (sha data))
    \<and> recv_step H su (EndOfBody io_fine) (Receiving r, sv_world S) = Some (Responded (Text OK m), w')
    \<and> disk_read (rv_final r) (fs w') = Some other"
proof -
  obtain r v1 r1 v2 where a: "receive_begin H su open_fine 0 u hdr w = (Receiving r, v1)"
    "recv_step H su (Data data io_fine) (Receiving r, v1) = Some (Receiving r1, v2)"
    and r: "rv_staging r1 = staging_of su (as_paths (app w)) u" "rv_final r1 = final_of (as_paths (app w)) name"
    "rv_expected r1 = Some (hex_encode (sha data))" "rv_total r1 = of_nat (length data)" "rv_resume r1 = 0"
    "rv_written r1 = of_nat (length data)" "finalize_hex H (rv_hasher r1) = hex_encode (sha data)"
    and v2: "disk_ok (fs v2)" "as_paths (app v2) = as_paths (app w)"
    using fresh_upload [OF assms(1-5), of 0 u data] assms(6) by auto
  obtain s v3 s1 v4 where b: "receive_begin H su open_fine 0 u hdr v2 = (Receiving s, v3)"
    "recv_step H su (Data other io_fine) (Receiving s, v3) = Some (Receiving s1, v4)"
    and s: "disk_read (rv_staging r1) (fs v4) = Some other"
    using fresh_upload [OF assms(1,2) v2(1) assms(4,5), of 0 u other] r(1) v2(2) by auto
  obtain e where e: "disk_rename (rv_staging r1) (rv_final r1) (fs v4) = Some e"
    using s disk_rename_Some by (fastforce simp: disk_read_def)
  have p: "components (rv_staging r1) \<noteq> components (rv_final r1)"
    using r(1,2) request_ok_apart [OF assms(1,4)] by simp
  have "(serve_move H su)\<^sup>*\<^sup>* \<lparr>sv_world = w, sv_uploads = []\<rparr> \<lparr>sv_world = v1, sv_uploads = [Receiving r]\<rparr>"
    using serve_arrives [OF a(1), of _ "[]"] by simp
  then have "(serve_move H su)\<^sup>*\<^sup>* \<lparr>sv_world = w, sv_uploads = []\<rparr> \<lparr>sv_world = v2, sv_uploads = [Receiving r1]\<rparr>"
    using serve_advances [of H su "Data data io_fine" "[Receiving r]" 0] a(2) by (simp del: recv_step.simps)
  then have "(serve_move H su)\<^sup>*\<^sup>* \<lparr>sv_world = w, sv_uploads = []\<rparr> \<lparr>sv_world = v3, sv_uploads = [Receiving r1, Receiving s]\<rparr>"
    using serve_arrives [OF b(1), of _ "[Receiving r1]"] by simp
  then have "(serve_move H su)\<^sup>*\<^sup>* \<lparr>sv_world = w, sv_uploads = []\<rparr> \<lparr>sv_world = v4, sv_uploads = [Receiving r1, Receiving s1]\<rparr>"
    using serve_advances [of H su "Data other io_fine" "[Receiving r1, Receiving s]" 1] b(2) by (simp del: recv_step.simps)
  moreover have "recv_step H su (EndOfBody io_fine) (Receiving r1, v4)
      = Some (Responded (Text OK (lit ''transfer complete'')), remove_session (rv_id r1) (v4\<lparr>fs := e\<rparr>))"
    using r e by (simp add: receive_end_def verify_and_rename_def rename_into_place_def)
  moreover have "disk_read (rv_final r1) e = Some other" using disk_rename_read(1) [OF e p] s by simp
  ultimately show ?thesis using r(3)
    by (intro exI [of _ "\<lparr>sv_world = v4, sv_uploads = [Receiving r1, Receiving s1]\<rparr>"] exI [of _ r1]) (auto simp: remove_session_def)
qed

end
