(* ===== verification/App_Uploads.thy ===== *)
theory App_Uploads
  imports App Overlap
begin

text \<open>
  The uploads of the running application: what \<open>Overlap\<close> shows of the server alone holds while calls from Dart
  and sending tasks run beside it, since none of them touches a file name, a file's content or the paths.
\<close>

section \<open>What the other moves leave alone\<close>

definition same_files :: "disk \<Rightarrow> disk \<Rightarrow> bool" where
  "same_files d e \<longleftrightarrow> names e = names d \<and> contents e = contents d \<and> next_file e = next_file d"

lemma same_files_refl [simp]: "same_files d d"
  by (simp add: same_files_def)

lemma same_files_ok: "same_files d e \<Longrightarrow> disk_ok e = disk_ok d"
  by (simp add: same_files_def disk_ok_def)

lemma create_all_next: "next_file (snd (create_all io ps d)) = next_file d"
  by (induction io ps d rule: create_all.induct) (auto simp: create_dir_all_def split: option.splits)

lemma engine_init_files: "same_files d (snd (engine_init de dio xo re fresh name dir d))"
proof -
  have "same_files d (snd (ensure_dirs dio sp d))" for sp
    by (simp only: ensure_dirs_def same_files_def create_all_files create_all_next)
  then show ?thesis by (auto simp: engine_init_def Let_def split: prod.splits sum.splits) (metis snd_conv)+
qed

lemma init_engine_files: "same_files (disk_of p) (disk_of (snd (init_engine su de dio xo re fresh name dir p)))"
  using engine_init_files [of "disk_of p" de dio xo re fresh name dir]
  by (auto simp: init_engine_def Let_def split: prod.splits sum.splits option.splits)

lemma plain_call_files: "plain_call p p' \<Longrightarrow> same_files (disk_of p) (disk_of p')"
  by (cases rule: plain_call.cases)
    (auto simp: init_engine_files start_server_def stop_server_def start_discovery_def device_arrives_def
      stop_discovery_def pair_device_def confirm_transfer_def control_transfer_def the_engine_def store_shutdown_def
      Let_def emit_def set_engine_def split: option.splits sum.splits prod.splits)

lemma plain_call_engine:
  assumes "plain_call p p'"
  shows "(case rt_engine (rt p) of
      None \<Rightarrow> rt_engine (rt p') = None
        \<or> (\<exists>de dio xo re fresh name dir eng d. engine_init de dio xo re fresh name dir (disk_of p) = (Inr eng, d)
             \<and> rt_engine (rt p') = Some eng)
    | Some eng \<Rightarrow> \<exists>m. rt_engine (rt p') = Some (eng\<lparr>as_pairing := m\<rparr>) \<and> (peers.keyed (as_pairing eng) \<longrightarrow> peers.keyed m))"
  using assms
proof (cases rule: plain_call.cases)
  case (init su de dio xo re fresh name dir)
  obtain r d where i: "engine_init de dio xo re fresh name dir (disk_of p) = (r, d)" by fastforce
  show ?thesis
  proof (cases "rt_engine (rt p)")
    case None
    with init i show ?thesis by (cases r) (simp_all add: init_engine_def Let_def, blast)
  next
    case (Some eng)
    with init i show ?thesis by (cases r) (auto simp: init_engine_def Let_def intro!: exI [of _ "as_pairing eng"])
  qed
next
  case (pair sv addrs tok t1 t2 peer name)
  have "peers.keyed m \<Longrightarrow> peers.keyed (snd (create_request peer name tok 300 (now_unix t1) m))" for m
    by (simp add: create_request_def Let_def peers.keyed_put)
  with pair show ?thesis by (auto simp: pair_device_def the_engine_def Let_def split: option.splits)
next
  case (decide su accept u)
  have "confirm u accept m = (r, m') \<Longrightarrow> peers.keyed m \<Longrightarrow> peers.keyed m'" for r m m'
    by (auto simp: confirm_def set_state_def peers.keyed_def Let_def split: option.splits if_splits)
  with decide show ?thesis by (fastforce simp: confirm_transfer_def the_engine_def Let_def split: option.splits sum.splits prod.splits)
qed (auto simp: api_defs Let_def emit_def split: option.splits sum.splits prod.splits
    intro!: exI [of _ "as_pairing (the (rt_engine (rt p)))"])

section \<open>The uploads in flight\<close>

definition uploads_ok :: "'h hash_api \<Rightarrow> (uuid \<Rightarrow> rstring) \<Rightarrow> 'h application \<Rightarrow> bool" where
  "uploads_ok H su A \<longleftrightarrow> uuid_text su \<and> disk_ok (disk_of (proc A))
     \<and> (case world_of (proc A) of None \<Rightarrow> uploads A = [] | Some w \<Rightarrow> all_intact H su \<lparr>sv_world = w, sv_uploads = uploads A\<rparr>)"

text \<open>A world with the same files and paths serves the same uploads.\<close>

lemma all_intact_kept:
  assumes "all_intact H su \<lparr>sv_world = w, sv_uploads = hs\<rparr>" and "same_files (fs w) (fs w')" and "as_paths (app w') = as_paths (app w)"
  shows "all_intact H su \<lparr>sv_world = w', sv_uploads = hs\<rparr>"
proof -
  have "own_files H su w' h" if "own_files H su w h" for h
    using that assms(2,3) by (cases "reading h") (auto simp: own_files_def same_files_def intro: intact_kept)
  with assms(1) show ?thesis
    unfolding all_intact_def overlap.all_own_def using same_files_ok [OF assms(2)] by simp
qed

lemma all_intact_nil: "uuid_text su \<Longrightarrow> disk_ok (fs w) \<Longrightarrow> all_intact H su \<lparr>sv_world = w, sv_uploads = []\<rparr>"
  unfolding all_intact_def overlap.all_own_def by simp

lemma all_intact_disk: "all_intact H su \<lparr>sv_world = w, sv_uploads = hs\<rparr> \<Longrightarrow> uuid_text su \<and> disk_ok (fs w)"
  unfolding all_intact_def overlap.all_own_def by simp

lemma same_but_sessions_paths: "same_but_sessions a b \<Longrightarrow> as_paths b = as_paths a"
  by (cases a; cases b) (simp add: same_but_sessions_def)

lemma uploads_ok_kept:
  assumes "uploads_ok H su A" and "uploads B = uploads A" and "same_files (disk_of (proc A)) (disk_of (proc B))"
    and "case rt_engine (rt (proc A)) of None \<Rightarrow> True
      | Some eng \<Rightarrow> \<exists>eng'. rt_engine (rt (proc B)) = Some eng' \<and> as_paths eng' = as_paths eng"
  shows "uploads_ok H su B"
proof -
  have d: "uuid_text su" "disk_ok (disk_of (proc B))" using assms(1) same_files_ok [OF assms(3)] by (simp_all add: uploads_ok_def)
  show ?thesis
  proof (cases "rt_engine (rt (proc A))")
    case None
    then have "uploads B = []" using assms(1,2) by (simp add: uploads_ok_def world_of_def)
    then show ?thesis using d
      by (auto simp: uploads_ok_def world_of_def intro!: all_intact_nil split: option.splits)
  next
    case (Some eng)
    then obtain eng' where e: "rt_engine (rt (proc B)) = Some eng'" "as_paths eng' = as_paths eng" using assms(4) by auto
    let ?w = "\<lparr>app = engine_router eng, mem = heap_of (proc A), fs = disk_of (proc A)\<rparr>"
    let ?v = "\<lparr>app = engine_router eng', mem = heap_of (proc B), fs = disk_of (proc B)\<rparr>"
    have "all_intact H su \<lparr>sv_world = ?w, sv_uploads = uploads A\<rparr>"
      using assms(1) Some by (simp add: uploads_ok_def world_of_def)
    then have "all_intact H su \<lparr>sv_world = ?v, sv_uploads = uploads A\<rparr>"
      by (rule all_intact_kept) (simp_all add: assms(3) e(2) engine_router_def)
    with d e(1) assms(2) show ?thesis by (simp add: uploads_ok_def world_of_def)
  qed
qed

text \<open>A move of the server.\<close>

lemma uploads_ok_serve:
  assumes "world_of (proc A) = Some w" and "same_but_sessions (app w) (app w')"
    and "all_intact H su \<lparr>sv_world = w', sv_uploads = hs\<rparr>"
  shows "uploads_ok H su (A\<lparr>proc := put_world w' (proc A), uploads := hs\<rparr>)"
proof -
  obtain eng where e: "rt_engine (rt (proc A)) = Some eng"
    and p: "put_world w' (proc A) = set_engine (eng\<lparr>as_sessions := as_sessions (app w')\<rparr>) (proc A\<lparr>heap_of := mem w', disk_of := fs w'\<rparr>)"
    using put_world_view [OF assms(1,2)] by blast
  have "app w = engine_router eng" using assms(1) e by (auto simp: world_of_def)
  then have "as_paths (app w') = as_paths eng"
    using same_but_sessions_paths [OF assms(2)] by (simp add: engine_router_def)
  then have "all_intact H su \<lparr>sv_world = \<lparr>app = engine_router (eng\<lparr>as_sessions := as_sessions (app w')\<rparr>), mem = mem w',
      fs = fs w'\<rparr>, sv_uploads = hs\<rparr>"
    by (intro all_intact_kept [OF assms(3)]) (simp_all add: engine_router_def)
  with all_intact_disk [OF assms(3)] show ?thesis by (simp add: uploads_ok_def world_of_def p)
qed

lemma recv_step_sessions: "recv_step H su x (h, w) = Some (h', w') \<Longrightarrow> same_but_sessions (app w) (app w')"
  by (cases "(H, su, x, h, w)" rule: recv_step.cases)
    (auto simp: write_chunk_def remove_session_def remove_file_def dest: receive_end_app split: if_split_asm option.split_asm prod.split_asm)

text \<open>Moves of the application after which the uploads in flight have different ids.\<close>

definition app_apart :: "'h send_env \<Rightarrow> 'h application \<Rightarrow> 'h application \<Rightarrow> bool" where
  "app_apart E A B \<longleftrightarrow> app_move E A B \<and> sorted_wrt other_id (uploads B)"

lemma uploads_ok_send:
  assumes "uploads_ok H su A" and "send_files sv pa me fresh host port peer paths (proc A) = (r, p, ws)"
  shows "uploads_ok H su (A\<lparr>proc := p, tasks := tasks A @ ws\<rparr>)"
  using assms(2) by (intro uploads_ok_kept [OF assms(1)])
    (auto simp: send_files_def the_engine_def split: option.splits sum.splits prod.splits)

lemma uploads_ok_move:
  "app_move E A B \<Longrightarrow> sorted_wrt other_id (uploads B) \<Longrightarrow> uploads_ok (se_hash E) (se_show_uuid E) A \<Longrightarrow>
    uploads_ok (se_hash E) (se_show_uuid E) B"
proof (induction rule: app_move.induct)
  case (call A p)
  then show ?case using plain_call_files [OF call(1)] plain_call_engine [OF call(1)]
    by (intro uploads_ok_kept [OF call(3)]) (auto split: option.splits)
next
  case (send sv pa me fresh host port peer paths A r p ws)
  then show ?case by (blast intro: uploads_ok_send)
next
  case (task A P P')
  then obtain eng where "rt_engine (rt (proc A)) = Some eng" by (auto simp: pool_of_def)
  then show ?case by (intro uploads_ok_kept [OF task(4)]) (auto simp: put_pool_def)
next
  case (request A w io now u hdr h w')
  have "all_intact (se_hash E) (se_show_uuid E) \<lparr>sv_world = w, sv_uploads = uploads A\<rparr>"
    using request by (simp add: uploads_ok_def)
  then have "all_intact (se_hash E) (se_show_uuid E) \<lparr>sv_world = w', sv_uploads = uploads A @ [h]\<rparr>"
    using serve_move_intact [OF arrives [of _ _ io now u hdr "\<lparr>sv_world = w, sv_uploads = uploads A\<rparr>"]] request by simp
  then show ?case using receive_begin_app [OF request(2)] by (blast intro: uploads_ok_serve [OF request(1)])
next
  case (upload A w i x h w')
  have "all_intact (se_hash E) (se_show_uuid E) \<lparr>sv_world = w, sv_uploads = uploads A\<rparr>"
    using upload by (simp add: uploads_ok_def)
  then have "all_intact (se_hash E) (se_show_uuid E) \<lparr>sv_world = w', sv_uploads = (uploads A)[i := h]\<rparr>"
    using serve_move_intact [OF advances [of i "\<lparr>sv_world = w, sv_uploads = uploads A\<rparr>"]] upload by simp
  moreover have "same_but_sessions (app w) (app w')" using recv_step_sessions [OF upload(4)] .
  ultimately show ?case by (blast intro: uploads_ok_serve [OF upload(1)])
qed

lemma uploads_ok_apart:
  "app_apart E A B \<Longrightarrow> uploads_ok (se_hash E) (se_show_uuid E) A \<Longrightarrow> uploads_ok (se_hash E) (se_show_uuid E) B"
  unfolding app_apart_def by (blast intro: uploads_ok_move)

interpretation serving_app: invariant_system "app_apart E" "uploads_ok (se_hash E) (se_show_uuid E)" for E
  by unfold_locales (rule uploads_ok_apart)

lemma uploads_ok_new: "uuid_text su \<Longrightarrow> disk_ok d \<Longrightarrow> uploads_ok H su (app_new h d)"
  by (simp add: uploads_ok_def app_new_def process_new_def runtime_new_def world_of_def)


text \<open>A step of the server as a move of the application.\<close>

lemma put_world_of:
  assumes "world_of p = Some w" and "same_but_sessions (app w) (app w')"
  shows "world_of (put_world w' p) = Some w'"
proof -
  obtain eng where e: "rt_engine (rt p) = Some eng"
    and p: "put_world w' p = set_engine (eng\<lparr>as_sessions := as_sessions (app w')\<rparr>) (p\<lparr>heap_of := mem w', disk_of := fs w'\<rparr>)"
    using put_world_view [OF assms] by blast
  have "app w = engine_router eng" using assms(1) e by (auto simp: world_of_def)
  moreover have "app w' = (app w)\<lparr>as_sessions := as_sessions (app w')\<rparr>" using assms(2) by (simp add: same_but_sessions_def)
  ultimately have "app w' = engine_router (eng\<lparr>as_sessions := as_sessions (app w')\<rparr>)" by (simp add: engine_router_def)
  then show ?thesis by (simp add: world_of_def p)
qed

lemma app_request:
  assumes "(app_apart E)\<^sup>*\<^sup>* S A" and "world_of (proc A) = Some w"
    and "receive_begin (se_hash E) (se_show_uuid E) io now u hdr w = (h, w')" and "sorted_wrt other_id (uploads A @ [h])"
  shows "\<exists>B. (app_apart E)\<^sup>*\<^sup>* S B \<and> world_of (proc B) = Some w' \<and> uploads B = uploads A @ [h]"
proof -
  let ?B = "A\<lparr>proc := put_world w' (proc A), uploads := uploads A @ [h]\<rparr>"
  have "app_apart E A ?B" using request [OF assms(2,3)] assms(4) by (simp add: app_apart_def)
  with assms(1) have "(app_apart E)\<^sup>*\<^sup>* S ?B" by (rule rtranclp.rtrancl_into_rtrancl)
  then show ?thesis using put_world_of [OF assms(2)] receive_begin_app [OF assms(3)] by (intro exI [of _ ?B]) simp
qed

lemma app_upload:
  assumes "(app_apart E)\<^sup>*\<^sup>* S A" and "world_of (proc A) = Some w" and "i < length (uploads A)" and "\<not> is_control_stimulus x"
    and "recv_step (se_hash E) (se_show_uuid E) x (uploads A ! i, w) = Some (h, w')" and "sorted_wrt other_id ((uploads A)[i := h])"
  shows "\<exists>B. (app_apart E)\<^sup>*\<^sup>* S B \<and> world_of (proc B) = Some w' \<and> uploads B = (uploads A)[i := h]"
proof -
  let ?B = "A\<lparr>proc := put_world w' (proc A), uploads := (uploads A)[i := h]\<rparr>"
  have "app_apart E A ?B" using upload [OF assms(2-5)] assms(6) by (simp add: app_apart_def)
  with assms(1) have "(app_apart E)\<^sup>*\<^sup>* S ?B" by (rule rtranclp.rtrancl_into_rtrancl)
  then show ?thesis using put_world_of [OF assms(2)] recv_step_sessions [OF assms(5)] by (intro exI [of _ ?B]) simp
qed

definition shown_env :: "byte list send_env" where
  "shown_env = sample_env\<lparr>se_show_uuid := sample_show\<rparr>"

lemma shown_env_simps [simp]: "se_hash shown_env = toy_hash" "se_show_uuid shown_env = sample_show"
  by (simp_all add: shown_env_def sample_env_def)

lemma abc_disk_ok: "disk_ok abc_disk"
  by (auto simp: disk_ok_def abc_disk_def split: if_splits)

lemma sample_app_apart:
  "\<exists>w. (app_apart shown_env)\<^sup>*\<^sup>* (app_new sample_heap abc_disk) sample_app \<and> world_of (proc sample_app) = Some w
    \<and> uploads sample_app = [] \<and> disk_ok (fs w)"
proof -
  have "plain_call (proc (app_new sample_heap abc_disk)) (proc sample_app)"
    unfolding sample_app_def app_new_def by (simp add: init)
  from call [OF this, of shown_env] have r: "app_apart shown_env (app_new sample_heap abc_disk) sample_app"
    by (simp add: app_apart_def sample_app_def app_new_def)
  obtain eng where e: "rt_engine (rt (proc sample_app)) = Some eng" using sample_app_engine by blast
  have "uploads_ok toy_hash sample_show sample_app"
    using uploads_ok_apart [OF r] uploads_ok_new [OF sample_show_text abc_disk_ok, where H = toy_hash] by simp
  then have "disk_ok (disk_of (proc sample_app))" by (simp add: uploads_ok_def)
  with r e show ?thesis by (auto simp: world_of_def sample_app_def app_new_def intro: r_into_rtranclp)
qed


end
