(* ===== verification/Delivery.thy ===== *)
theory Delivery
  imports End_To_End App_Uploads
begin

text \<open>
  Two devices: the sending tasks of one (\<open>Workers\<close>, of which its application is a refinement) and the running
  application of the other (\<open>App\<close>), connected by requests in flight. Each device moves on its own, in any order; a
  task that sends is connected to one upload of the receiver, whose body may arrive in any pieces, wrongly or not
  at all, and is answered by what that upload's handler answered. What the sender's report of a
  completed transfer then says about the receiver's disk.
\<close>

section \<open>Requests in flight\<close>

text \<open>A connection: the task and its file as it was opened, the upload it reached, and, for the statements below,
  what the receiver's final name held when the upload was answered.\<close>

record connection =
  cn_task :: nat
  cn_path :: rstring
  cn_disk :: disk
  cn_send :: send_io
  cn_upload :: nat
  cn_stored :: "byte list option"

record 'h link =
  lk_pool :: pool
  lk_app :: "'h application"
  lk_conns :: "connection list"

text \<open>What the sender's HTTP library makes of a response.\<close>

fun reply_of :: "response \<Rightarrow> nat \<times> rstring option" where
  "reply_of (Text status text) = (status, Some text)"
| "reply_of (JsonStatus s) = (OK, None)"

definition note_answer :: "'h application \<Rightarrow> 'h application \<Rightarrow> connection \<Rightarrow> connection" where
  "note_answer A B c =
     (case (uploads A ! cn_upload c, uploads B ! cn_upload c) of
        (Receiving r, Responded resp) \<Rightarrow> c\<lparr>cn_stored := disk_read (rv_final r) (disk_of (proc B))\<rparr>
      | _ \<Rightarrow> c)"

text \<open>The request a task makes of its file, and its arrival at the receiver.\<close>

definition task_request :: "'h send_env \<Rightarrow> worker \<Rightarrow> u64 \<Rightarrow> rstring option \<Rightarrow> byte list \<Rightarrow> http_request" where
  "task_request E w total_size checksum content =
     send_request (se_show_uuid E) (wk_addr w) (wk_id w) (sent_name (wk_path w)) total_size checksum 0 (se_pieces E content)"

inductive link_move :: "'h send_env \<Rightarrow> ((rstring \<times> rstring) list \<Rightarrow> headers) \<Rightarrow> 'h link \<Rightarrow> 'h link \<Rightarrow> bool"
  for E wire where
  sender: "pool_move E (lk_pool L) P \<Longrightarrow>
    \<forall>c \<in> set (lk_conns L). pl_workers P ! cn_task c = pl_workers (lk_pool L) ! cn_task c \<Longrightarrow>
    link_move E wire L (L\<lparr>lk_pool := P\<rparr>)"
| receiver: "app_apart E (lk_app L) B \<Longrightarrow>
    link_move E wire L (L\<lparr>lk_app := B, lk_conns := map (note_answer (lk_app L) B) (lk_conns L)\<rparr>)"
| connects: "i < length (pl_workers (lk_pool L)) \<Longrightarrow> pl_workers (lk_pool L) ! i = w \<Longrightarrow> wk_phase w = Sending e \<Longrightarrow>
    i \<notin> cn_task ` set (lk_conns L) \<Longrightarrow>
    open_to_send (se_hash E) SendOptions_default sio (wk_path w) d = Some (Inr (total_size, checksum, content)) \<Longrightarrow>
    visible (sent_name (wk_path w)) \<Longrightarrow> world_of (proc (lk_app L)) = Some v \<Longrightarrow>
    receive_begin (se_hash E) (se_show_uuid E) oio now (wk_id w)
      (wire (rq_headers (task_request E w total_size checksum content))) v = (h, v') \<Longrightarrow>
    B = (lk_app L)\<lparr>proc := put_world v' (proc (lk_app L)), uploads := uploads (lk_app L) @ [h]\<rparr> \<Longrightarrow>
    app_apart E (lk_app L) B \<Longrightarrow>
    link_move E wire L (L\<lparr>lk_app := B, lk_conns := lk_conns L @
      [\<lparr>cn_task = i, cn_path = wk_path w, cn_disk = d, cn_send = sio, cn_upload = length (uploads (lk_app L)), cn_stored = None\<rparr>]\<rparr>)"
| answered: "k < length (lk_conns L) \<Longrightarrow> c = lk_conns L ! k \<Longrightarrow> uploads (lk_app L) ! cn_upload c = Responded resp \<Longrightarrow>
    wi_disk io = cn_disk c \<Longrightarrow> wi_send io = cn_send c \<Longrightarrow> wi_net io = (\<lambda>_. (pulled, Inr (reply_of resp))) \<Longrightarrow>
    work E io (cn_task c) (lk_pool L) = Some P \<Longrightarrow>
    link_move E wire L (L\<lparr>lk_pool := P, lk_conns := take k (lk_conns L) @ drop (Suc k) (lk_conns L)\<rparr>)"
| lost: "k < length (lk_conns L) \<Longrightarrow> c = lk_conns L ! k \<Longrightarrow>
    wi_disk io = cn_disk c \<Longrightarrow> wi_send io = cn_send c \<Longrightarrow> wi_net io = (\<lambda>_. (pulled, Inl failure)) \<Longrightarrow>
    work E io (cn_task c) (lk_pool L) = Some P \<Longrightarrow>
    link_move E wire L (L\<lparr>lk_pool := P, lk_conns := take k (lk_conns L) @ drop (Suc k) (lk_conns L)\<rparr>)"

definition link_new :: "heap \<Rightarrow> heap \<Rightarrow> disk \<Rightarrow> 'h link" where
  "link_new h h' d = \<lparr>lk_pool = pool_new h, lk_app = app_new h' d, lk_conns = []\<rparr>"

section \<open>What a connection relies on\<close>

text \<open>The upload announces the task's file; once answered 200, what was stored is as announced.\<close>

definition for_file :: "(byte list \<Rightarrow> byte list) \<Rightarrow> byte list \<Rightarrow> 'h receiver \<Rightarrow> bool" where
  "for_file sha content r \<longleftrightarrow>
     rv_expected r = Some (hex_encode (sha content)) \<and> rv_total r = of_nat (length content) \<and> rv_resume r = 0"

definition same_file :: "(byte list \<Rightarrow> byte list) \<Rightarrow> byte list \<Rightarrow> byte list \<Rightarrow> bool" where
  "same_file sha content kept \<longleftrightarrow> sha kept = sha content \<and> (of_nat (length kept) :: u64) = of_nat (length content)"

definition announced :: "(byte list \<Rightarrow> byte list) \<Rightarrow> byte list \<Rightarrow> connection \<Rightarrow> 'h handler \<Rightarrow> bool" where
  "announced sha content c h \<longleftrightarrow>
     (case h of
        Responded resp \<Rightarrow> is_success (status_of resp) \<longrightarrow> status_of resp = PARTIAL_CONTENT
          \<or> (status_of resp = OK \<and> (\<exists>kept. cn_stored c = Some kept \<and> same_file sha content kept))
      | Panicked \<Rightarrow> True
      | _ \<Rightarrow> (case reading h of None \<Rightarrow> True | Some r \<Rightarrow> for_file sha content r))"

definition conn_ok :: "(byte list \<Rightarrow> byte list) \<Rightarrow> pool \<Rightarrow> 'h application \<Rightarrow> connection \<Rightarrow> bool" where
  "conn_ok sha P A c \<longleftrightarrow> cn_task c < length (pl_workers P) \<and> wk_path (pl_workers P ! cn_task c) = cn_path c
     \<and> cn_upload c < length (uploads A)
     \<and> (\<exists>content. disk_read (cn_path c) (cn_disk c) = Some content \<and> announced sha content c (uploads A ! cn_upload c))"

lemma opened_content:
  assumes "open_to_send H SendOptions_default sio p d = Some (Inr (total_size, checksum, rest))" and "digest_law H sha"
  shows "disk_read p d = Some rest \<and> total_size = of_nat (length rest) \<and> checksum = Some (hex_encode (sha rest))"
proof -
  have h: "hash_of_file H e p d = Some (Inr a) \<Longrightarrow> disk_read p d = Some c \<Longrightarrow> a = hex_encode (sha c)" for e a c
    using assms(2) buffer_reads_concat
    by (auto simp: hash_of_file_result disk_read_def digest_law_def split: option.splits prod.splits)
  obtain c where c: "disk_read p d = Some c" "si_meta sio = None"
    using assms(1) by (auto simp: open_to_send_def split: option.splits)
  show ?thesis
  proof (cases "hash_of_file H (si_hash sio) p d")
    case None
    with assms(1) c show ?thesis by (simp add: open_to_send_def SendOptions_default_def)
  next
    case (Some hashed)
    with assms(1) c h [of "si_hash sio" _ c] show ?thesis
      by (cases hashed) (auto simp: open_to_send_def SendOptions_default_def and_then_def map_ok_def split: option.splits)
  qed
qed

lemma begin_not_accepted: "receive_begin H su io now u hdr w = (Responded resp, w') \<Longrightarrow> \<not> is_success (status_of resp)"
  by (auto simp: is_success_def receive_begin_def receive_open_def Let_def status_codes split: option.splits sum.splits prod.splits if_splits)

lemma request_for_file:
  assumes "uuid_text (se_show_uuid E)" and "wire_law wire" and "disk_ok (fs v)" and "visible (sent_name (wk_path w))"
    and "receive_begin H (se_show_uuid E) oio now u
      (wire (rq_headers (task_request E w (of_nat (length content)) (Some (hex_encode (sha content))) content))) v = (h, v')"
  shows "announced sha content c h"
proof (cases h)
  case (Receiving r)
  note hd = sent_headers [OF assms(2,4) refl] and off = sent_offset [OF assms(2,4)]
  obtain name where e: "entered (se_show_uuid E)
      (wire (rq_headers (task_request E w (of_nat (length content)) (Some (hex_encode (sha content))) content))) u v name r v'"
    using receive_begin_entered(2) [OF assms(1,3) assms(5) [unfolded Receiving]] by blast
  then have "rv_total r = of_nat (length content)"
    using hd(2) by (auto simp: entered_def request_ok_def task_request_def parse_u64_to_string)
  moreover have "rv_expected r = Some (hex_encode (sha content))" using e hd(3) by (simp add: entered_def task_request_def)
  moreover have "rv_resume r = 0" using e off by (simp add: entered_def task_request_def unwrap_or_def)
  ultimately show ?thesis by (simp add: Receiving announced_def for_file_def)
next
  case (Waiting r chunk)
  have "False" using assms(5) Waiting
    by (auto simp: receive_begin_def receive_open_def Let_def split: option.splits sum.splits prod.splits if_splits)
  then show ?thesis ..
next
  case (Responded resp)
  with begin_not_accepted [OF assms(5) [unfolded Responded]] show ?thesis by (auto simp: announced_def)
qed (simp add: announced_def)

lemma success_statuses:
  assumes "recv_step H su x (h, w) = Some (Responded resp, w')" and "is_success (status_of resp)"
  shows "status_of resp \<in> {OK, PARTIAL_CONTENT}"
proof -
  have v: "verify_and_rename H su io r w = Some (a, v) \<Longrightarrow> is_success (status_of a) \<Longrightarrow> status_of a = OK" for io r w a v
    by (erule verify_cases) (auto simp: is_success_def status_codes rename_into_place_def split: option.split_asm)
  show ?thesis
    using assms
    by (cases "(H, su, x, h, w)" rule: recv_step.cases)
      (auto simp: is_success_def status_codes write_chunk_def receive_end_def dest!: v [unfolded is_success_def status_codes]
        split: if_split_asm option.split_asm prod.split_asm)
qed

text \<open>A step of the upload keeps what it announces.\<close>

lemma step_for_file:
  assumes "recv_step H su x (h, w) = Some (h', w')" and "reading h = Some r" and "reading h' = Some r'" and "for_file sha content r"
  shows "for_file sha content r'"
  using assms
  by (cases "(H, su, x, h, w)" rule: recv_step.cases)
    (auto simp: write_chunk_def for_file_def split: if_split_asm option.split_asm prod.split_asm)

lemma note_same: "uploads B ! cn_upload c = uploads A ! cn_upload c \<Longrightarrow> note_answer A B c = c"
  by (simp add: note_answer_def split: handler.split)

lemma put_world_disk: "world_of p = Some w \<Longrightarrow> disk_of (put_world w' p) = fs w'"
  by (auto simp: world_of_def put_world_def set_engine_def)

lemma step_announced:
  assumes "digest_law (se_hash E) sha" and "uploads_ok (se_hash E) (se_show_uuid E) A"
    and "world_of (proc A) = Some w" and "cn_upload c < length (uploads A)"
    and "recv_step (se_hash E) (se_show_uuid E) x (uploads A ! cn_upload c, w) = Some (h, w')"
    and "announced sha content c (uploads A ! cn_upload c)"
    and "B = A\<lparr>proc := put_world w' (proc A), uploads := (uploads A)[cn_upload c := h]\<rparr>"
  shows "announced sha content (note_answer A B c) h"
proof -
  obtain r where r: "reading (uploads A ! cn_upload c) = Some r" using step_touches [OF assms(5)] by blast
  then have f: "for_file sha content r" using assms(6) by (cases "uploads A ! cn_upload c") (simp_all add: announced_def)
  show ?thesis
  proof (cases "reading h")
    case (Some r')
    with step_for_file [OF assms(5) r Some f] show ?thesis by (cases h) (simp_all add: announced_def)
  next
    case None
    show ?thesis
    proof (cases "\<exists>resp. h = Responded resp \<and> status_of resp = OK")
      case False
      with None success_statuses [of "se_hash E" "se_show_uuid E" x _ w _ w'] assms(5) show ?thesis
        by (cases h) (auto simp: announced_def)
    next
      case True
      then obtain resp where h: "h = Responded resp" "status_of resp = OK" by blast
      obtain q io where q: "uploads A ! cn_upload c = Receiving q" "rv_written q = rv_total q"
        "verify_and_rename (se_hash E) (se_show_uuid E) io q w = Some (resp, w')"
        using accepted_step [OF assms(5) [unfolded h(1)] h(2)] by blast
      have u: "uuid_text (se_show_uuid E)" and a: "all_intact (se_hash E) (se_show_uuid E) \<lparr>sv_world = w, sv_uploads = uploads A\<rparr>"
        using assms(2,3) by (simp_all add: uploads_ok_def)
      have "intact (se_hash E) (se_show_uuid E) w q"
        using overlap.all_own_nth [OF _ assms(4)] a q(1) by (fastforce simp: all_intact_def own_files_def)
      from accepted_intact [OF assms(1) u this q(2,3) h(2)] obtain kept where
        "disk_read (rv_final q) (fs w') = Some kept" "\<forall>e. rv_expected q = Some e \<longrightarrow> hex_encode (sha kept) = e"
        "rv_resume q = 0 \<longrightarrow> of_nat (length kept) = rv_total q" by blast
      moreover have "q = r" using r q(1) by simp
      moreover have "cn_stored (note_answer A B c) = disk_read (rv_final q) (fs w')"
        using q(1) h(1) assms(3,4,7) by (simp add: note_answer_def put_world_disk)
      ultimately show ?thesis using f h
        by (auto simp: announced_def for_file_def same_file_def hex_encode_inj)
    qed
  qed
qed

lemma apart_announced:
  assumes "digest_law (se_hash E) sha" and "uploads_ok (se_hash E) (se_show_uuid E) A" and "app_apart E A B"
    and "cn_upload c < length (uploads A)" and "announced sha content c (uploads A ! cn_upload c)"
  shows "cn_upload c < length (uploads B)" and "announced sha content (note_answer A B c) (uploads B ! cn_upload c)"
proof -
  have "app_move E A B" using assms(3) by (simp add: app_apart_def)
  then have "cn_upload c < length (uploads B) \<and> announced sha content (note_answer A B c) (uploads B ! cn_upload c)"
  proof (cases rule: app_move.cases)
    case (upload w i x h w')
    show ?thesis
    proof (cases "i = cn_upload c")
      case True
      with step_announced [OF assms(1,2) upload(2) assms(4) _ assms(5)] upload assms(4) show ?thesis by simp
    next
      case False
      with upload assms(4,5) note_same [of B c A] show ?thesis by simp
    qed
  next
    case (request w io now u hdr h w')
    with assms(4,5) note_same [of B c A] show ?thesis by (simp add: nth_append)
  qed (use assms(4,5) note_same [of B c A] in simp_all)
  then show "cn_upload c < length (uploads B)" "announced sha content (note_answer A B c) (uploads B ! cn_upload c)" by simp_all
qed

text \<open>The invariant of the two devices.\<close>

definition link_ok :: "'h send_env \<Rightarrow> (byte list \<Rightarrow> byte list) \<Rightarrow> ((rstring \<times> rstring) list \<Rightarrow> headers) \<Rightarrow> 'h link \<Rightarrow> bool" where
  "link_ok E sha wire L \<longleftrightarrow> digest_law (se_hash E) sha \<and> wire_law wire \<and> uploads_ok (se_hash E) (se_show_uuid E) (lk_app L)
     \<and> (\<forall>c \<in> set (lk_conns L). conn_ok sha (lk_pool L) (lk_app L) c)"

lemma note_answer_fields [simp]:
  "cn_task (note_answer A B c) = cn_task c" "cn_path (note_answer A B c) = cn_path c" "cn_disk (note_answer A B c) = cn_disk c"
  "cn_send (note_answer A B c) = cn_send c" "cn_upload (note_answer A B c) = cn_upload c"
  by (simp_all add: note_answer_def split: handler.split)

lemma conn_ok_receiver:
  assumes "link_ok E sha wire L" and "app_apart E (lk_app L) B" and "c \<in> set (lk_conns L)"
  shows "conn_ok sha (lk_pool L) B (note_answer (lk_app L) B c)"
proof -
  have c: "conn_ok sha (lk_pool L) (lk_app L) c" and u: "digest_law (se_hash E) sha"
    "uploads_ok (se_hash E) (se_show_uuid E) (lk_app L)"
    using assms(1,3) by (simp_all add: link_ok_def)
  from c obtain content where "disk_read (cn_path c) (cn_disk c) = Some content"
    "announced sha content c (uploads (lk_app L) ! cn_upload c)" "cn_upload c < length (uploads (lk_app L))"
    by (auto simp: conn_ok_def)
  with apart_announced [OF u assms(2)] c show ?thesis unfolding conn_ok_def note_answer_fields by blast
qed

text \<open>The sender keeps its tasks and their files.\<close>

lemma goto_path [simp]: "j < length ws \<Longrightarrow> wk_path ((ws[i := (ws ! i)\<lparr>wk_phase := ph\<rparr>]) ! j) = wk_path (ws ! j)"
  by (cases "i = j") simp_all

lemma work_tasks:
  "work E io i p = Some p' \<Longrightarrow> length (pl_workers p') = length (pl_workers p)
    \<and> (\<forall>j < length (pl_workers p). wk_path (pl_workers p' ! j) = wk_path (pl_workers p ! j))"
  by (auto simp: work_def goto_def Let_def split: phase.splits option.splits prod.splits)

lemma pool_move_tasks: "pool_move E p p' \<Longrightarrow> length (pl_workers p) \<le> length (pl_workers p')"
  by (induction rule: pool_move.induct) (auto simp: submit_def elim!: worker_move_cases dest: work_tasks)

lemma conn_ok_work:
  assumes "work E io i P = Some P'" and "conn_ok sha P A c"
  shows "conn_ok sha P' A c"
  using work_tasks [OF assms(1)] assms(2) by (simp add: conn_ok_def)

lemma link_ok_reply:
  assumes "link_ok E sha wire L" and "work E io i (lk_pool L) = Some P"
  shows "link_ok E sha wire (L\<lparr>lk_pool := P, lk_conns := take k (lk_conns L) @ drop (Suc k) (lk_conns L)\<rparr>)"
proof -
  have "conn_ok sha P (lk_app L) c" if "c \<in> set (take k (lk_conns L) @ drop (Suc k) (lk_conns L))" for c
    using that assms(1) conn_ok_work [OF assms(2), where A = "lk_app L"] by (auto simp: link_ok_def dest: in_set_takeD in_set_dropD)
  with assms(1) show ?thesis by (simp add: link_ok_def)
qed

lemma link_ok_move: "link_move E wire L L' \<Longrightarrow> link_ok E sha wire L \<Longrightarrow> link_ok E sha wire L'"
proof (induction rule: link_move.induct)
  case (sender L P)
  then show ?case using pool_move_tasks [OF sender(1)] by (fastforce simp: link_ok_def conn_ok_def)
next
  case (receiver L B)
  then show ?case using uploads_ok_apart [OF receiver(1)] conn_ok_receiver [OF receiver(2,1)] by (auto simp: link_ok_def)
next
  case (connects i L w e sio d total_size checksum content v oio now h v' B)
  let ?c = "\<lparr>cn_task = i, cn_path = wk_path w, cn_disk = d, cn_send = sio, cn_upload = length (uploads (lk_app L)), cn_stored = None\<rparr>"
  have l: "digest_law (se_hash E) sha" "wire_law wire" "uploads_ok (se_hash E) (se_show_uuid E) (lk_app L)"
    using connects(11) by (simp_all add: link_ok_def)
  have "conn_ok sha (lk_pool L) B c" if "c \<in> set (lk_conns L)" for c
  proof -
    have "cn_upload c < length (uploads (lk_app L))" using connects(11) that by (simp add: link_ok_def conn_ok_def)
    then have "note_answer (lk_app L) B c = c" using connects(9) by (intro note_same) (simp add: nth_append)
    with conn_ok_receiver [OF connects(11,10) that] show ?thesis by simp
  qed
  moreover have "conn_ok sha (lk_pool L) B ?c"
  proof -
    have o: "disk_read (wk_path w) d = Some content" "total_size = of_nat (length content)" "checksum = Some (hex_encode (sha content))"
      using opened_content [OF connects(5) l(1)] by simp_all
    have "uuid_text (se_show_uuid E)" "disk_ok (fs v)"
      using l(3) connects(7) by (auto simp: uploads_ok_def world_of_def)
    from request_for_file [where sha = sha, OF this(1) l(2) this(2) connects(6) connects(8) [unfolded o]]
    have "announced sha content ?c h" .
    with o(1) connects(1,2,9) show ?thesis by (simp add: conn_ok_def)
  qed
  ultimately show ?case using l uploads_ok_apart [OF connects(10)] by (auto simp: link_ok_def)
next
  case (answered k L c resp io pulled P)
  then show ?case using link_ok_reply by blast
next
  case (lost k L c io pulled failure P)
  then show ?case using link_ok_reply by blast
qed

interpretation devices: invariant_system "link_move E wire" "link_ok E sha wire" for E sha wire
  by unfold_locales (rule link_ok_move)

lemma link_ok_new:
  "digest_law (se_hash E) sha \<Longrightarrow> wire_law wire \<Longrightarrow> uuid_text (se_show_uuid E) \<Longrightarrow> disk_ok d \<Longrightarrow> link_ok E sha wire (link_new h h' d)"
  by (simp add: link_ok_def link_new_def uploads_ok_new)

section \<open>Properties\<close>

text \<open>A task reports a completed transfer only on a success status.\<close>

lemma completed_success:
  assumes "work E io i P = Some P'" and "pl_events P' = pl_events P @ [TransferCompleted u hash]"
    and "wi_net io = (\<lambda>_. (pulled, Inr reply))"
  shows "is_success (fst reply)"
proof -
  obtain e h' where r: "send_and_report E io (pl_workers P ! i) (snd e) (pl_heap P) = Some (TransferCompleted u hash, h')"
    using assms(1,2) by (auto simp: work_def goto_def Let_def split: phase.splits option.splits prod.splits)
  let ?send = "send_file (se_hash E) (se_show_uuid E) (se_show_status E) (se_pieces E) (wi_net io) (wi_send io)
      (wk_addr (pl_workers P ! i)) (wk_id (pl_workers P ! i)) (wk_path (pl_workers P ! i)) (snd e) SendOptions_default (wi_disk io)
      (pl_heap P)"
  obtain x h2 where s: "?send = Some (x, h2)" using r by (cases ?send) (auto simp: send_and_report_def)
  then have "x = Inr ()" using r by (cases x) (auto simp: send_and_report_def)
  with s show ?thesis
    by (auto simp: send_file_def send_result_def assms(3) Let_def split: sum.split_asm prod.split_asm if_split_asm)
      (metis prod_cases3 sumE)
qed


text \<open>A run in which it happens: one task, its upload, and another upload beside it.\<close>

definition cn_key :: "connection \<Rightarrow> connection" where
  "cn_key c = c\<lparr>cn_stored := None\<rparr>"

lemma note_answer_key [simp]: "cn_key (note_answer A B c) = cn_key c"
  by (simp add: cn_key_def note_answer_def split: handler.split)

lemma link_receives:
  assumes "(app_apart E)\<^sup>*\<^sup>* A B" and "lk_app L = A" and "(link_move E wire)\<^sup>*\<^sup>* S L"
  shows "\<exists>M. (link_move E wire)\<^sup>*\<^sup>* S M \<and> lk_app M = B \<and> lk_pool M = lk_pool L
    \<and> map cn_key (lk_conns M) = map cn_key (lk_conns L)"
  using assms(1)
proof (induction rule: rtranclp_induct)
  case base
  with assms(2,3) show ?case by blast
next
  case (step B C)
  then obtain M where m: "(link_move E wire)\<^sup>*\<^sup>* S M" "lk_app M = B" "lk_pool M = lk_pool L"
    "map cn_key (lk_conns M) = map cn_key (lk_conns L)" by blast
  let ?M = "M\<lparr>lk_app := C, lk_conns := map (note_answer B C) (lk_conns M)\<rparr>"
  have "map cn_key (lk_conns ?M) = map cn_key (lk_conns L)" using m(4) by (simp add: comp_def)
  moreover have "link_move E wire M ?M" using receiver [of E M C wire] step.hyps(2) m(2) by simp
  ultimately show ?case using m by (intro exI [of _ ?M]) (auto intro: rtranclp.rtrancl_into_rtrancl)
qed

lemma link_sends:
  assumes "(pool_move E)\<^sup>*\<^sup>* P Q" and "lk_pool L = P" and "lk_conns L = []"
  shows "(link_move E wire)\<^sup>*\<^sup>* L (L\<lparr>lk_pool := Q\<rparr>)"
  using assms(1)
proof (induction rule: rtranclp_induct)
  case base
  with assms(2) show ?case by (cases L) simp
next
  case (step Q R)
  have "link_move E wire (L\<lparr>lk_pool := Q\<rparr>) (L\<lparr>lk_pool := Q, lk_pool := R\<rparr>)"
    using sender [of E "L\<lparr>lk_pool := Q\<rparr>" R wire] step.hyps(2) assms(3) by simp
  with step.IH show ?case by (simp add: rtranclp.rtrancl_into_rtrancl)
qed

definition abc_transfer :: QueuedTransfer where
  "abc_transfer = (sample_transfer 7)\<lparr>qt_file_path := lit ''/home/a.txt'', qt_total_bytes := 3\<rparr>"

lemma sending_reached:
  "\<exists>P e. (pool_move E)\<^sup>*\<^sup>* (pool_new sample_heap) P \<and> pl_workers P = [(worker_of addr abc_transfer)\<lparr>wk_phase := Sending e\<rparr>]"
proof -
  let ?w = "worker_of addr abc_transfer" and ?run = "(pool_move E)\<^sup>*\<^sup>* (pool_new sample_heap)"
  have more: "?run Q" if "?run P" "work E some_io 0 P = Some Q" "length (pl_workers P) = 1" for P Q
    using that works [OF worker_move.work [of 0 P E some_io Q]] by (auto intro: rtranclp.rtrancl_into_rtrancl)
  let ?P1 = "submit addr abc_transfer (pool_new sample_heap)"
  have p1: "?run ?P1" by (auto intro: submits)
  obtain P2 where p2: "work E some_io 0 ?P1 = Some P2" "pl_workers P2 = [?w\<lparr>wk_phase := Holding\<rparr>]" "pending (pl_queue P2) = [abc_transfer]"
    by (simp add: work_def submit_def pool_new_def worker_of_def acquire_permit_def queue_new_def enqueue_def goto_def MAX_PARALLEL_TRANSFERS_def)
  obtain s h2 where "session_new (qt_id abc_transfer) (qt_file_name abc_transfer) (qt_total_bytes abc_transfer)
    (qt_direction abc_transfer) (wi_now some_io) (pl_heap P2) = (s, h2)" by fastforce
  then obtain P3 e where p3: "work E some_io 0 P2 = Some P3" "pl_workers P3 = [?w\<lparr>wk_phase := Popped e\<rparr>]"
    using p2(2,3) by (simp add: work_def pop_pending_def goto_def Let_def)
  obtain P4 where p4: "work E some_io 0 P3 = Some P4" "pl_workers P4 = [?w\<lparr>wk_phase := Sending e\<rparr>]"
    using p3(2) by (simp add: work_def goto_def Let_def)
  have "?run P4"
    using more [OF more [OF more [OF p1 p2(1)] p3(1)] p4(1)] p2(2) p3(2) by (simp add: submit_def pool_new_def)
  with p4(2) show ?thesis by blast
qed

lemma both_started:
  "\<exists>L e v. (link_move shown_env map_of)\<^sup>*\<^sup>* (link_new sample_heap sample_heap abc_disk) L \<and> lk_conns L = []
    \<and> pl_workers (lk_pool L) = [(worker_of addr abc_transfer)\<lparr>wk_phase := Sending e\<rparr>]
    \<and> world_of (proc (lk_app L)) = Some v \<and> uploads (lk_app L) = [] \<and> disk_ok (fs v)"
proof -
  let ?S = "link_new sample_heap sample_heap abc_disk :: byte list link"
  obtain P e where p: "(pool_move shown_env)\<^sup>*\<^sup>* (pool_new sample_heap) P"
    "pl_workers P = [(worker_of addr abc_transfer)\<lparr>wk_phase := Sending e\<rparr>]" using sending_reached by blast
  obtain v where v: "(app_apart shown_env)\<^sup>*\<^sup>* (app_new sample_heap abc_disk) sample_app" "world_of (proc sample_app) = Some v"
    "uploads sample_app = []" "disk_ok (fs v)" using sample_app_apart by blast
  have "(link_move shown_env map_of)\<^sup>*\<^sup>* ?S (?S\<lparr>lk_pool := P\<rparr>)" by (rule link_sends [OF p(1)]) (simp_all add: link_new_def)
  from link_receives [OF v(1) _ this] obtain L where "(link_move shown_env map_of)\<^sup>*\<^sup>* ?S L" "lk_app L = sample_app"
    "lk_pool L = P" "lk_conns L = []" by (auto simp: link_new_def)
  with p(2) v show ?thesis by (intro exI [of _ L] exI [of _ e] exI [of _ v]) simp
qed

lemma abc_visible: "visible (sent_name (lit ''/home/a.txt''))"
proof -
  have "path_file_name (lit ''/home/a.txt'') = Some (lit ''a.txt'')" by (simp add: path_file_name_def text_defs)
  then show ?thesis by (simp add: sent_name_def visible_def lit_def)
qed

definition abc_conn :: connection where
  "abc_conn = \<lparr>cn_task = 0, cn_path = lit ''/home/a.txt'', cn_disk = abc_disk, cn_send = send_fine, cn_upload = 0, cn_stored = None\<rparr>"

definition abc_io :: "response \<Rightarrow> worker_io" where
  "abc_io resp = \<lparr>wi_now = 0, wi_disk = abc_disk, wi_net = (\<lambda>_. (3, Inr (reply_of resp))), wi_send = send_fine, wi_rehash = None\<rparr>"

lemma abc_conn_key: "cn_key c = abc_conn \<Longrightarrow>
    cn_task c = 0 \<and> cn_path c = lit ''/home/a.txt'' \<and> cn_disk c = abc_disk \<and> cn_send c = send_fine \<and> cn_upload c = 0"
  by (cases c) (simp add: cn_key_def abc_conn_def)

lemma abc_opened: "open_to_send toy_hash SendOptions_default send_fine (lit ''/home/a.txt'') abc_disk
    = Some (Inr (3, Some (hex_encode (toy_sha [1, 2, 3])), [1, 2, 3]))"
  using open_to_send_fine [OF toy_hash_law abc_facts(1)] by (simp add: SendOptions_default_def)

text \<open>The task's answer, whatever the success status.\<close>

lemma abc_reported:
  assumes "pl_workers Q = [(worker_of addr abc_transfer)\<lparr>wk_phase := Sending e\<rparr>]" and "is_success (status_of resp)"
  shows "\<exists>P h. work shown_env (abc_io resp) 0 Q = Some P \<and> pl_events P = pl_events Q @ [TransferCompleted 7 h]"
proof -
  have "is_success (fst (reply_of resp))" using assms(2) by (cases resp) simp_all
  then obtain h' where s: "send_file toy_hash sample_show (se_show_status shown_env) (se_pieces shown_env) (wi_net (abc_io resp)) send_fine
      addr 7 (lit ''/home/a.txt'') (snd e) SendOptions_default abc_disk (pl_heap Q) = Some (Inr (), h')"
    by (cases "reply_of resp") (simp add: send_file_def abc_opened send_result_def abc_io_def)
  obtain h where "hash_of_file toy_hash None (lit ''/home/a.txt'') abc_disk = Some h"
    using sha256_file_healthy [OF toy_hash_law reads_of_buffer] abc_facts(1) by (simp add: hash_of_file_def)
  with s show ?thesis
    by (simp add: work_def assms(1) send_and_report_def goto_def worker_of_def abc_transfer_def sample_transfer_def abc_io_def)
qed

text \<open>The task's upload has started; then it gets its bytes, another one starts beside it, and the body ends.\<close>

lemma connected:
  "\<exists>M e v1 r r1 v2 hdr s v3 resp w'. (link_move shown_env map_of)\<^sup>*\<^sup>* (link_new sample_heap sample_heap abc_disk) M
    \<and> lk_conns M = [abc_conn] \<and> pl_workers (lk_pool M) = [(worker_of addr abc_transfer)\<lparr>wk_phase := Sending e\<rparr>]
    \<and> world_of (proc (lk_app M)) = Some v1 \<and> uploads (lk_app M) = [Receiving r] \<and> rv_id r = 7 \<and> rv_written r = 0 \<and> rv_total r = 3
    \<and> recv_step toy_hash sample_show (Data [1, 2, 3] io_fine) (Receiving r, v1) = Some (Receiving r1, v2) \<and> rv_id r1 = 7
    \<and> receive_begin toy_hash sample_show open_fine 0 8 hdr v2 = (Receiving s, v3) \<and> rv_id s = 8
    \<and> recv_step toy_hash sample_show (EndOfBody io_fine) (Receiving r1, v3) = Some (Responded resp, w') \<and> status_of resp = OK"
proof -
  let ?S = "link_new sample_heap sample_heap abc_disk :: byte list link" and ?run = "(link_move shown_env map_of)\<^sup>*\<^sup>*"
  let ?p = "lit ''/home/a.txt''" and ?w = "\<lambda>e. (worker_of addr abc_transfer)\<lparr>wk_phase := Sending e\<rparr>"
  have wire: "wire_law map_of" by (simp add: wire_law_def)
  obtain L e v where L: "?run ?S L" "lk_conns L = []" "pl_workers (lk_pool L) = [?w e]"
    "world_of (proc (lk_app L)) = Some v" "uploads (lk_app L) = []" "disk_ok (fs v)"
    using both_started by blast
  have t: "wk_id (?w e) = 7" "wk_path (?w e) = ?p" "wk_phase (?w e) = Sending e"
    by (simp_all add: worker_of_def abc_transfer_def sample_transfer_def)
  let ?hdr = "map_of (rq_headers (task_request shown_env (?w e) 3 (Some (hex_encode (toy_sha [1, 2, 3]))) [1, 2, 3]))"
  obtain name where "sanitize_filename (sent_name ?p) = Some name"
    using sanitize_ascii_total [OF visible_ascii [OF abc_visible]] by blast
  from sent_request_ok [OF wire abc_visible this] have q: "request_ok ?hdr name 3" using t(2) by (simp add: task_request_def)
  moreover have z: "parse_resume_offset ?hdr = None" using sent_offset [OF wire abc_visible] t(2) by (simp add: task_request_def)
  ultimately have "announces toy_sha ?hdr [1, 2, 3]"
    using sent_headers(3) [OF wire abc_visible refl] t(2) by (auto simp: announces_def task_request_def intro!: exI [of _ name])
  from two_uploads [OF sample_show_text toy_hash_law L(6) this, of 7 8] obtain r v1 r1 v2 s v3 resp w' where
    a: "receive_begin toy_hash sample_show open_fine 0 7 ?hdr v = (Receiving r, v1)"
    and b: "recv_step toy_hash sample_show (Data [1, 2, 3] io_fine) (Receiving r, v1) = Some (Receiving r1, v2)"
    "receive_begin toy_hash sample_show open_fine 0 8 ?hdr v2 = (Receiving s, v3)"
    "rv_id r = 7" "rv_id r1 = 7" "rv_id s = 8"
    "recv_step toy_hash sample_show (EndOfBody io_fine) (Receiving r1, v3) = Some (Responded resp, w')" "status_of resp = OK"
    by blast
  obtain safe where n: "upload_start toy_hash r v1" "entered sample_show ?hdr 7 v safe r v1"
    using receive_begin_entered [OF sample_show_text L(6) a] by blast
  then have r: "rv_written r = 0" "rv_total r = 3"
    using q z by (auto simp: upload_start_def entered_def unwrap_or_def request_ok_def)
  let ?B = "(lk_app L)\<lparr>proc := put_world v1 (proc (lk_app L)), uploads := uploads (lk_app L) @ [Receiving r]\<rparr>"
  let ?M = "L\<lparr>lk_app := ?B, lk_conns := [abc_conn]\<rparr>"
  have B: "app_apart shown_env (lk_app L) ?B"
    using request [OF L(4), of shown_env open_fine 0 7 ?hdr "Receiving r" v1] a L(5) by (simp add: app_apart_def)
  have "link_move shown_env map_of L ?M"
    using connects [of 0 L "?w e" e shown_env send_fine abc_disk 3 "Some (hex_encode (toy_sha [1, 2, 3]))" "[1, 2, 3]" v
      open_fine 0 map_of "Receiving r" v1, OF _ _ t(3) _ _ _ L(4) _ refl B] L(2,3,5) abc_opened a t(1,2) abc_visible
    by (simp add: abc_conn_def)
  with L(1) have "?run ?S ?M" by (rule rtranclp.rtrancl_into_rtrancl)
  moreover have "world_of (proc ?B) = Some v1"
    using put_world_of [OF L(4)] receive_begin_app [OF a] by simp
  ultimately show ?thesis using b r L(3,5) by (intro exI [of _ ?M] exI) (simp del: recv_step.simps)
qed


section \<open>An incomplete transfer reported complete\<close>

text \<open>The body ends before its first byte (the file was cut while it was being sent): the receiver answers 206 and keeps
  nothing of the file, and the sender reports a completed transfer.\<close>

lemma partial_reported_complete:
  "\<exists>M r L c m P h. (link_move shown_env map_of)\<^sup>*\<^sup>* (link_new sample_heap sample_heap abc_disk) M \<and> link_move shown_env map_of M L
    \<and> uploads (lk_app M) = [Receiving r] \<and> rv_written r = 0 \<and> rv_total r = 3
    \<and> disk_of (proc (lk_app L)) = disk_of (proc (lk_app M)) \<and> lk_conns L = [c]
    \<and> uploads (lk_app L) ! cn_upload c = Responded (Text PARTIAL_CONTENT m)
    \<and> work shown_env (abc_io (Text PARTIAL_CONTENT m)) (cn_task c) (lk_pool L) = Some P
    \<and> pl_events P = pl_events (lk_pool L) @ [TransferCompleted 7 h]"
proof -
  obtain M e v1 r where M: "(link_move shown_env map_of)\<^sup>*\<^sup>* (link_new sample_heap sample_heap abc_disk) M" "lk_conns M = [abc_conn]"
    "pl_workers (lk_pool M) = [(worker_of [] abc_transfer)\<lparr>wk_phase := Sending e\<rparr>]"
    and m: "world_of (proc (lk_app M)) = Some v1" "uploads (lk_app M) = [Receiving r]" "rv_written r = 0" "rv_total r = 3"
    using connected [of "[]"] by blast
  obtain t where t: "recv_step toy_hash sample_show (EndOfBody io_fine) (Receiving r, v1)
      = Some (Responded (Text PARTIAL_CONTENT t), remove_session (rv_id r) v1)"
    using m(3,4) by (simp add: receive_end_def)
  let ?B = "(lk_app M)\<lparr>proc := put_world (remove_session (rv_id r) v1) (proc (lk_app M)),
    uploads := (uploads (lk_app M))[0 := Responded (Text PARTIAL_CONTENT t)]\<rparr>"
  let ?c = "note_answer (lk_app M) ?B abc_conn" and ?L = "M\<lparr>lk_app := ?B, lk_conns := map (note_answer (lk_app M) ?B) (lk_conns M)\<rparr>"
  have "app_move shown_env (lk_app M) ?B"
    using upload [OF m(1), of 0 "EndOfBody io_fine" shown_env "Responded (Text PARTIAL_CONTENT t)"] t m(2) by (simp del: recv_step.simps)
  then have "link_move shown_env map_of M ?L" using receiver [of shown_env M ?B map_of] m(2) by (simp add: app_apart_def)
  moreover have "disk_of (proc ?B) = disk_of (proc (lk_app M))"
    using put_world_disk [OF m(1)] m(1) by (auto simp: remove_session_def world_of_def)
  moreover obtain P h where "work shown_env (abc_io (Text PARTIAL_CONTENT t)) 0 (lk_pool M) = Some P"
    "pl_events P = pl_events (lk_pool M) @ [TransferCompleted 7 h]"
    using abc_reported [OF M(3), where resp = "Text PARTIAL_CONTENT t"] by (auto simp: is_success_def status_codes)
  ultimately show ?thesis using M(1,2) m(2-4)
    by (intro exI [of _ M] exI [of _ r] exI [of _ ?L] exI [of _ ?c] exI [of _ t] exI [of _ P] exI [of _ h]) (simp add: abc_conn_def)
qed

end
