(* ===== verification/Awaits.thy ===== *)
theory Awaits
  imports Overlap
begin

text \<open>
  The upload handler of \<^verbatim>\<open>server.rs\<close> between its awaits: each system call, each wait for the session map's lock and
  each wait for the body is a step of its own, so that other handlers run in between, and a handler can be dropped
  at any of them. \<open>Server\<close> takes the work between two pieces of the body as one step; here that is a schedule of
  these steps (theory \<open>Schedules\<close>), and what \<open>Overlap\<close> shows of uploads with different ids holds for every schedule.
\<close>

section \<open>The handler\<close>

record arrival =
  aq_id :: uuid
  aq_name :: rstring
  aq_total :: u64
  aq_resume :: u64
  aq_expected :: "rstring option"
  aq_staging :: rstring
  aq_final :: rstring

text \<open>What the handler awaits: the directory, the file, its position, the lock to enter the session, the next chunk,
  the end of a pause, a write, the flush, the file to hash, its next read, the rename, the lock to remove the
  session (then perhaps deleting the partial file), and that deletion. \<open>Dead\<close> is a handler that panicked or
  whose connection was dropped.\<close>

datatype 'h await =
    MakingDir arrival
  | Opening arrival
  | Seeking arrival file_id
  | Registering "'h receiver"
  | NextChunk "'h receiver"
  | Sleeping "'h receiver" "byte list"
  | Writing "'h receiver" "byte list"
  | Flushing "'h receiver"
  | HashOpening "'h receiver"
  | HashReading "'h receiver" file_id nat 'h
  | Renaming "'h receiver"
  | Forgetting "'h receiver" bool response
  | Deleting "'h receiver" response
  | Answered response
  | Dead

text \<open>How an await ends: done (at a time, which only the new session reads), failed, a write that failed after some
  bytes, what the body gives, how many bytes a read may give.\<close>

datatype outcome =
    Fine nat
  | Failed rstring
  | WroteSome nat rstring
  | GotChunk "byte list"
  | BodyFailed rstring
  | BodyEnded
  | GotBytes nat

text \<open>The handler up to its first await.\<close>

definition await_begin :: "(uuid \<Rightarrow> rstring) \<Rightarrow> uuid \<Rightarrow> headers \<Rightarrow> world \<Rightarrow> 'h await" where
  "await_begin show_uuid transfer_id hdr w =
     (case hdr (lit ''X-FileDrop-Filename'') of
        None \<Rightarrow> Answered (Text BAD_REQUEST (lit ''missing X-FileDrop-Filename''))
      | Some raw_filename \<Rightarrow>
     (case Option.bind (hdr (lit ''X-FileDrop-Total-Size'')) parse_u64 of
        None \<Rightarrow> Answered (Text BAD_REQUEST (lit ''missing X-FileDrop-Total-Size''))
      | Some total_size \<Rightarrow>
     (case sanitize_filename raw_filename of
        None \<Rightarrow> Dead
      | Some file_name \<Rightarrow>
     (case safe_join (staging_dir (as_paths (app w))) (part_name show_uuid transfer_id) of
        Inl e \<Rightarrow> Answered (Text BAD_REQUEST (display_error show_uuid e))
      | Inr staging_path \<Rightarrow>
     (case safe_join (received_files_dir (as_paths (app w))) file_name of
        Inl e \<Rightarrow> Answered (Text BAD_REQUEST (display_error show_uuid e))
      | Inr final_path \<Rightarrow>
          MakingDir \<lparr>aq_id = transfer_id, aq_name = file_name, aq_total = total_size,
            aq_resume = unwrap_or (parse_resume_offset hdr) 0, aq_expected = hdr (lit ''X-FileDrop-Sha256''),
            aq_staging = staging_path, aq_final = final_path\<rparr>)))))"

text \<open>The file is open and in position: the session is made, and the lock awaited to enter it.\<close>

definition register :: "'h hash_api \<Rightarrow> nat \<Rightarrow> arrival \<Rightarrow> file_id \<Rightarrow> world \<Rightarrow> 'h await \<times> world" where
  "register H now q file w =
     (let (session, h1) = session_new (aq_id q) (aq_name q) (aq_total q) Receive now (mem w);
          h2 = with_initial_bytes (aq_resume q) session h1
      in (Registering (new_receiver H (aq_id q) session file (aq_resume q) (aq_total q) (aq_expected q) (aq_staging q)
            (aq_final q)), w\<lparr>mem := h2\<rparr>))"

definition compare_hash :: "'h receiver \<Rightarrow> rstring \<Rightarrow> 'h await" where
  "compare_hash r actual =
     (case rv_expected r of
        None \<Rightarrow> Renaming r
      | Some expected \<Rightarrow>
          if actual \<noteq> expected then
            Forgetting r True
              (Text UNPROCESSABLE_ENTITY (lit ''checksum mismatch: expected '' @ expected @ lit '', got '' @ actual))
          else Renaming r)"

definition after_flush :: "'h hash_api \<Rightarrow> 'h receiver \<Rightarrow> 'h await" where
  "after_flush H r =
     (if rv_written r \<noteq> rv_total r then
        Forgetting r False
          (Text PARTIAL_CONTENT
            (lit ''received '' @ u64_to_string (rv_written r) @ lit '' of '' @ u64_to_string (rv_total r)
              @ lit '' bytes; resumable''))
      else if rv_expected r = None then Renaming r
      else if rv_resume r = 0 then compare_hash r (finalize_hex H (rv_hasher r))
      else HashOpening r)"

text \<open>One await ends and the handler runs to the next. The hasher's update, which nobody else sees, is written with
  the chunk.\<close>

fun await_step ::
  "'h hash_api \<Rightarrow> (uuid \<Rightarrow> rstring) \<Rightarrow> outcome \<Rightarrow> 'h await \<times> world \<Rightarrow> ('h await \<times> world) option" where
  "await_step H show_uuid x (MakingDir q, w) =
     (case x of
        Fine now \<Rightarrow> Some (Opening q, w\<lparr>fs := create_dir_all (path_parent (aq_staging q)) (fs w)\<rparr>)
      | Failed e \<Rightarrow> Some (Answered (Text INTERNAL_SERVER_ERROR e), w)
      | _ \<Rightarrow> None)"
| "await_step H show_uuid x (Opening q, w) =
     (case x of
        Fine now \<Rightarrow>
          (let (file, d) = disk_open (aq_resume q = 0) (aq_staging q) (fs w)
           in Some (if aq_resume q > 0 then (Seeking q file, w\<lparr>fs := d\<rparr>) else register H now q file (w\<lparr>fs := d\<rparr>)))
      | Failed e \<Rightarrow> Some (Answered (Text INTERNAL_SERVER_ERROR e), w)
      | _ \<Rightarrow> None)"
| "await_step H show_uuid x (Seeking q file, w) =
     (case x of
        Fine now \<Rightarrow> Some (register H now q file w)
      | Failed e \<Rightarrow> Some (Answered (Text INTERNAL_SERVER_ERROR e), w)
      | _ \<Rightarrow> None)"
| "await_step H show_uuid x (Registering r, w) =
     (case x of
        Fine now \<Rightarrow> Some (NextChunk r, w\<lparr>app := insert_session (rv_session r) (app w)\<rparr>)
      | _ \<Rightarrow> None)"
| "await_step H show_uuid x (NextChunk r, w) =
     (case x of
        GotChunk chunk \<Rightarrow>
          Some (if is_cancelled (rv_session r) (mem w) then
                  Forgetting r True (Text CLIENT_CLOSED (lit ''transfer cancelled''))
                else if is_paused (rv_session r) (mem w) then Sleeping r chunk else Writing r chunk, w)
      | BodyFailed e \<Rightarrow> Some (Forgetting r False (Text BAD_REQUEST (lit ''stream error: '' @ e)), w)
      | BodyEnded \<Rightarrow> Some (Flushing r, w)
      | _ \<Rightarrow> None)"
| "await_step H show_uuid x (Sleeping r chunk, w) =
     (case x of
        Fine now \<Rightarrow> Some (if is_paused (rv_session r) (mem w) then Sleeping r chunk else Writing r chunk, w)
      | _ \<Rightarrow> None)"
| "await_step H show_uuid x (Writing r chunk, w) =
     (case x of
        Fine now \<Rightarrow>
          Some (NextChunk (r\<lparr>rv_hasher := hasher_update H (rv_hasher r) chunk, rv_pos := rv_pos r + length chunk,
                  rv_written := rv_written r + of_nat (length chunk)\<rparr>),
                w\<lparr>fs := disk_write (rv_file r) (rv_pos r) chunk (fs w),
                  mem := add_bytes (of_nat (length chunk)) (rv_session r) (mem w)\<rparr>)
      | WroteSome k e \<Rightarrow>
          Some (Forgetting r False (Text INTERNAL_SERVER_ERROR e),
                w\<lparr>fs := disk_write (rv_file r) (rv_pos r) (take k chunk) (fs w)\<rparr>)
      | _ \<Rightarrow> None)"
| "await_step H show_uuid x (Flushing r, w) =
     (case x of
        Fine now \<Rightarrow> Some (after_flush H r, w)
      | Failed e \<Rightarrow> Some (Answered (Text INTERNAL_SERVER_ERROR e), w)
      | _ \<Rightarrow> None)"
| "await_step H show_uuid x (HashOpening r, w) =
     (case x of
        Fine now \<Rightarrow>
          Some (case names (fs w) (components (rv_staging r)) of
                  None \<Rightarrow> Answered (Text INTERNAL_SERVER_ERROR (display_error show_uuid (Io ENOENT)))
                | Some file \<Rightarrow> HashReading r file 0 (h_new H), w)
      | Failed e \<Rightarrow> Some (Answered (Text INTERNAL_SERVER_ERROR (display_error show_uuid (Io e))), w)
      | _ \<Rightarrow> None)"
| "await_step H show_uuid x (HashReading r file pos h, w) =
     (case x of
        GotBytes n \<Rightarrow>
          (let bytes = take (min n HASH_BUF_SIZE) (drop pos (contents (fs w) file))
           in if n = 0 then None
              else Some (if bytes = [] then compare_hash r (hex_encode (h_finalize H h))
                         else HashReading r file (pos + length bytes) (h_update H h bytes), w))
      | Failed e \<Rightarrow> Some (Answered (Text INTERNAL_SERVER_ERROR (display_error show_uuid (Io e))), w)
      | _ \<Rightarrow> None)"
| "await_step H show_uuid x (Renaming r, w) =
     (case x of
        Fine now \<Rightarrow>
          Some (case disk_rename (rv_staging r) (rv_final r) (fs w) of
                  None \<Rightarrow> (Answered (Text INTERNAL_SERVER_ERROR ENOENT), w)
                | Some d \<Rightarrow> (Forgetting r False (Text OK (lit ''transfer complete'')), w\<lparr>fs := d\<rparr>))
      | Failed e \<Rightarrow> Some (Answered (Text INTERNAL_SERVER_ERROR e), w)
      | _ \<Rightarrow> None)"
| "await_step H show_uuid x (Forgetting r deletes resp, w) =
     (case x of
        Fine now \<Rightarrow> Some (if deletes then Deleting r resp else Answered resp, remove_session (rv_id r) w)
      | _ \<Rightarrow> None)"
| "await_step H show_uuid x (Deleting r resp, w) =
     (case x of
        Fine now \<Rightarrow> Some (Answered resp, w\<lparr>fs := disk_remove (rv_staging r) (fs w)\<rparr>)
      | Failed e \<Rightarrow> Some (Answered resp, w)
      | _ \<Rightarrow> None)"
| "await_step H show_uuid x (Answered resp, w) = None"
| "await_step H show_uuid x (Dead, w) = None"

section \<open>The server\<close>

text \<open>The id and the paths of an upload not yet answered.\<close>

fun at_work :: "'h await \<Rightarrow> (uuid \<times> rstring \<times> rstring) option" where
  "at_work (MakingDir q) = Some (aq_id q, aq_staging q, aq_final q)"
| "at_work (Opening q) = Some (aq_id q, aq_staging q, aq_final q)"
| "at_work (Seeking q _) = Some (aq_id q, aq_staging q, aq_final q)"
| "at_work (Registering r) = Some (rv_id r, rv_staging r, rv_final r)"
| "at_work (NextChunk r) = Some (rv_id r, rv_staging r, rv_final r)"
| "at_work (Sleeping r _) = Some (rv_id r, rv_staging r, rv_final r)"
| "at_work (Writing r _) = Some (rv_id r, rv_staging r, rv_final r)"
| "at_work (Flushing r) = Some (rv_id r, rv_staging r, rv_final r)"
| "at_work (HashOpening r) = Some (rv_id r, rv_staging r, rv_final r)"
| "at_work (HashReading r _ _ _) = Some (rv_id r, rv_staging r, rv_final r)"
| "at_work (Renaming r) = Some (rv_id r, rv_staging r, rv_final r)"
| "at_work (Forgetting r _ _) = Some (rv_id r, rv_staging r, rv_final r)"
| "at_work (Deleting r _) = Some (rv_id r, rv_staging r, rv_final r)"
| "at_work (Answered _) = None"
| "at_work Dead = None"

definition await_apart :: "'h await \<Rightarrow> 'h await \<Rightarrow> bool" where
  "await_apart a b \<longleftrightarrow> set_option (map_option fst (at_work a)) \<inter> set_option (map_option fst (at_work b)) = {}"

record 'h async_server =
  ay_world :: world
  ay_handlers :: "'h await list"

text \<open>A request arrives, an await ends, a handler at work is dropped, or some session's flags are set from outside.\<close>

inductive await_move :: "'h hash_api \<Rightarrow> (uuid \<Rightarrow> rstring) \<Rightarrow> 'h async_server \<Rightarrow> 'h async_server \<Rightarrow> bool" for H su where
  accepted: "await_move H su S (S\<lparr>ay_handlers := ay_handlers S @ [await_begin su u hdr (ay_world S)]\<rparr>)"
| resumed: "i < length (ay_handlers S) \<Longrightarrow> await_step H su x (ay_handlers S ! i, ay_world S) = Some (a, w) \<Longrightarrow>
    await_move H su S \<lparr>ay_world = w, ay_handlers = (ay_handlers S)[i := a]\<rparr>"
| dropped: "i < length (ay_handlers S) \<Longrightarrow> at_work (ay_handlers S ! i) \<noteq> None \<Longrightarrow>
    await_move H su S (S\<lparr>ay_handlers := (ay_handlers S)[i := Dead]\<rparr>)"
| controlled: "await_move H su S (S\<lparr>ay_world := (ay_world S)\<lparr>mem := apply_control c s (mem (ay_world S))\<rparr>\<rparr>)"

text \<open>A step keeps them, or ends.\<close>

lemma at_work_parts [simp]:
  "at_work (compare_hash r a) = Some (rv_id r, rv_staging r, rv_final r)"
  "at_work (after_flush H r) = Some (rv_id r, rv_staging r, rv_final r)"
  "at_work (fst (register H now q f w)) = Some (aq_id q, aq_staging q, aq_final q)"
  by (simp_all add: after_flush_def compare_hash_def register_def new_receiver_def Let_def split: option.splits prod.splits)

lemma step_keeps_id:
  assumes "await_step H su x (a, w) = Some s"
  shows "at_work (fst s) = None \<or> at_work (fst s) = at_work a"
proof (cases a)
  case (Opening q)
  with assms show ?thesis by (auto simp: Let_def split: outcome.splits prod.splits if_split_asm)
next
  case (HashReading r f pos h)
  with assms show ?thesis by (cases x) (auto simp: Let_def split: if_split_asm)
next
  case (Renaming r)
  with assms show ?thesis by (auto split: outcome.splits option.splits)
qed (use assms in \<open>auto split: outcome.splits option.splits if_split_asm\<close>)

section \<open>What a handler relies on\<close>

definition right_hash :: "(byte list \<Rightarrow> byte list) \<Rightarrow> 'h receiver \<Rightarrow> byte list \<Rightarrow> bool" where
  "right_hash sha r c \<longleftrightarrow> rv_written r = rv_total r \<and> (\<forall>e. rv_expected r = Some e \<longrightarrow> hex_encode (sha c) = e)"

fun holds_file :: "'h hash_api \<Rightarrow> (uuid \<Rightarrow> rstring) \<Rightarrow> (byte list \<Rightarrow> byte list) \<Rightarrow> world \<Rightarrow> 'h await \<Rightarrow> bool" where
  "holds_file H su sha w (Seeking q f) = (names (fs w) (components (aq_staging q)) = Some f \<and> aq_resume q > 0)"
| "holds_file H su sha w (Registering r) = intact H su w r"
| "holds_file H su sha w (NextChunk r) = intact H su w r"
| "holds_file H su sha w (Sleeping r _) = intact H su w r"
| "holds_file H su sha w (Writing r _) = intact H su w r"
| "holds_file H su sha w (Flushing r) = intact H su w r"
| "holds_file H su sha w (HashOpening r) = (intact H su w r \<and> rv_written r = rv_total r)"
| "holds_file H su sha w (HashReading r f pos h) =
     (intact H su w r \<and> rv_written r = rv_total r \<and> f = rv_file r
      \<and> (\<exists>cs. h = foldl (h_update H) (h_new H) cs \<and> concat cs = take pos (contents (fs w) f)
          \<and> pos \<le> length (contents (fs w) f)))"
| "holds_file H su sha w (Renaming r) = (intact H su w r \<and> right_hash sha r (contents (fs w) (rv_file r)))"
| "holds_file H su sha w _ = True"

definition own_await :: "'h hash_api \<Rightarrow> (uuid \<Rightarrow> rstring) \<Rightarrow> (byte list \<Rightarrow> byte list) \<Rightarrow> world \<Rightarrow> 'h await \<Rightarrow> bool" where
  "own_await H su sha w a \<longleftrightarrow> holds_file H su sha w a
     \<and> (case at_work a of None \<Rightarrow> True | Some (u, staging, final) \<Rightarrow> placed su (as_paths (app w)) u staging final)"

lemma holds_file_idle [simp]: "at_work a = None \<Longrightarrow> holds_file H su sha w a"
  by (cases a) simp_all

lemma holds_file_mem [simp]: "holds_file H su sha (w\<lparr>mem := m\<rparr>) a = holds_file H su sha w a"
  by (cases a) simp_all

lemma own_await_mem [simp]: "own_await H su sha (w\<lparr>mem := m\<rparr>) a = own_await H su sha w a"
  by (simp add: own_await_def split: option.splits)

text \<open>It is kept when the file under the staging path is.\<close>

lemma own_await_kept:
  assumes "own_await H su sha w a" and "as_paths (app w') = as_paths (app w)"
    and "\<And>u st fi f. at_work a = Some (u, st, fi) \<Longrightarrow> names (fs w) (components st) = Some f \<Longrightarrow>
      names (fs w') (components st) = Some f \<and> contents (fs w') f = contents (fs w) f"
  shows "own_await H su sha w' a"
proof -
  have i: "intact H su w' r" "contents (fs w') (rv_file r) = contents (fs w) (rv_file r)"
    if "intact H su w r" "at_work a = Some (u, rv_staging r, fi)" for r u fi
  proof -
    have "names (fs w) (components (rv_staging r)) = Some (rv_file r)" using that(1) by (simp add: intact_def)
    with assms(3) [OF that(2)] show "contents (fs w') (rv_file r) = contents (fs w) (rv_file r)" "intact H su w' r"
      using that(1) assms(2) by (simp_all add: intact_def)
  qed
  have "holds_file H su sha w' a" using assms(1,3) i by (cases a) (auto simp: own_await_def)
  with assms(1,2) show ?thesis by (auto simp: own_await_def split: option.splits)
qed

text \<open>The steps, one state after the other.\<close>

lemma begin_at_work:
  assumes "uuid_text su"
  shows "own_await H su sha w (await_begin su u hdr w)" "at_work (await_begin su u hdr w) = Some (v, st, fi) \<Longrightarrow> v = u"
  using assms
  by (auto simp: await_begin_def own_await_def placed_def staging_join final_join split: option.splits)

lemma register_own:
  assumes "register H now q f w = (a, w')" and "names (fs w) (components (aq_staging q)) = Some f"
    and "aq_resume q = 0 \<longrightarrow> contents (fs w) f = []" and "placed su (as_paths (app w)) (aq_id q) (aq_staging q) (aq_final q)"
  shows "own_await H su sha w' a" and "at_work a = Some (aq_id q, aq_staging q, aq_final q)"
    and "fs w' = fs w" and "app w' = app w"
proof -
  obtain s h where n: "session_new (aq_id q) (aq_name q) (aq_total q) Receive now (mem w) = (s, h)" by fastforce
  let ?r = "new_receiver H (aq_id q) s f (aq_resume q) (aq_total q) (aq_expected q) (aq_staging q) (aq_final q)"
  have a: "a = Registering ?r" "w' = w\<lparr>mem := with_initial_bytes (aq_resume q) s h\<rparr>"
    using assms(1) n by (auto simp: register_def)
  have "received_so_far H ?r (contents (fs w) f)"
    unfolding received_so_far_def using assms(3)
    by (intro exI [of _ "[]"] exI [of _ "contents (fs w) f"]) (simp add: new_receiver_def patch_def)
  then show "own_await H su sha w' a" "at_work a = Some (aq_id q, aq_staging q, aq_final q)" "fs w' = fs w" "app w' = app w"
    using assms(2,4) by (simp_all add: a own_await_def intact_def new_receiver_def)
qed

lemma intact_digest:
  assumes "digest_law H sha" and "intact H su w r" and "rv_resume r = 0"
  shows "finalize_hex H (rv_hasher r) = hex_encode (sha (contents (fs w) (rv_file r)))"
proof -
  have p: "patch 0 bs [] = bs" for bs by (simp add: patch_def)
  from assms(2,3) obtain cs where "rv_hasher r = foldl (hasher_update H) (hasher_new H) cs"
    "contents (fs w) (rv_file r) = concat cs" by (auto simp: intact_def received_so_far_def p)
  then show ?thesis using hasher_digest [OF assms(1)] by simp
qed

lemma compare_own:
  assumes "intact H su w r" and "rv_written r = rv_total r" and "actual = hex_encode (sha (contents (fs w) (rv_file r)))"
  shows "own_await H su sha w (compare_hash r actual)"
  using assms by (auto simp: compare_hash_def own_await_def right_hash_def intact_def split: option.splits)

lemma after_flush_own:
  assumes "digest_law H sha" and "intact H su w r"
  shows "own_await H su sha w (after_flush H r)"
  using compare_own [OF assms(2)] intact_digest [OF assms] assms(2)
  by (auto simp: after_flush_def own_await_def right_hash_def intact_def)

lemma written_own:
  assumes "intact H su w r"
  shows "intact H su (w\<lparr>fs := disk_write (rv_file r) (rv_pos r) chunk (fs w), mem := m\<rparr>)
    (r\<lparr>rv_hasher := hasher_update H (rv_hasher r) chunk, rv_pos := rv_pos r + length chunk,
      rv_written := rv_written r + of_nat (length chunk)\<rparr>)"
  using write_intact [of H io_fine r chunk w _ _ su] assms by (fastforce simp: write_chunk_def)

text \<open>A step leaves alone what is under other names than its upload's two.\<close>

lemma step_disk:
  assumes "await_step H su x (a, w) = Some (a', w')" and "own_await H su sha w a" and "disk_ok (fs w)"
    and "at_work a = Some (u, st, fi)"
  shows "disk_ok (fs w')" and "as_paths (app w') = as_paths (app w)"
    and "names (fs w) p = Some f \<Longrightarrow> p \<noteq> components st \<Longrightarrow> p \<noteq> components fi \<Longrightarrow>
      names (fs w') p = Some f \<and> contents (fs w') f = contents (fs w) f"
proof -
  let ?kept = "\<lambda>d d'. disk_ok d' \<and> (\<forall>p f. names d p = Some f \<longrightarrow> p \<noteq> components st \<longrightarrow> p \<noteq> components fi \<longrightarrow>
      names d' p = Some f \<and> contents d' f = contents d f)"
  have w: "?kept (fs w) (disk_write f off bs (fs w))" if "names (fs w) (components st) = Some f" for f off bs
    using that assms(3) disk_ok_write [of f off bs "fs w"] by (auto simp: disk_write_def disk_ok_def)
  have o: "?kept (fs w) d" if "disk_open t st (fs w) = (f, d)" for t f d
  proof (intro conjI allI impI)
    show "disk_ok d" using disk_ok_open [OF assms(3), of t st] that by simp
    fix p g
    assume n: "names (fs w) p = Some g" "p \<noteq> components st"
    then show "names d p = Some g" using that by (auto simp: disk_open_def split: option.splits if_splits)
    have "g < next_file (fs w)" "names (fs w) (components st) \<noteq> Some g" using n assms(3) unfolding disk_ok_def by metis+
    then show "contents d g = contents (fs w) g" using that by (auto simp: disk_open_def split: option.splits if_splits)
  qed
  have m: "?kept (fs w) (disk_remove st (fs w))" "disk_rename st fi (fs w) = Some d \<Longrightarrow> ?kept (fs w) d" for d
    using assms(3) disk_ok_remove disk_ok_rename by (auto simp: disk_simps disk_rename_def split: option.splits)
  have same: "?kept (fs w) (fs w') \<and> as_paths (app w') = as_paths (app w)"
    if "fs w' = fs w \<and> as_paths (app w') = as_paths (app w)" using that assms(3) by simp
  have "?kept (fs w) (fs w') \<and> as_paths (app w') = as_paths (app w)"
  proof (cases a)
    case (MakingDir q)
    then show ?thesis using assms(1,3) by (auto simp: disk_simps split: outcome.splits)
  next
    case (Opening q)
    then show ?thesis using assms o by (auto simp: register_def Let_def split: outcome.splits prod.splits if_splits)
  next
    case (Writing r chunk)
    then show ?thesis using assms w [of "rv_file r"] by (auto simp: own_await_def intact_def split: outcome.splits)
  next
    case (Renaming r)
    then show ?thesis using assms m(2) by (auto split: outcome.splits option.splits)
  next
    case (Deleting r resp)
    then show ?thesis using assms m(1) by (auto split: outcome.splits)
  qed (rule same, (use assms(1) in \<open>auto simp: register_def Let_def remove_session_def insert_session_def
        split: outcome.splits option.splits if_splits prod.splits\<close>)[1])+
  then show "disk_ok (fs w')" "as_paths (app w') = as_paths (app w)"
    "names (fs w) p = Some f \<Longrightarrow> p \<noteq> components st \<Longrightarrow> p \<noteq> components fi \<Longrightarrow>
      names (fs w') p = Some f \<and> contents (fs w') f = contents (fs w) f" by blast+
qed

lemma opening_holds:
  assumes "await_step H su x (a, w) = Some (a', w')" and "own_await H su sha w a" and "a = Opening q \<or> (\<exists>f. a = Seeking q f)"
  shows "own_await H su sha w' a'"
proof (cases "\<exists>now. x = Fine now")
  case True
  then obtain now where x: "x = Fine now" ..
  have p: "placed su (as_paths (app w)) (aq_id q) (aq_staging q) (aq_final q)" and k: "at_work a = Some (aq_id q, aq_staging q, aq_final q)"
    using assms(2,3) by (auto simp: own_await_def)
  show ?thesis
  proof (cases "a = Opening q")
    case True
    obtain f d where o: "disk_open (aq_resume q = 0) (aq_staging q) (fs w) = (f, d)" by fastforce
    have n: "names d (components (aq_staging q)) = Some f" "aq_resume q = 0 \<longrightarrow> contents d f = []"
      using disk_open_name [of "aq_resume q = 0" "aq_staging q" "fs w"]
        disk_open_contents [of "aq_resume q = 0" "aq_staging q" "fs w"] o by simp_all
    show ?thesis
    proof (cases "aq_resume q > 0")
      case r: True
      then have "a' = Seeking q f" "w' = w\<lparr>fs := d\<rparr>" using assms(1) True x o by simp_all
      with n p k r show ?thesis by (simp add: own_await_def)
    next
      case False
      then have "register H now q f (w\<lparr>fs := d\<rparr>) = (a', w')" using assms(1) True x o by simp
      from register_own [where su = su, OF this] n p k show ?thesis by simp
    qed
  next
    case False
    then obtain f where "register H now q f w = (a', w')" "names (fs w) (components (aq_staging q)) = Some f" "aq_resume q > 0"
      using assms x by (auto simp: own_await_def)
    from register_own [where su = su, OF this(1,2) _ p] this(3) k show ?thesis by simp
  qed
next
  case False
  with assms show ?thesis by (auto simp: own_await_def split: outcome.splits)
qed

lemma hashing_holds:
  assumes "await_step H su (GotBytes n) (HashReading r f pos h, w) = Some (a', w')"
    and "own_await H su sha w (HashReading r f pos h)" and "digest_law H sha"
  shows "own_await H su sha w' a'"
proof -
  let ?c = "contents (fs w) (rv_file r)"
  define b where "b = take (min n HASH_BUF_SIZE) (drop pos ?c)"
  obtain cs where c: "h = foldl (h_update H) (h_new H) cs" "concat cs = take pos ?c" "pos \<le> length ?c"
    and i: "intact H su w r" "rv_written r = rv_total r" "f = rv_file r" using assms(2) by (auto simp: own_await_def)
  have e: "n \<noteq> 0" "w' = w" "a' = (if b = [] then compare_hash r (hex_encode (h_finalize H h))
      else HashReading r f (pos + length b) (h_update H h b))"
    using assms(1) i(3) unfolding b_def by (auto simp: Let_def split: if_split_asm)
  show ?thesis
  proof (cases "b = []")
    case True
    then have "drop pos ?c = []" using e(1) by (auto simp: b_def HASH_BUF_SIZE_def)
    then have "hex_encode (h_finalize H h) = hex_encode (sha ?c)" using c assms(3) by (simp add: digest_law_def)
    from compare_own [where sha = sha, OF i(1,2) this] e True show ?thesis by simp
  next
    case False
    have "b = take (length b) (drop pos ?c)" unfolding b_def by (metis append_eq_conv_conj append_take_drop_id)
    then have "concat (cs @ [b]) = take (pos + length b) ?c" using c(2) by (simp add: take_add)
    moreover have "pos + length b \<le> length ?c" using c(3) by (simp add: b_def)
    moreover have "h_update H h b = foldl (h_update H) (h_new H) (cs @ [b])" using c(1) by simp
    moreover have "placed su (as_paths (app w)) (rv_id r) (rv_staging r) (rv_final r)" using i(1) by (simp add: intact_def)
    ultimately show ?thesis using e False i by (auto simp: own_await_def intro!: exI [of _ "cs @ [b]"])
  qed
qed

lemma step_holds:
  assumes "await_step H su x (a, w) = Some (a', w')" and "own_await H su sha w a" and "digest_law H sha"
  shows "own_await H su sha w' a'"
proof (cases a)
  case (Opening q)
  with opening_holds [OF assms(1,2)] show ?thesis by blast
next
  case (Seeking q f)
  with opening_holds [OF assms(1,2)] show ?thesis by blast
next
  case (Registering r)
  with assms show ?thesis by (auto simp: own_await_def intact_def insert_session_def split: outcome.splits)
next
  case (Writing r chunk)
  with assms written_own [of H su w r _ chunk] show ?thesis
    by (auto simp: own_await_def split: outcome.splits)
next
  case (Flushing r)
  with assms after_flush_own [OF assms(3), of su w r] show ?thesis by (auto simp: own_await_def split: outcome.splits)
next
  case (HashOpening r)
  with assms show ?thesis
    by (auto simp: own_await_def intact_def intro!: exI [of _ "[]"] split: outcome.splits option.splits)
next
  case (HashReading r f pos h)
  with assms hashing_holds [of H su _ r f pos h w a' w' sha] show ?thesis
    by (cases x) (auto simp: own_await_def)
qed (use assms in \<open>auto simp: own_await_def remove_session_def right_hash_def split: outcome.splits option.splits if_splits\<close>)

section \<open>Handlers side by side\<close>

lemma step_at_work: "await_step H su x (a, w) = Some s \<Longrightarrow> at_work a \<noteq> None"
  by (cases a) simp_all

definition handler_move :: "'h hash_api \<Rightarrow> (uuid \<Rightarrow> rstring) \<Rightarrow> 'h await \<Rightarrow> world \<Rightarrow> 'h await \<Rightarrow> world \<Rightarrow> bool" where
  "handler_move H su a w a' w' \<longleftrightarrow>
     (\<exists>x. await_step H su x (a, w) = Some (a', w')) \<or> (at_work a \<noteq> None \<and> a' = Dead \<and> w' = w)"

lemma handler_move_other:
  assumes "handler_move H su a w a' w'" and "uuid_text su" and "disk_ok (fs w)"
    and "own_await H su sha w a" and "own_await H su sha w b" and "await_apart a b"
  shows "own_await H su sha w' b"
proof (cases "\<exists>x. await_step H su x (a, w) = Some (a', w')")
  case True
  then obtain x where s: "await_step H su x (a, w) = Some (a', w')" by blast
  obtain u st fi where a: "at_work a = Some (u, st, fi)" using step_at_work [OF s] by fastforce
  show ?thesis
  proof (rule own_await_kept [OF assms(5) step_disk(2) [OF s assms(4,3) a]])
    fix v st' fi' f
    assume b: "at_work b = Some (v, st', fi')" and n: "names (fs w) (components st') = Some f"
    have "u \<noteq> v" using assms(6) a b by (simp add: await_apart_def)
    moreover have "placed su (as_paths (app w)) u st fi" "placed su (as_paths (app w)) v st' fi'"
      using assms(4,5) a b by (simp_all add: own_await_def)
    ultimately have "components st' \<noteq> components st" "components st' \<noteq> components fi"
      using placed_apart [OF assms(2)] by metis+
    from step_disk(3) [OF s assms(4,3) a n this]
    show "names (fs w') (components st') = Some f \<and> contents (fs w') f = contents (fs w) f" .
  qed
next
  case False
  with assms(1,5) show ?thesis by (simp add: handler_move_def)
qed

lemma handler_move_own:
  assumes "handler_move H su a w a' w'" and "digest_law H sha" and "disk_ok (fs w)" and "own_await H su sha w a"
  shows "disk_ok (fs w') \<and> own_await H su sha w' a'"
proof (cases "\<exists>x. await_step H su x (a, w) = Some (a', w')")
  case True
  then obtain x where s: "await_step H su x (a, w) = Some (a', w')" by blast
  obtain u st fi where "at_work a = Some (u, st, fi)" using step_at_work [OF s] by fastforce
  with step_disk(1) [OF s assms(4,3)] step_holds [OF s assms(4,2)] show ?thesis by blast
next
  case False
  with assms(1,3) show ?thesis by (simp add: handler_move_def own_await_def)
qed

definition sound_world :: "'h hash_api \<Rightarrow> (uuid \<Rightarrow> rstring) \<Rightarrow> (byte list \<Rightarrow> byte list) \<Rightarrow> world \<Rightarrow> bool" where
  "sound_world H su sha w \<longleftrightarrow> uuid_text su \<and> digest_law H sha \<and> disk_ok (fs w)"

lemma sound_world_mem [simp]: "sound_world H su sha (w\<lparr>mem := m\<rparr>) = sound_world H su sha w"
  by (simp add: sound_world_def)

interpretation asynchronous: coexisting "sound_world H su sha" "own_await H su sha" await_apart
    "\<lambda>w a w'. w' = w \<and> (\<exists>u hdr. a = await_begin su u hdr w)" "handler_move H su" for H su sha
proof (unfold_locales, goal_cases)
  case (1 a b)
  then show ?case by (auto simp: await_apart_def)
next
  case (2 w a w')
  then show ?case using begin_at_work(1) by (auto simp: sound_world_def)
next
  case (3 w a w' b)
  then show ?case by simp
next
  case (4 a w a' w')
  then show ?case unfolding sound_world_def using handler_move_own by blast
next
  case (5 a w a' w' b)
  then show ?case unfolding sound_world_def using handler_move_other by blast
qed

text \<open>Moves after which the uploads at work still have different ids.\<close>

definition apart_move :: "'h hash_api \<Rightarrow> (uuid \<Rightarrow> rstring) \<Rightarrow> 'h async_server \<Rightarrow> 'h async_server \<Rightarrow> bool" where
  "apart_move H su S T \<longleftrightarrow> await_move H su S T \<and> sorted_wrt await_apart (ay_handlers T)"

definition all_hold :: "'h hash_api \<Rightarrow> (uuid \<Rightarrow> rstring) \<Rightarrow> (byte list \<Rightarrow> byte list) \<Rightarrow> 'h async_server \<Rightarrow> bool" where
  "all_hold H su sha S \<longleftrightarrow> asynchronous.all_own H su sha (ay_world S) (ay_handlers S)"

lemma await_move_hold:
  "await_move H su S T \<Longrightarrow> sorted_wrt await_apart (ay_handlers T) \<Longrightarrow> all_hold H su sha S \<Longrightarrow> all_hold H su sha T"
  unfolding all_hold_def
proof (induction rule: await_move.induct)
  case (accepted S u hdr)
  then show ?case by simp (rule asynchronous.all_own_arrive [where s = "ay_world S"], auto)
next
  case (resumed i S x a w)
  then have "handler_move H su (ay_handlers S ! i) (ay_world S) a w" by (auto simp: handler_move_def)
  with resumed show ?case by simp (rule asynchronous.all_own_step [where s = "ay_world S"])
next
  case (dropped i S)
  then have "handler_move H su (ay_handlers S ! i) (ay_world S) Dead (ay_world S)" by (auto simp: handler_move_def)
  with dropped show ?case by simp (rule asynchronous.all_own_step [where s = "ay_world S"])
next
  case (controlled S c s)
  then show ?case by (simp add: asynchronous.all_own_def)
qed

lemma apart_move_hold: "apart_move H su S T \<Longrightarrow> all_hold H su sha S \<Longrightarrow> all_hold H su sha T"
  unfolding apart_move_def by (blast intro: await_move_hold)

interpretation keeping: invariant_system "apart_move H su" "all_hold H su sha" for H su sha
  by unfold_locales (rule apart_move_hold)

end
