(* ===== verification/Schedules.thy ===== *)
theory Schedules
  imports Awaits
begin

text \<open>
  The two views of the server related: a step of \<open>Server\<close> is a run of awaits (\<open>steps_are_awaits\<close>), and an upload answered 200
  under any schedule of the awaits was right when it was moved into place (\<open>scheduled_upload_verified\<close>).
\<close>

section \<open>The server's steps as schedules\<close>

text \<open>Awaits of one handler, one after the other.\<close>

definition await_then :: "'h hash_api \<Rightarrow> (uuid \<Rightarrow> rstring) \<Rightarrow> 'h await \<times> world \<Rightarrow> 'h await \<times> world \<Rightarrow> bool" where
  "await_then H su s s' \<longleftrightarrow> (\<exists>x. await_step H su x s = Some s')"

lemma await_first:
  "await_step H su x s = Some s' \<Longrightarrow> (await_then H su)\<^sup>*\<^sup>* s' t \<Longrightarrow> (await_then H su)\<^sup>*\<^sup>* s t"
  by (rule converse_rtranclp_into_rtranclp) (auto simp: await_then_def)

lemma await_once: "await_step H su x s = Some s' \<Longrightarrow> (await_then H su)\<^sup>*\<^sup>* s s'"
  by (rule r_into_rtranclp) (auto simp: await_then_def)

fun of_handler :: "'h handler \<Rightarrow> 'h await" where
  "of_handler (Receiving r) = NextChunk r"
| "of_handler (Waiting r chunk) = Sleeping r chunk"
| "of_handler (Responded resp) = Answered resp"
| "of_handler Panicked = Dead"

lemma forget_run:
  "(await_then H su)\<^sup>*\<^sup>* (Forgetting r False resp, w) (Answered resp, remove_session (rv_id r) w)"
  "(await_then H su)\<^sup>*\<^sup>* (Forgetting r True resp, w) (Answered resp, remove_file b (rv_staging r) (remove_session (rv_id r) w))"
proof -
  show "(await_then H su)\<^sup>*\<^sup>* (Forgetting r False resp, w) (Answered resp, remove_session (rv_id r) w)"
    by (rule await_once [where x = "Fine 0"]) simp
  show "(await_then H su)\<^sup>*\<^sup>* (Forgetting r True resp, w) (Answered resp, remove_file b (rv_staging r) (remove_session (rv_id r) w))"
    by (rule await_first [where x = "Fine 0"], simp, rule await_once [where x = "if b then Fine 0 else Failed []"])
      (simp add: remove_file_def)
qed

lemma write_run:
  assumes "write_chunk H io r chunk w = (h, w')"
  shows "(await_then H su)\<^sup>*\<^sup>* (Writing r chunk, w) (of_handler h, w')"
proof (cases "io_write io")
  case None
  with assms show ?thesis by (intro await_once [where x = "Fine 0"]) (auto simp: write_chunk_def)
next
  case (Some ke)
  then obtain k e where k: "io_write io = Some (k, e)" by (cases ke) auto
  let ?v = "w\<lparr>fs := disk_write (rv_file r) (rv_pos r) (take k chunk) (fs w)\<rparr>"
  have "h = Responded (Text INTERNAL_SERVER_ERROR e)" "w' = remove_session (rv_id r) ?v"
    using assms k by (auto simp: write_chunk_def)
  moreover have "await_step H su (WroteSome k e) (Writing r chunk, w) = Some (Forgetting r False (Text INTERNAL_SERVER_ERROR e), ?v)"
    by simp
  ultimately show ?thesis using await_first [OF _ forget_run(1)] by (metis of_handler.simps(3))
qed

lemma rename_run:
  assumes "rename_into_place io r w = (resp, w')"
  shows "(await_then H su)\<^sup>*\<^sup>* (Renaming r, w) (Answered resp, w')"
proof (cases "io_rename io")
  case None
  show ?thesis
  proof (cases "disk_rename (rv_staging r) (rv_final r) (fs w)")
    case (Some d)
    show ?thesis
      by (rule await_first [where x = "Fine 0"], simp add: Some, insert assms None Some forget_run(1)) (auto simp: rename_into_place_def)
  qed (use assms None in \<open>intro await_once [where x = "Fine 0"], auto simp: rename_into_place_def\<close>)
next
  case (Some e)
  with assms show ?thesis by (intro await_once [where x = "Failed e"]) (simp add: rename_into_place_def)
qed

text \<open>The file hash, buffer by buffer.\<close>

lemma hash_run:
  "drop pos (contents (fs w) f) = rest \<Longrightarrow> (await_then H su)\<^sup>*\<^sup>* (HashReading r f pos h, w)
    (compare_hash r (hex_encode (h_finalize H (foldl (h_update H) h (buffer_reads rest)))), w)"
proof (induction rest arbitrary: pos h rule: buffer_reads.induct)
  case (1 rest)
  show ?case
  proof (cases "rest = []")
    case True
    with 1(2) have "await_step H su (GotBytes 1) (HashReading r f pos h, w) = Some (compare_hash r (hex_encode (h_finalize H h)), w)"
      by simp
    from await_once [OF this] True show ?thesis by (simp add: buffer_reads.simps)
  next
    case False
    let ?b = "take HASH_BUF_SIZE rest"
    have s: "await_step H su (GotBytes HASH_BUF_SIZE) (HashReading r f pos h, w)
        = Some (HashReading r f (pos + length ?b) (h_update H h ?b), w)"
      using 1(2) False by (simp add: HASH_BUF_SIZE_def)
    have "drop (pos + length ?b) (contents (fs w) f) = drop (length ?b) rest" using 1(2) by (metis add.commute drop_drop)
    then have "drop (pos + length ?b) (contents (fs w) f) = drop HASH_BUF_SIZE rest" by (simp add: min_def)
    from await_first [OF s 1(1) [OF False this]] show ?thesis
      using False by (subst buffer_reads.simps) simp
  qed
qed

lemma compare_run:
  assumes "rv_expected r = Some expected"
    and "(resp, w') = (if a \<noteq> expected then
        (Text UNPROCESSABLE_ENTITY (lit ''checksum mismatch: expected '' @ expected @ lit '', got '' @ a),
          remove_file (io_remove io) (rv_staging r) (remove_session (rv_id r) w))
      else rename_into_place io r w)"
  shows "(await_then H su)\<^sup>*\<^sup>* (compare_hash r a, w) (Answered resp, w')"
proof (cases "a = expected")
  case True
  with assms rename_run [of io r w resp w' H su] show ?thesis by (simp add: compare_hash_def)
next
  case False
  with assms forget_run(2) show ?thesis by (simp add: compare_hash_def)
qed

lemma verify_run:
  assumes "verify_and_rename H su io r w = Some (resp, w')" and "rv_written r = rv_total r"
  shows "(await_then H su)\<^sup>*\<^sup>* (after_flush H r, w) (Answered resp, w')"
proof (cases "rv_expected r")
  case None
  with assms rename_run show ?thesis by (simp add: verify_and_rename_def after_flush_def)
next
  case (Some expected)
  show ?thesis
  proof (cases "rv_resume r = 0")
    case True
    have "(resp, w') = (if finalize_hex H (rv_hasher r) \<noteq> expected then
        (Text UNPROCESSABLE_ENTITY (lit ''checksum mismatch: expected '' @ expected @ lit '', got '' @ finalize_hex H (rv_hasher r)),
          remove_file (io_remove io) (rv_staging r) (remove_session (rv_id r) w))
      else rename_into_place io r w)"
      using assms(1) Some True by (simp add: verify_and_rename_def)
    from compare_run [OF Some this] assms(2) Some True show ?thesis by (simp add: after_flush_def)
  next
    case False
    then have o: "after_flush H r = HashOpening r" using assms(2) Some by (simp add: after_flush_def)
    show ?thesis
    proof (cases "names (fs w) (components (rv_staging r))")
      case None
      have "await_step H su (Fine 0) (HashOpening r, w) = Some (Answered resp, w')"
        using assms(1) Some False None by (simp add: verify_and_rename_def hash_of_file_result)
      then show ?thesis unfolding o by (rule await_once)
    next
      case (Some f)
      have s: "await_step H su (Fine 0) (HashOpening r, w) = Some (HashReading r f 0 (h_new H), w)" using Some by simp
      show ?thesis unfolding o
      proof (rule await_first [OF s], cases "io_hash io")
        case None
        let ?a = "hex_encode (h_finalize H (foldl (h_update H) (h_new H) (buffer_reads (contents (fs w) f))))"
        have "(resp, w') = (if ?a \<noteq> expected then
            (Text UNPROCESSABLE_ENTITY (lit ''checksum mismatch: expected '' @ expected @ lit '', got '' @ ?a),
              remove_file (io_remove io) (rv_staging r) (remove_session (rv_id r) w))
          else rename_into_place io r w)"
          using assms(1) \<open>rv_expected r = _\<close> False Some None by (simp add: verify_and_rename_def hash_of_file_result)
        from compare_run [OF \<open>rv_expected r = _\<close> this] hash_run [of 0 w f _ H su r "h_new H"]
        show "(await_then H su)\<^sup>*\<^sup>* (HashReading r f 0 (h_new H), w) (Answered resp, w')"
          by (metis drop_0 rtranclp_trans)
      next
        case (Some ke)
        then have "await_step H su (Failed (snd ke)) (HashReading r f 0 (h_new H), w) = Some (Answered resp, w')"
          using assms(1) \<open>rv_expected r = _\<close> \<open>names _ _ = _\<close> False
          by (cases ke) (simp add: verify_and_rename_def hash_of_file_result)
        then show "(await_then H su)\<^sup>*\<^sup>* (HashReading r f 0 (h_new H), w) (Answered resp, w')" by (rule await_once)
      qed
    qed
  qed
qed

text \<open>A step of the handler, and its beginning.\<close>

lemma end_run:
  assumes "receive_end H su io r w = Some (resp, w')"
  shows "(await_then H su)\<^sup>*\<^sup>* (NextChunk r, w) (Answered resp, w')"
proof -
  have b: "await_step H su BodyEnded (NextChunk r, w) = Some (Flushing r, w)" by simp
  show ?thesis
  proof (rule await_first [OF b], cases "io_flush io")
    case (Some e)
    with assms show "(await_then H su)\<^sup>*\<^sup>* (Flushing r, w) (Answered resp, w')"
      by (intro await_once [where x = "Failed e"]) (simp add: receive_end_def)
  next
    case None
    have f: "await_step H su (Fine 0) (Flushing r, w) = Some (after_flush H r, w)" by simp
    have "(await_then H su)\<^sup>*\<^sup>* (after_flush H r, w) (Answered resp, w')"
    proof (cases "rv_written r = rv_total r")
      case True
      with assms None show ?thesis by (intro verify_run) (simp_all add: receive_end_def)
    next
      case False
      with assms None show ?thesis by (auto simp: receive_end_def after_flush_def forget_run)
    qed
    from await_first [OF f this] show "(await_then H su)\<^sup>*\<^sup>* (Flushing r, w) (Answered resp, w')" .
  qed
qed

lemma chunk_run:
  assumes "recv_step H su (Data chunk io) (Receiving r, w) = Some (h, w')"
  shows "(await_then H su)\<^sup>*\<^sup>* (NextChunk r, w) (of_handler h, w')"
proof (cases "is_cancelled (rv_session r) (mem w)")
  case True
  have "await_step H su (GotChunk chunk) (NextChunk r, w)
      = Some (Forgetting r True (Text CLIENT_CLOSED (lit ''transfer cancelled'')), w)" using True by simp
  from await_first [OF this forget_run(2)] assms True show ?thesis by auto
next
  case False
  show ?thesis
  proof (cases "is_paused (rv_session r) (mem w)")
    case True
    with assms False show ?thesis by (intro await_once [where x = "GotChunk chunk"]) auto
  next
    case p: False
    have "await_step H su (GotChunk chunk) (NextChunk r, w) = Some (Writing r chunk, w)" using False p by simp
    from await_first [OF this write_run] assms False p show ?thesis by auto
  qed
qed

lemma sleep_run:
  assumes "recv_step H su (Slept io) (Waiting r chunk, w) = Some (h, w')"
  shows "(await_then H su)\<^sup>*\<^sup>* (Sleeping r chunk, w) (of_handler h, w')"
proof (cases "is_paused (rv_session r) (mem w)")
  case True
  with assms show ?thesis by (intro await_once [where x = "Fine 0"]) auto
next
  case False
  have "await_step H su (Fine 0) (Sleeping r chunk, w) = Some (Writing r chunk, w)" using False by simp
  from await_first [OF this write_run] assms False show ?thesis by auto
qed

lemma step_run:
  assumes "recv_step H su x (h, w) = Some (h', w')" and "\<nexists>c. x = Control c"
  shows "(await_then H su)\<^sup>*\<^sup>* (of_handler h, w) (of_handler h', w')"
proof (cases h)
  case (Receiving r)
  show ?thesis
  proof (cases x)
    case (BodyErr e)
    have "await_step H su (BodyFailed e) (NextChunk r, w) = Some (Forgetting r False (Text BAD_REQUEST (lit ''stream error: '' @ e)), w)"
      by simp
    from await_first [OF this forget_run(1)] assms(1) Receiving BodyErr show ?thesis by auto
  qed (use assms Receiving chunk_run end_run in \<open>auto simp del: recv_step.simps(1)\<close>)
next
  case (Waiting r chunk)
  with assms sleep_run [of H su _ r chunk w h' w'] show ?thesis by (cases x) (auto simp del: recv_step.simps(4))
qed (use assms in \<open>cases x; simp\<close>)+

lemma open_run:
  assumes "receive_open H io now u name len resume expected staging final w = (h, w')"
  shows "(await_then H su)\<^sup>*\<^sup>* (MakingDir \<lparr>aq_id = u, aq_name = name, aq_total = len, aq_resume = resume,
      aq_expected = expected, aq_staging = staging, aq_final = final\<rparr>, w) (of_handler h, w')"
proof (cases "oi_mkdir io")
  case (Some e)
  with assms show ?thesis by (intro await_once [where x = "Failed e"]) (auto simp: receive_open_def)
next
  case None
  let ?q = "\<lparr>aq_id = u, aq_name = name, aq_total = len, aq_resume = resume,
      aq_expected = expected, aq_staging = staging, aq_final = final\<rparr>"
  let ?v = "w\<lparr>fs := create_dir_all (path_parent staging) (fs w)\<rparr>"
  have m: "await_step H su (Fine 0) (MakingDir ?q, w) = Some (Opening ?q, ?v)" by simp
  show ?thesis
  proof (rule await_first [OF m], cases "oi_open io")
    case (Some e)
    with assms None show "(await_then H su)\<^sup>*\<^sup>* (Opening ?q, ?v) (of_handler h, w')"
      by (intro await_once [where x = "Failed e"]) (auto simp: receive_open_def Let_def)
  next
    case open_ok: None
    obtain f d where o: "disk_open (resume = 0) staging (fs ?v) = (f, d)" by fastforce
    let ?s = "w\<lparr>fs := d\<rparr>"
    obtain s h1 where n: "session_new u name len Receive now (mem w) = (s, h1)" by fastforce
    let ?r = "new_receiver H u s f resume len expected staging final" and ?t = "?s\<lparr>mem := with_initial_bytes resume s h1\<rparr>"
    have g: "register H now ?q f ?s = (Registering ?r, ?t)" using n by (simp add: register_def)
    have i: "await_step H su (Fine 0) (Registering ?r, ?t) = Some (NextChunk ?r, ?t\<lparr>app := insert_session s (app w)\<rparr>)"
      by (simp add: new_receiver_def)
    have e: "(h, w') = (if resume > 0 \<and> oi_seek io \<noteq> None then (Responded (Text INTERNAL_SERVER_ERROR (the (oi_seek io))), ?s)
        else (Receiving ?r, ?t\<lparr>app := insert_session s (app w)\<rparr>))"
      using assms None open_ok o n by (auto simp: receive_open_def Let_def split: if_splits option.splits)
    show "(await_then H su)\<^sup>*\<^sup>* (Opening ?q, ?v) (of_handler h, w')"
    proof (cases "resume > 0")
      case False
      then have "await_step H su (Fine now) (Opening ?q, ?v) = Some (Registering ?r, ?t)" using o g by simp
      from await_first [OF this await_once [OF i]] e False show ?thesis by simp
    next
      case True
      then have k: "await_step H su (Fine now) (Opening ?q, ?v) = Some (Seeking ?q f, ?s)" using o by simp
      show ?thesis
      proof (rule await_first [OF k], cases "oi_seek io")
        case (Some err)
        with e True show "(await_then H su)\<^sup>*\<^sup>* (Seeking ?q f, ?s) (of_handler h, w')"
          by (intro await_once [where x = "Failed err"]) simp
      next
        case None
        have "await_step H su (Fine now) (Seeking ?q f, ?s) = Some (Registering ?r, ?t)" using g by simp
        from await_first [OF this await_once [OF i]] e None show "(await_then H su)\<^sup>*\<^sup>* (Seeking ?q f, ?s) (of_handler h, w')"
          by simp
      qed
    qed
  qed
qed

lemma begin_run:
  assumes "receive_begin H su io now u hdr w = (h, w')"
  shows "(await_then H su)\<^sup>*\<^sup>* (await_begin su u hdr w, w) (of_handler h, w')"
  using assms open_run
  by (auto simp: receive_begin_def await_begin_def Let_def split: option.splits sum.splits)

text \<open>The server of \<open>Overlap\<close>, seen at its awaits.\<close>

definition at_awaits :: "'h server \<Rightarrow> 'h async_server" where
  "at_awaits S = \<lparr>ay_world = sv_world S, ay_handlers = map of_handler (sv_uploads S)\<rparr>"

lemma run_resumes:
  assumes "(await_then H su)\<^sup>*\<^sup>* (a, w) s" and "i < length as"
  shows "(await_move H su)\<^sup>*\<^sup>* \<lparr>ay_world = w, ay_handlers = as[i := a]\<rparr> \<lparr>ay_world = snd s, ay_handlers = as[i := fst s]\<rparr>"
  using assms(1)
proof (induction rule: rtranclp_induct)
  case base
  then show ?case by simp
next
  case (step s t)
  then obtain x where "await_step H su x s = Some t" by (auto simp: await_then_def)
  then have "await_move H su \<lparr>ay_world = snd s, ay_handlers = as[i := fst s]\<rparr> \<lparr>ay_world = snd t, ay_handlers = as[i := fst t]\<rparr>"
    using resumed [of i "\<lparr>ay_world = snd s, ay_handlers = as[i := fst s]\<rparr>" H su x "fst t" "snd t"] assms(2) by simp
  with step.IH show ?case by (rule rtranclp.rtrancl_into_rtrancl)
qed

lemma serve_move_scheduled: "serve_move H su S T \<Longrightarrow> (await_move H su)\<^sup>*\<^sup>* (at_awaits S) (at_awaits T)"
proof (induction rule: serve_move.induct)
  case (arrives io now u hdr S h w)
  let ?as = "map of_handler (sv_uploads S) @ [await_begin su u hdr (sv_world S)]"
  have "await_move H su (at_awaits S) \<lparr>ay_world = sv_world S, ay_handlers = ?as\<rparr>"
    using accepted [of H su "at_awaits S" u hdr] by (simp add: at_awaits_def)
  moreover have "(await_move H su)\<^sup>*\<^sup>* \<lparr>ay_world = sv_world S, ay_handlers = ?as\<rparr>
      \<lparr>ay_world = w, ay_handlers = map of_handler (sv_uploads S) @ [of_handler h]\<rparr>"
    using run_resumes [OF begin_run [OF arrives], of "length (sv_uploads S)" ?as] by (simp add: list_update_append)
  ultimately show ?case by (simp add: at_awaits_def converse_rtranclp_into_rtranclp)
next
  case (advances i S x h w)
  show ?case
  proof (cases "\<exists>c. x = Control c")
    case False
    with run_resumes [OF step_run [OF advances(2) False], of i "map of_handler (sv_uploads S)"] advances(1)
    show ?thesis by (simp add: at_awaits_def map_update) (metis list_update_id length_map nth_map)
  next
    case True
    then obtain c where x: "x = Control c" ..
    then obtain s where e: "h = sv_uploads S ! i" "w = (sv_world S)\<lparr>mem := apply_control c s (mem (sv_world S))\<rparr>"
      using advances(2) by (cases "sv_uploads S ! i") auto
    have "await_move H su (at_awaits S) \<lparr>ay_world = w, ay_handlers = map of_handler (sv_uploads S)\<rparr>"
      using controlled [of H su "at_awaits S" c s] by (simp add: at_awaits_def e)
    with e(1) show ?thesis by (simp add: at_awaits_def)
  qed
qed

interpretation scheduled: refinement "serve_move H su" "\<lambda>_. True" "await_move H su" at_awaits for H su
  by unfold_locales (simp_all add: serve_move_scheduled)

section \<open>Accepted uploads\<close>

text \<open>A handler that will answer 200, or has.\<close>

fun accepts :: "'h await \<Rightarrow> response \<Rightarrow> bool" where
  "accepts (Answered resp) a = (resp = a \<and> status_of resp = OK)"
| "accepts (Forgetting r deletes resp) a = (resp = a \<and> status_of resp = OK)"
| "accepts (Deleting r resp) a = (resp = a \<and> status_of resp = OK)"
| "accepts _ a = False"

lemma begin_refuses: "\<not> accepts (await_begin su u hdr w) resp"
  by (auto simp: await_begin_def status_codes split: option.splits sum.splits)

lemma check_refuses: "\<not> accepts (compare_hash r a) resp" "\<not> accepts (after_flush H r) resp"
  by (auto simp: after_flush_def compare_hash_def status_codes split: option.splits)

text \<open>It comes from the rename.\<close>

lemma accepts_after_rename:
  assumes "await_step H su x (a, w) = Some (a', w')" and "accepts a' resp"
  shows "accepts a resp \<or> (\<exists>r. a = Renaming r \<and> a' = Forgetting r False resp
    \<and> disk_rename (rv_staging r) (rv_final r) (fs w) = Some (fs w'))"
  using assms
  by (cases a) (auto simp: check_refuses register_def Let_def status_codes
      split: outcome.splits option.splits if_split_asm prod.splits)

lemma renamed_right:
  assumes "own_await H su sha w (Renaming r)" and "uuid_text su" and "disk_rename (rv_staging r) (rv_final r) (fs w) = Some d"
  shows "\<exists>c. disk_read (rv_final r) d = Some c \<and> (\<forall>e. rv_expected r = Some e \<longrightarrow> hex_encode (sha c) = e)
    \<and> (rv_resume r = 0 \<longrightarrow> of_nat (length c) = rv_total r)"
proof -
  let ?c = "contents (fs w) (rv_file r)"
  have i: "intact H su w r" "right_hash sha r ?c" using assms(1) by (simp_all add: own_await_def)
  then have n: "disk_read (rv_staging r) (fs w) = Some ?c" by (simp add: intact_def disk_read_def)
  have "components (rv_staging r) \<noteq> components (rv_final r)" using intact_apart(1) [OF assms(2) i(1,1)] .
  from disk_rename_read(1) [OF assms(3) this] n have "disk_read (rv_final r) d = Some ?c" by simp
  moreover have "of_nat (length ?c) = rv_total r" if z: "rv_resume r = 0"
  proof -
    have p: "patch 0 bs [] = bs" for bs by (simp add: patch_def)
    show ?thesis using i z by (auto simp: intact_def received_so_far_def right_hash_def p)
  qed
  ultimately show ?thesis using i(2) by (simp add: right_hash_def)
qed

definition new_server :: "world \<Rightarrow> 'h async_server" where
  "new_server w = \<lparr>ay_world = w, ay_handlers = []\<rparr>"

text \<open>What is claimed of an accepted upload: some step of the run moved its file into place, and that file was right.\<close>

definition right_move :: "(byte list \<Rightarrow> byte list) \<Rightarrow> nat \<Rightarrow> response \<Rightarrow> 'h async_server \<Rightarrow> 'h async_server \<Rightarrow> bool" where
  "right_move sha i resp S S' \<longleftrightarrow>
     (\<exists>r c. i < length (ay_handlers S) \<and> ay_handlers S ! i = Renaming r \<and> ay_handlers S' ! i = Forgetting r False resp
        \<and> disk_read (rv_final r) (fs (ay_world S')) = Some c \<and> (\<forall>e. rv_expected r = Some e \<longrightarrow> hex_encode (sha c) = e)
        \<and> (rv_resume r = 0 \<longrightarrow> of_nat (length c) = rv_total r))"

definition moved_right ::
  "'h hash_api \<Rightarrow> (uuid \<Rightarrow> rstring) \<Rightarrow> (byte list \<Rightarrow> byte list) \<Rightarrow> world \<Rightarrow> nat \<Rightarrow> response \<Rightarrow> 'h async_server \<Rightarrow> bool" where
  "moved_right H su sha w i resp T \<longleftrightarrow>
     (\<exists>S S'. (apart_move H su)\<^sup>*\<^sup>* (new_server w) S \<and> apart_move H su S S' \<and> right_move sha i resp S S'
        \<and> (apart_move H su)\<^sup>*\<^sup>* S' T)"

lemma moved_right_later: "moved_right H su sha w i resp T \<Longrightarrow> apart_move H su T U \<Longrightarrow> moved_right H su sha w i resp U"
  unfolding moved_right_def by (blast intro: rtranclp.rtrancl_into_rtrancl)

lemma moved_now:
  assumes "(apart_move H su)\<^sup>*\<^sup>* (new_server w) T" and "apart_move H su T U" and "all_hold H su sha T"
    and "i < length (ay_handlers T)" and "ay_handlers T ! i = Renaming r" and "ay_handlers U ! i = Forgetting r False resp"
    and "disk_rename (rv_staging r) (rv_final r) (fs (ay_world T)) = Some (fs (ay_world U))"
  shows "moved_right H su sha w i resp U"
proof -
  have "own_await H su sha (ay_world T) (Renaming r)" "uuid_text su"
    using asynchronous.all_own_nth [of H su sha "ay_world T" "ay_handlers T" i] assms(3-5)
    by (simp_all add: all_hold_def sound_world_def)
  from renamed_right [OF this assms(7)] obtain c where "disk_read (rv_final r) (fs (ay_world U)) = Some c"
    "\<forall>e. rv_expected r = Some e \<longrightarrow> hex_encode (sha c) = e" "rv_resume r = 0 \<longrightarrow> of_nat (length c) = rv_total r" by blast
  with assms(4-6) have "right_move sha i resp T U" unfolding right_move_def by blast
  with assms(1,2) show ?thesis unfolding moved_right_def by blast
qed

lemma accepted_moved:
  assumes "(apart_move H su)\<^sup>*\<^sup>* (new_server w) T" and "all_hold H su sha (new_server w)"
    and "i < length (ay_handlers T)" and "accepts (ay_handlers T ! i) resp"
  shows "moved_right H su sha w i resp T"
  using assms(1,3,4)
proof (induction rule: rtranclp_induct)
  case base
  then show ?case by (simp add: new_server_def)
next
  case (step T U)
  have earlier: "moved_right H su sha w i resp U" if "i < length (ay_handlers T)" "accepts (ay_handlers T ! i) resp"
    using moved_right_later [OF step.IH [OF that] step.hyps(2)] .
  have "await_move H su T U" using step.hyps(2) by (simp add: apart_move_def)
  then show ?case
  proof (cases rule: await_move.cases)
    case (accepted u hdr)
    with step.prems earlier show ?thesis
      by (cases "i = length (ay_handlers T)") (simp_all add: nth_append begin_refuses)
  next
    case (dropped j)
    with step.prems earlier show ?thesis by (cases "i = j") simp_all
  next
    case (controlled c s)
    with step.prems earlier show ?thesis by simp
  next
    case (resumed j x a v)
    show ?thesis
    proof (cases "i = j")
      case False
      with resumed step.prems earlier show ?thesis by simp
    next
      case True
      with resumed step.prems have a: "accepts a resp" "i < length (ay_handlers T)" by simp_all
      from accepts_after_rename [OF resumed(3) a(1)] show ?thesis
      proof
        assume "accepts (ay_handlers T ! j) resp"
        with a(2) True earlier show ?thesis by simp
      next
        assume "\<exists>r. ay_handlers T ! j = Renaming r \<and> a = Forgetting r False resp
          \<and> disk_rename (rv_staging r) (rv_final r) (fs (ay_world T)) = Some (fs v)"
        with moved_now [OF step.hyps keeping.run_inv [OF step.hyps(1) assms(2)]] a(2) True resumed show ?thesis by auto
      qed
    qed
  qed
qed

text \<open>C5: whatever the schedule: handlers of uploads with different ids run interleaved at every await (each system
  call, lock, read and wait of the handler), any of them may be dropped at any await and any session's flags
  change at any time; an upload answered 200 has been moved to its final name by a rename right after which
  the file there has the announced hash and, unless the upload was resumed, the announced size.\<close>

theorem scheduled_upload_verified:
  assumes "uuid_text su" and "digest_law H sha" and "disk_ok (fs w)" and "(apart_move H su)\<^sup>*\<^sup>* (new_server w) T"
    and "i < length (ay_handlers T)" and "ay_handlers T ! i = Answered resp" and "status_of resp = OK"
  shows "\<exists>S S'. (apart_move H su)\<^sup>*\<^sup>* (new_server w) S \<and> apart_move H su S S' \<and> right_move sha i resp S S'
    \<and> (apart_move H su)\<^sup>*\<^sup>* S' T"
proof -
  have "all_hold H su sha (new_server w)"
    using assms(1-3) by (simp add: all_hold_def new_server_def asynchronous.all_own_nil sound_world_def)
  from accepted_moved [OF assms(4) this assms(5)] assms(6,7) show ?thesis by (simp add: moved_right_def)
qed

text \<open>A schedule with two uploads: the first one ends while the second is receiving.\<close>

lemma run_keeps_id:
  "(await_then H su)\<^sup>*\<^sup>* s t \<Longrightarrow> at_work (fst t) = None \<or> at_work (fst t) = at_work (fst s)"
proof (induction rule: rtranclp_induct)
  case (step t u)
  then obtain x where "await_step H su x (fst t, snd t) = Some u" by (auto simp: await_then_def)
  from step_keeps_id [OF this] step.IH show ?case by auto
qed simp

lemma apart_update:
  assumes "sorted_wrt await_apart as" and "i < length as" and "at_work a = None \<or> at_work a = at_work (as ! i)"
  shows "sorted_wrt await_apart (as[i := a])"
proof -
  have "await_apart (as ! i) c \<Longrightarrow> await_apart a c" "await_apart c (as ! i) \<Longrightarrow> await_apart c a" for c
    using assms(3) by (auto simp: await_apart_def)
  with assms(1,2) show ?thesis by (auto simp: sorted_wrt_iff_nth_less nth_list_update)
qed

lemma run_apart:
  assumes "(await_then H su)\<^sup>*\<^sup>* (a, w) s" and "i < length as" and "as ! i = a" and "sorted_wrt await_apart as"
    and "(apart_move H su)\<^sup>*\<^sup>* S \<lparr>ay_world = w, ay_handlers = as\<rparr>"
  shows "(apart_move H su)\<^sup>*\<^sup>* S \<lparr>ay_world = snd s, ay_handlers = as[i := fst s]\<rparr>"
  using assms(1)
proof (induction rule: rtranclp_induct)
  case base
  with assms(5) list_update_id [of as i] assms(3) show ?case by simp
next
  case (step s t)
  then obtain x where "await_step H su x s = Some t" by (auto simp: await_then_def)
  then have "await_move H su \<lparr>ay_world = snd s, ay_handlers = as[i := fst s]\<rparr> \<lparr>ay_world = snd t, ay_handlers = as[i := fst t]\<rparr>"
    using resumed [of i "\<lparr>ay_world = snd s, ay_handlers = as[i := fst s]\<rparr>" H su x "fst t" "snd t"] assms(2) by simp
  moreover have "sorted_wrt await_apart (as[i := fst t])"
    using run_keeps_id [OF rtranclp.rtrancl_into_rtrancl [OF step.hyps]] assms(2-4) by (intro apart_update) auto
  ultimately show ?case using step.IH by (simp add: apart_move_def rtranclp.rtrancl_into_rtrancl)
qed

lemma arrive_apart:
  assumes "receive_begin H su io now u hdr w = (h, w')" and "sorted_wrt await_apart (as @ [await_begin su u hdr w])"
    and "(apart_move H su)\<^sup>*\<^sup>* S \<lparr>ay_world = w, ay_handlers = as\<rparr>"
  shows "(apart_move H su)\<^sup>*\<^sup>* S \<lparr>ay_world = w', ay_handlers = as @ [of_handler h]\<rparr>"
proof -
  have "apart_move H su \<lparr>ay_world = w, ay_handlers = as\<rparr> \<lparr>ay_world = w, ay_handlers = as @ [await_begin su u hdr w]\<rparr>"
    using accepted [of H su "\<lparr>ay_world = w, ay_handlers = as\<rparr>" u hdr] assms(2) by (simp add: apart_move_def)
  with assms(3) have "(apart_move H su)\<^sup>*\<^sup>* S \<lparr>ay_world = w, ay_handlers = as @ [await_begin su u hdr w]\<rparr>"
    by (rule rtranclp.rtrancl_into_rtrancl)
  from run_apart [OF begin_run [OF assms(1)] _ _ assms(2) this, of "length as"] show ?thesis by (simp add: list_update_append)
qed

theorem scheduled_upload_verified_witness:
  "\<exists>S S' T resp. (apart_move toy_hash sample_show)\<^sup>*\<^sup>* (new_server (sample_world empty_disk)) S \<and> apart_move toy_hash sample_show S S'
    \<and> right_move toy_sha 0 resp S S' \<and> (apart_move toy_hash sample_show)\<^sup>*\<^sup>* S' T
    \<and> length (ay_handlers T) = 2 \<and> ay_handlers T ! 0 = Answered resp \<and> status_of resp = OK"
proof -
  let ?h = "sample_headers 3 None" and ?w = "sample_world empty_disk" and ?run = "(apart_move toy_hash sample_show)\<^sup>*\<^sup>*"
  obtain r v1 r1 v2 s v3 resp w' where a: "receive_begin toy_hash sample_show open_fine 0 7 ?h ?w = (Receiving r, v1)"
    "recv_step toy_hash sample_show (Data [1, 2, 3] io_fine) (Receiving r, v1) = Some (Receiving r1, v2)"
    "receive_begin toy_hash sample_show open_fine 0 8 ?h v2 = (Receiving s, v3)"
    "rv_id r = 7" "rv_id r1 = 7" "rv_id s = 8"
    "recv_step toy_hash sample_show (EndOfBody io_fine) (Receiving r1, v3) = Some (Responded resp, w')" "status_of resp = OK"
    using two_uploads [OF sample_show_text toy_hash_law sample_world_ok sample_pair, where u = 7 and v = 8] by blast
  have d: "await_apart (NextChunk r1) (await_begin sample_show 8 ?h v2)" "await_apart (NextChunk r1) (NextChunk s)"
    using begin_at_work(2) [OF sample_show_text, of 8 ?h v2] a(5,6)
    by (auto simp: await_apart_def split: option.splits) fastforce
  have "?run (new_server ?w) \<lparr>ay_world = v1, ay_handlers = [NextChunk r]\<rparr>"
    using arrive_apart [OF a(1), of "[]" "new_server ?w"] by (simp add: new_server_def)
  from run_apart [OF step_run [OF a(2)], of 0 "[NextChunk r]", OF _ _ _ _ this]
  have "?run (new_server ?w) \<lparr>ay_world = v2, ay_handlers = [NextChunk r1]\<rparr>" by simp
  from arrive_apart [OF a(3) _ this] d(1)
  have "?run (new_server ?w) \<lparr>ay_world = v3, ay_handlers = [NextChunk r1, NextChunk s]\<rparr>" by simp
  from run_apart [OF step_run [OF a(7)], of 0 "[NextChunk r1, NextChunk s]", OF _ _ _ _ this] d(2)
  have t: "?run (new_server ?w) \<lparr>ay_world = w', ay_handlers = [Answered resp, NextChunk s]\<rparr>" by simp
  from scheduled_upload_verified [OF sample_show_text toy_hash_law sample_world_ok t, of 0 resp] a(8) show ?thesis by fastforce
qed

text \<open>C9: the server of \<open>Server\<close> and \<open>Overlap\<close>, which takes the work between two pieces of a body as one step, is
  a schedule of the handlers' awaits: each of its runs, whatever requests arrive and whatever fails, is a
  run of the server that stops at every await, with the same answers, sessions and disk.\<close>

theorem steps_are_awaits:
  assumes "(serve_move H su)\<^sup>*\<^sup>* S T"
  shows "(await_move H su)\<^sup>*\<^sup>* (at_awaits S) (at_awaits T)"
  by (rule scheduled.run_view [OF assms TrueI])

theorem steps_are_awaits_witness:
  "\<exists>T. (await_move toy_hash sample_show)\<^sup>*\<^sup>* (new_server (sample_world empty_disk)) T
    \<and> length (ay_handlers T) = 2 \<and> (\<exists>resp. ay_handlers T ! 0 = Answered resp \<and> status_of resp = OK)"
proof -
  let ?h = "sample_headers 3 None" and ?w = "sample_world empty_disk" and ?run = "(serve_move toy_hash sample_show)\<^sup>*\<^sup>*"
  obtain r v1 r1 v2 s v3 resp w' where a: "receive_begin toy_hash sample_show open_fine 0 7 ?h ?w = (Receiving r, v1)"
    "recv_step toy_hash sample_show (Data [1, 2, 3] io_fine) (Receiving r, v1) = Some (Receiving r1, v2)"
    "receive_begin toy_hash sample_show open_fine 0 8 ?h v2 = (Receiving s, v3)"
    "recv_step toy_hash sample_show (EndOfBody io_fine) (Receiving r1, v3) = Some (Responded resp, w')" "status_of resp = OK"
    using two_uploads [OF sample_show_text toy_hash_law sample_world_ok sample_pair, where u = 7 and v = 8] by blast
  let ?S = "\<lparr>sv_world = ?w, sv_uploads = []\<rparr>"
  have "?run ?S \<lparr>sv_world = v1, sv_uploads = [Receiving r]\<rparr>" using serve_arrives [OF a(1), of ?S "[]"] by simp
  then have "?run ?S \<lparr>sv_world = v2, sv_uploads = [Receiving r1]\<rparr>"
    using serve_advances [of toy_hash sample_show _ "[Receiving r]" 0 v1 "Receiving r1" v2 ?S] a(2) by (simp del: recv_step.simps)
  from serve_arrives [OF a(3) this] have "?run ?S \<lparr>sv_world = v3, sv_uploads = [Receiving r1, Receiving s]\<rparr>" by simp
  then have "?run ?S \<lparr>sv_world = w', sv_uploads = [Responded resp, Receiving s]\<rparr>"
    using serve_advances [of toy_hash sample_show _ "[Receiving r1, Receiving s]" 0 v3 "Responded resp" w' ?S] a(4)
    by (simp del: recv_step.simps)
  from steps_are_awaits [OF this] a(5) show ?thesis
    by (intro exI [of _ "at_awaits \<lparr>sv_world = w', sv_uploads = [Responded resp, Receiving s]\<rparr>"]) (simp add: at_awaits_def new_server_def)
qed

section \<open>Corners\<close>

text \<open>A handler dropped at an await, as the web server does when the client goes away, leaves its session: the status
  request goes on reporting the upload.\<close>

lemma dropped_upload_reported:
  assumes "i < length (ay_handlers S)" and "ay_handlers S ! i = NextChunk r"
    and "as_sessions (app (ay_world S)) (rv_id r) = Some s" and "\<not> is_paused s (mem (ay_world S))"
  shows "\<exists>T m n. await_move H su S T \<and> ay_handlers T ! i = Dead
    \<and> transfer_status (rv_id r) (ay_world T) = JsonStatus \<lparr>tr_transfer_id = rv_id r, tr_bytes_received = m, tr_total_bytes = n, tr_status = InProgress\<rparr>"
  using dropped [of i S H su] assms by (intro exI [of _ "S\<lparr>ay_handlers := (ay_handlers S)[i := Dead]\<rparr>"]) (simp add: transfer_status_def)

end
