(* ===== verification/App_Types.thy ===== *)
theory App_Types
  imports App_Uploads
begin

text \<open>
  The types of the application's state, in the sense of the conventions the code relies on without checking
  them: maps are keyed by the ids of their values, a session lives in an allocated cell and has the direction
  of the side that made it, an active transfer and its session agree. Every move keeps them.
\<close>

section \<open>Types\<close>

definition session_typed :: "heap \<Rightarrow> TransferDirection \<Rightarrow> TransferSession \<Rightarrow> bool" where
  "session_typed m dir s \<longleftrightarrow> ts_direction s = dir \<and> ts_cell s < next_cell m"

definition entry_typed :: "heap \<Rightarrow> QueuedTransfer \<times> TransferSession \<Rightarrow> bool" where
  "entry_typed m e \<longleftrightarrow> qt_direction (fst e) = Send \<and> qt_status (fst e) = Connecting \<and> ts_id (snd e) = qt_id (fst e)
     \<and> ts_file_name (snd e) = qt_file_name (fst e) \<and> ts_total_bytes (snd e) = qt_total_bytes (fst e)
     \<and> session_typed m Send (snd e)"

definition waiting_typed :: "QueuedTransfer \<Rightarrow> bool" where
  "waiting_typed t \<longleftrightarrow> qt_direction t = Send \<and> qt_status t = Queued"

fun phase_typed :: "heap \<Rightarrow> phase \<Rightarrow> bool" where
  "phase_typed m (Popped e) = entry_typed m e"
| "phase_typed m (Sending e) = entry_typed m e"
| "phase_typed m _ = True"

definition pool_typed :: "pool \<Rightarrow> bool" where
  "pool_typed P \<longleftrightarrow> (\<forall>t \<in> set (pending (pl_queue P)). waiting_typed t)
     \<and> (\<forall>e \<in> set (active (pl_queue P)). entry_typed (pl_heap P) e)
     \<and> (\<forall>w \<in> set (pl_workers P). phase_typed (pl_heap P) (wk_phase w))"

definition engine_typed :: "heap \<Rightarrow> FileDropEngine \<Rightarrow> bool" where
  "engine_typed m eng \<longleftrightarrow> (\<forall>u s. as_sessions eng u = Some s \<longrightarrow> ts_id s = u \<and> session_typed m Receive s)
     \<and> peers.keyed (as_pairing eng) \<and> records.keyed (as_history eng) \<and> hs_path (as_history eng) = history_file (as_paths eng)"

definition handler_typed :: "heap \<Rightarrow> 'h handler \<Rightarrow> bool" where
  "handler_typed m h \<longleftrightarrow>
     (case reading h of
        None \<Rightarrow> True
      | Some r \<Rightarrow> ts_id (rv_session r) = rv_id r \<and> ts_total_bytes (rv_session r) = rv_total r \<and> session_typed m Receive (rv_session r))"

definition well_typed :: "'h application \<Rightarrow> bool" where
  "well_typed A \<longleftrightarrow> disk_ok (disk_of (proc A)) \<and> server_inv (proc A) \<and> pool_typed (task_view A)
     \<and> (\<forall>eng. rt_engine (rt (proc A)) = Some eng \<longrightarrow> engine_typed (heap_of (proc A)) eng)
     \<and> (\<forall>h \<in> set (uploads A). handler_typed (heap_of (proc A)) h)"

text \<open>A heap that grew keeps them.\<close>

lemma session_typed_grows: "session_typed m dir s \<Longrightarrow> next_cell m \<le> next_cell m' \<Longrightarrow> session_typed m' dir s"
  by (simp add: session_typed_def)

lemma entry_typed_grows: "entry_typed m e \<Longrightarrow> next_cell m \<le> next_cell m' \<Longrightarrow> entry_typed m' e"
  by (auto simp: entry_typed_def intro: session_typed_grows)

lemma phase_typed_grows: "phase_typed m ph \<Longrightarrow> next_cell m \<le> next_cell m' \<Longrightarrow> phase_typed m' ph"
  by (cases ph) (auto intro: entry_typed_grows)

lemma engine_typed_grows: "engine_typed m eng \<Longrightarrow> next_cell m \<le> next_cell m' \<Longrightarrow> engine_typed m' eng"
  by (auto simp: engine_typed_def intro: session_typed_grows)

lemma handler_typed_grows: "handler_typed m h \<Longrightarrow> next_cell m \<le> next_cell m' \<Longrightarrow> handler_typed m' h"
  by (auto simp: handler_typed_def intro: session_typed_grows split: option.splits)

lemma pool_typed_grows:
  "pool_typed P \<Longrightarrow> next_cell (pl_heap P) \<le> next_cell m \<Longrightarrow> pool_typed (P\<lparr>pl_heap := m, pl_events := es\<rparr>)"
  by (auto simp: pool_typed_def intro: entry_typed_grows phase_typed_grows)

lemmas typed_grows = engine_typed_grows handler_typed_grows

section \<open>Each move\<close>

lemma history_load_typed: "history_load de x r path d = Inr st \<Longrightarrow> records.keyed st \<and> hs_path st = path"
  by (auto simp: history_load_def records.keyed_def map_ok_def map_err_def split: option.splits sum.splits if_splits
      dest!: map_of_SomeD)

lemma engine_init_typed: "engine_init de dio xo re fresh name dir d = (Inr eng, d') \<Longrightarrow> engine_typed m eng"
  by (auto simp: engine_init_def Let_def engine_typed_def psm_new_keyed map_ok_def dest: history_load_typed
      split: prod.splits sum.splits)

lemma engine_typed_fields [simp]:
  "engine_typed m (eng\<lparr>as_queue := q\<rparr>) = engine_typed m eng"
  "peers.keyed pm \<Longrightarrow> engine_typed m eng \<Longrightarrow> engine_typed m (eng\<lparr>as_pairing := pm\<rparr>)"
  by (simp_all add: engine_typed_def)

lemma task_view_heap: "pl_heap (task_view A) = heap_of (proc A)"
  by (simp add: task_view_def)

lemma typed_call:
  assumes "plain_call (proc A) p" and "well_typed A"
  shows "well_typed (A\<lparr>proc := p\<rparr>)"
proof -
  note v = plain_call_view [OF assms(1)]
  have n: "next_cell (heap_of p) = next_cell (heap_of (proc A))" using v by (auto simp: apply_control_next)
  have "\<exists>es. task_view (A\<lparr>proc := p\<rparr>) = (task_view A)\<lparr>pl_heap := heap_of p, pl_events := es\<rparr>"
    using v by (auto simp: task_view_def)
  moreover have "engine_typed (heap_of p) eng" if e: "rt_engine (rt p) = Some eng" for eng
  proof (cases "rt_engine (rt (proc A))")
    case None
    with plain_call_engine [OF assms(1)] e show ?thesis by (auto dest: engine_init_typed)
  next
    case (Some old)
    then have "engine_typed (heap_of p) old" using assms(2) n by (auto simp: well_typed_def intro: engine_typed_grows)
    with plain_call_engine [OF assms(1)] e Some show ?thesis by (auto simp: engine_typed_def)
  qed
  moreover have "server_inv p" using server_inv_plain [OF assms(1)] assms(2) by (simp add: well_typed_def)
  moreover have "disk_ok (disk_of p)"
    using same_files_ok [OF plain_call_files [OF assms(1)]] assms(2) by (simp add: well_typed_def)
  ultimately show ?thesis using assms(2) n
    by (auto simp: well_typed_def task_view_heap intro!: pool_typed_grows intro: handler_typed_grows)
qed

lemma send_loop_typed:
  "list_all waiting_typed acc \<Longrightarrow> send_loop me d peer fresh paths acc = (r, ts) \<Longrightarrow> list_all waiting_typed ts"
  by (induction me d peer fresh paths acc arbitrary: r ts rule: send_loop.induct)
    (auto simp: waiting_typed_def split: sum.splits)

lemma pool_typed_submits:
  "pool_typed P \<Longrightarrow> list_all waiting_typed ts \<Longrightarrow>
    pool_typed (P\<lparr>pl_queue := fold enqueue ts (pl_queue P), pl_workers := pl_workers P @ map (worker_of addr) ts\<rparr>)"
  by (auto simp: pool_typed_def enqueues worker_of_def list_all_iff)

lemma typed_send:
  assumes "send_files sv pa me fresh host port peer paths (proc A) = (r, p, ws)" and "well_typed A"
  shows "well_typed (A\<lparr>proc := p, tasks := tasks A @ ws\<rparr>)"
proof (cases "p = proc A \<and> ws = []")
  case True
  with assms(2) show ?thesis by (simp add: well_typed_def task_view_def)
next
  case False
  then obtain eng addr ts where e: "rt_engine (rt (proc A)) = Some eng" "p = set_engine (eng\<lparr>as_queue := fold enqueue ts (as_queue eng)\<rparr>) (proc A)"
    "ws = map (worker_of addr) ts" "\<exists>r. send_loop me (disk_of (proc A)) peer fresh paths [] = (r, ts)"
    using assms(1) by (auto simp: send_files_def the_engine_def split: option.splits sum.splits prod.splits)
  then have "list_all waiting_typed ts" using send_loop_typed by (metis list.pred_inject(1))
  moreover have "task_view (A\<lparr>proc := p, tasks := tasks A @ ws\<rparr>)
      = (task_view A)\<lparr>pl_queue := fold enqueue ts (pl_queue (task_view A)), pl_workers := pl_workers (task_view A) @ map (worker_of addr) ts\<rparr>"
    using e by (simp add: task_view_def queue_of_def)
  ultimately have "pool_typed (task_view (A\<lparr>proc := p, tasks := tasks A @ ws\<rparr>))"
    using assms(2) by (simp add: well_typed_def pool_typed_submits)
  with assms(2) e show ?thesis by (simp add: well_typed_def server_inv_def set_engine_def)
qed

lemma pool_typed_goto:
  assumes "pool_typed P" and "next_cell (pl_heap P) \<le> next_cell m" and "phase_typed m ph"
    and "\<forall>t \<in> set (pending q). waiting_typed t" and "\<forall>e \<in> set (active q). entry_typed m e"
  shows "pool_typed (goto i ph (P\<lparr>pl_queue := q, pl_heap := m, pl_events := es\<rparr>))"
proof -
  have "phase_typed m (wk_phase w)" if w: "w \<in> set ((pl_workers P)[i := (pl_workers P ! i)\<lparr>wk_phase := ph\<rparr>])" for w
  proof -
    consider "w = (pl_workers P ! i)\<lparr>wk_phase := ph\<rparr>" | "w \<in> set (pl_workers P)"
      using w set_update_subset_insert [of "pl_workers P" i "(pl_workers P ! i)\<lparr>wk_phase := ph\<rparr>"] by blast
    then show ?thesis
    proof cases
      case 1
      with assms(3) show ?thesis by simp
    next
      case 2
      with assms(1) have "phase_typed (pl_heap P) (wk_phase w)" by (simp add: pool_typed_def)
      with assms(2) show ?thesis by (rule phase_typed_grows [rotated])
    qed
  qed
  with assms(4,5) show ?thesis by (simp add: pool_typed_def goto_def)
qed

lemma pool_typed_work:
  assumes "work E io i P = Some P'" and "i < length (pl_workers P)" and "pool_typed P"
  shows "pool_typed P'"
proof -
  let ?w = "pl_workers P ! i"
  have t: "\<forall>t \<in> set (pending (pl_queue P)). waiting_typed t" "\<forall>e \<in> set (active (pl_queue P)). entry_typed (pl_heap P) e"
    "phase_typed (pl_heap P) (wk_phase ?w)" using assms(2,3) by (simp_all add: pool_typed_def)
  note g = pool_typed_goto [OF assms(3), of "pl_heap P" _ _ i "pl_events P"]
  show ?thesis
  proof (cases "wk_phase ?w")
    case Start
    with assms(1) t g [of Holding] show ?thesis by (auto simp: work_def Let_def acquire_permit_def split: if_split_asm)
  next
    case Holding
    show ?thesis
    proof (cases "pending (pl_queue P)")
      case Nil
      with assms(1) Holding t g [of Done "drop_permit (pl_queue P)"] show ?thesis
        by (auto simp: work_def Let_def pop_pending_def drop_permit_def)
    next
      case (Cons x xs)
      obtain s h where n: "session_new (qt_id x) (qt_file_name x) (qt_total_bytes x) (qt_direction x) (wi_now io) (pl_heap P)
          = (s, h)" by fastforce
      then have "next_cell (pl_heap P) \<le> next_cell h" "entry_typed h (x\<lparr>qt_status := Connecting\<rparr>, s)"
        using t(1) Cons by (auto simp: session_new_def entry_typed_def session_typed_def waiting_typed_def)
      with assms(1) Holding Cons t n show ?thesis
        using pool_typed_goto [OF assms(3), of h "Popped (x\<lparr>qt_status := Connecting\<rparr>, s)" "(pl_queue P)\<lparr>pending := xs\<rparr>" i "pl_events P"]
        by (auto simp: work_def Let_def pop_pending_def intro: entry_typed_grows)
    qed
  next
    case (Popped e)
    with assms(1) t pool_typed_goto [OF assms(3), of "pl_heap P" "Sending e" "push_active e (pl_queue P)" i] show ?thesis
      by (auto simp: work_def Let_def push_active_def)
  next
    case (Sending e)
    then obtain report h where r: "send_and_report E io ?w (snd e) (pl_heap P) = Some (report, h)"
      and P': "P' = goto i Sent (P\<lparr>pl_heap := h, pl_events := pl_events P @ [report]\<rparr>)"
      using assms(1) by (auto simp: work_def Let_def)
    have "next_cell (pl_heap P) \<le> next_cell h" using send_and_report_flags [OF r] by (simp add: same_flags_def)
    then show ?thesis using t pool_typed_goto [OF assms(3), of h Sent "pl_queue P" i "pl_events P @ [report]"]
      by (auto simp: P' intro: entry_typed_grows)
  next
    case Sent
    with assms(1) t g [of Marked "mark_finished (wk_id ?w) (pl_queue P)"] show ?thesis
      by (auto simp: work_def Let_def mark_finished_def)
  next
    case Marked
    with assms(1) t g [of Done "drop_permit (pl_queue P)"] show ?thesis by (auto simp: work_def Let_def drop_permit_def)
  next
    case Done
    with assms(1) show ?thesis by (simp add: work_def)
  qed
qed

lemma typed_task:
  assumes "pool_of (tasks A) (proc A) = Some P" and "worker_move E P P'" and "well_typed A"
  shows "well_typed (A\<lparr>proc := put_pool P' (proc A), tasks := pl_workers P'\<rparr>)"
proof -
  obtain eng where e: "rt_engine (rt (proc A)) = Some eng" and P: "P = task_view A"
    using assms(1) task_view_engine [OF assms(1)] by (auto simp: pool_of_def)
  obtain io i where w: "i < length (pl_workers P)" "work E io i P = Some P'" using assms(2) by (auto elim: worker_move_cases)
  have n: "next_cell (heap_of (proc A)) \<le> next_cell (pl_heap P')"
    using work_cells [OF w(2,1)] by (simp add: P task_view_heap same_flags_def)
  have "pool_typed P'" using pool_typed_work [OF w(2,1)] assms(3) P by (simp add: well_typed_def)
  moreover have "task_view (A\<lparr>proc := put_pool P' (proc A), tasks := pl_workers P'\<rparr>) = P'"
    using e by (simp add: task_view_def put_pool_def)
  ultimately show ?thesis using assms(3) e n
    by (auto simp: well_typed_def put_pool_def server_inv_def set_engine_def intro: typed_grows)
qed

text \<open>The server: the sessions it enters and those it removes.\<close>

lemma begin_typed:
  assumes "receive_begin H su io now u hdr w = (h, w')" and "\<forall>u s. as_sessions (app w) u = Some s \<longrightarrow> ts_id s = u \<and> session_typed (mem w) Receive s"
  shows "(\<forall>u s. as_sessions (app w') u = Some s \<longrightarrow> ts_id s = u \<and> session_typed (mem w') Receive s) \<and> handler_typed (mem w') h"
proof -
  have "\<exists>e. h = Responded e \<or> h = Panicked \<Longrightarrow> app w' = app w \<and> mem w' = mem w"
    using assms(1) by (auto simp: receive_begin_def receive_open_def Let_def split: option.splits sum.splits prod.splits if_splits)
  moreover have "h = Receiving r \<Longrightarrow> as_sessions (app w') = (as_sessions (app w))(ts_id (rv_session r) \<mapsto> rv_session r)
      \<and> next_cell (mem w') = Suc (next_cell (mem w)) \<and> ts_id (rv_session r) = rv_id r \<and> ts_total_bytes (rv_session r) = rv_total r
      \<and> ts_direction (rv_session r) = Receive \<and> ts_cell (rv_session r) = next_cell (mem w)" for r
    using assms(1) by (auto simp: receive_begin_def receive_open_def Let_def new_receiver_def session_new_def with_initial_bytes_def
        update_cell_def insert_session_def split: option.splits sum.splits prod.splits if_splits)
  moreover have "h \<noteq> Waiting r c" for r c
    using assms(1) by (auto simp: receive_begin_def receive_open_def Let_def split: option.splits sum.splits prod.splits if_splits)
  ultimately show ?thesis using assms(2) by (cases h) (auto simp: handler_typed_def session_typed_def less_Suc_eq)
qed

lemma begin_disk_ok: "receive_begin H su io now u hdr w = (h, w') \<Longrightarrow> disk_ok (fs w) \<Longrightarrow> disk_ok (fs w')"
proof -
  have "disk_ok d \<Longrightarrow> disk_open t p (create_dir_all q d) = (f, e) \<Longrightarrow> disk_ok e" for d t p q f e
    using disk_ok_open [of "create_dir_all q d" t p] by (simp add: disk_simps)
  then show "receive_begin H su io now u hdr w = (h, w') \<Longrightarrow> disk_ok (fs w) \<Longrightarrow> disk_ok (fs w')"
    by (auto simp: receive_begin_def receive_open_def Let_def disk_simps split: option.splits sum.splits prod.splits if_splits)
qed

lemma step_typed:
  assumes "recv_step H su x (h, w) = Some (h', w')"
  shows "(\<forall>u s. as_sessions (app w') u = Some s \<longrightarrow> as_sessions (app w) u = Some s) \<and> next_cell (mem w') = next_cell (mem w)
    \<and> (handler_typed (mem w) h \<longrightarrow> handler_typed (mem w') h')"
proof -
  have r: "rename_into_place io r w = (a, v) \<Longrightarrow> mem v = mem w \<and> (\<forall>u s. as_sessions (app v) u = Some s \<longrightarrow> as_sessions (app w) u = Some s)"
    for io a v and r :: "'a receiver"
    by (auto simp: rename_into_place_def remove_session_def split: option.split_asm if_splits)
  have v: "verify_and_rename H su io r w = Some (a, v) \<Longrightarrow> mem v = mem w \<and> (\<forall>u s. as_sessions (app v) u = Some s \<longrightarrow> as_sessions (app w) u = Some s)"
    for io r a v by (erule verify_cases) (auto simp: remove_file_def remove_session_def dest: r split: if_splits)
  show ?thesis
    using assms
    by (cases "(H, su, x, h, w)" rule: recv_step.cases)
      (auto simp: write_chunk_def receive_end_def remove_file_def remove_session_def handler_typed_def session_typed_def
        apply_control_next add_bytes_def cell_simps split: if_split_asm option.split_asm prod.split_asm dest!: v)
qed

lemma typed_serve:
  assumes "world_of (proc A) = Some w" and "same_but_sessions (app w) (app w')" and "well_typed A" and "disk_ok (fs w')"
    and n: "next_cell (mem w) \<le> next_cell (mem w')"
    and "\<forall>u s. as_sessions (app w') u = Some s \<longrightarrow> ts_id s = u \<and> session_typed (mem w') Receive s"
    and "handler_typed (mem w') h" and "set hs \<subseteq> insert h (set (uploads A))"
  shows "well_typed (A\<lparr>proc := put_world w' (proc A), uploads := hs\<rparr>)"
proof -
  obtain eng where e: "rt_engine (rt (proc A)) = Some eng"
    and p: "put_world w' (proc A) = set_engine (eng\<lparr>as_sessions := as_sessions (app w')\<rparr>) (proc A\<lparr>heap_of := mem w', disk_of := fs w'\<rparr>)"
    using put_world_view [OF assms(1,2)] by blast
  have m: "heap_of (proc A) = mem w" using assms(1) by (auto simp: world_of_def)
  have v: "task_view (A\<lparr>proc := put_world w' (proc A), uploads := hs\<rparr>) = (task_view A)\<lparr>pl_heap := mem w', pl_events := pl_events (task_view A)\<rparr>"
    using e by (simp add: task_view_def queue_of_def p)
  have "pool_typed (task_view A)" using assms(3) by (simp add: well_typed_def)
  then have "pool_typed (task_view (A\<lparr>proc := put_world w' (proc A), uploads := hs\<rparr>))"
    unfolding v using n m by (intro pool_typed_grows) (simp_all add: task_view_heap)
  moreover have "engine_typed (mem w') (eng\<lparr>as_sessions := as_sessions (app w')\<rparr>)"
    using assms(3,6) e by (simp add: well_typed_def engine_typed_def)
  moreover have "handler_typed (mem w') g" if "g \<in> set hs" for g
    using that assms(3,7,8) n m by (auto simp: well_typed_def intro: handler_typed_grows)
  ultimately show ?thesis using assms(3,4) by (simp add: well_typed_def p server_inv_def set_engine_def)
qed

lemma typed_move: "app_move E A B \<Longrightarrow> well_typed A \<Longrightarrow> well_typed B"
proof (induction rule: app_move.induct)
  case (call A p)
  then show ?case by (blast intro: typed_call)
next
  case (send sv pa me fresh host port peer paths A r p ws)
  then show ?case by (blast intro: typed_send)
next
  case (task A P P')
  then show ?case by (blast intro: typed_task)
next
  case (request A w io now u hdr h w')
  have e: "\<forall>u s. as_sessions (app w) u = Some s \<longrightarrow> ts_id s = u \<and> session_typed (mem w) Receive s" and d: "disk_ok (fs w)"
    using request(1,3) by (auto simp: world_of_def well_typed_def engine_typed_def engine_router_def)
  have b: "same_but_sessions (app w) (app w')" "next_cell (mem w) \<le> next_cell (mem w')"
    using receive_begin_app [OF request(2)] by (simp_all add: same_flags_def)
  show ?case
    using typed_serve [OF request(1) b(1) request(3) begin_disk_ok [OF request(2) d] b(2)] begin_typed [OF request(2) e] by auto
next
  case (upload A w i x h w')
  have e: "\<forall>u s. as_sessions (app w) u = Some s \<longrightarrow> ts_id s = u \<and> session_typed (mem w) Receive s" and d: "disk_ok (fs w)"
    and t: "handler_typed (mem w) (uploads A ! i)"
    using upload(1,2,5) by (auto simp: world_of_def well_typed_def engine_typed_def engine_router_def)
  note s = step_typed [OF upload(4)]
  have "disk_ok (fs w')" using step_touches [OF upload(4)] touched_ok d by blast
  moreover have "\<forall>u s. as_sessions (app w') u = Some s \<longrightarrow> ts_id s = u \<and> session_typed (mem w') Receive s"
    using s e by (metis session_typed_def)
  ultimately show ?case
    using s t set_update_subset_insert [of "uploads A" i h] upload(1,5) recv_step_sessions [OF upload(4)]
    by (intro typed_serve [where w = w and h = h]) auto
qed

interpretation typing: invariant_system "app_move E" well_typed for E
  by unfold_locales (rule typed_move)

lemma well_typed_new: "disk_ok d \<Longrightarrow> well_typed (app_new h d)"
  by (simp add: well_typed_def app_new_def process_new_inv task_view_def pool_typed_def queue_of_def queue_new_def)
    (simp add: process_new_def runtime_new_def queue_new_def)

section \<open>Properties\<close>

text \<open>C7: the state of the application stays well typed: after any interleaving of calls, tasks, arrivals and upload
  steps from a start on a sound disk, every session the server knows is stored under its own id, receives
  and lives in an allocated cell, every active transfer agrees with the session that sends it and every
  waiting one is queued to be sent, pairing requests and history records are keyed by their ids, the
  history's file is that of the data directory, and the one server running is the one that can be stopped.\<close>

theorem app_well_typed:
  assumes "(app_move E)\<^sup>*\<^sup>* (app_new h d) A" and "disk_ok d"
  shows "well_typed A"
  using typing.run_inv [OF assms(1) well_typed_new [OF assms(2)]] .

theorem app_well_typed_witness:
  "well_typed sample_app \<and> rt_engine (rt (proc sample_app)) \<noteq> None"
  using app_well_typed [OF sample_app_reached [of sample_env] abc_disk_ok] sample_app_engine by auto

end
