(* ===== verification/C_Abi.thy ===== *)
theory C_Abi
  imports Api
begin

text \<open>
  \<^verbatim>\<open>filedrop-ffi/src/c_abi.rs\<close>: the C functions Dart calls. A \<^verbatim>\<open>*const c_char\<close> argument is \<open>None\<close> when it is
  null and otherwise the bytes in memory from there on; a reply is the bytes of the block whose pointer is
  returned, its final NUL included. The JSON encoders and decoders of serde_json and the parser of uuids are
  the fields of \<open>json_api\<close>; what each function of \<open>Api\<close> is given by the system is passed on to it.
\<close>

section \<open>C strings\<close>

type_synonym c_str = "byte list option"

text \<open>\<^verbatim>\<open>CString::new\<close> fails on an interior NUL.\<close>

definition cstring_new :: "rstring \<Rightarrow> byte list option" where
  "cstring_new s = (if list_ex (\<lambda>b. b = 0) (utf8 s) then None else Some (utf8 s @ [0]))"

text \<open>A literal between double quotes.\<close>

definition quoted :: "string \<Rightarrow> rstring" where
  "quoted s = 34 # lit s @ [34]"

definition interior_nul :: rstring where
  "interior_nul = lit ''{'' @ quoted ''error'' @ lit '':'' @ quoted ''interior NUL in response'' @ lit ''}''"

definition to_c_string :: "rstring \<Rightarrow> byte list" where
  "to_c_string s = (case cstring_new s of Some cs \<Rightarrow> cs | None \<Rightarrow> utf8 interior_nul @ [0])"

definition from_c_string :: "c_str \<Rightarrow> rstring option" where
  "from_c_string ptr = Option.bind ptr (\<lambda>m. from_utf8 (takeWhile (\<lambda>b. b \<noteq> 0) m))"

text \<open>The blocks handed out by \<^verbatim>\<open>CString::into_raw\<close> and not freed yet. Freeing any other pointer is undefined
  behaviour: \<open>None\<close>.\<close>

record c_heap =
  blocks :: "nat \<rightharpoonup> byte list"
  next_block :: nat

definition into_raw :: "byte list \<Rightarrow> c_heap \<Rightarrow> nat \<times> c_heap" where
  "into_raw b m = (next_block m, m\<lparr>blocks := (blocks m)(next_block m \<mapsto> b), next_block := Suc (next_block m)\<rparr>)"

definition filedrop_free_string :: "nat option \<Rightarrow> c_heap \<Rightarrow> c_heap option" where
  "filedrop_free_string ptr m =
     (case ptr of
        None \<Rightarrow> Some m
      | Some a \<Rightarrow> if blocks m a = None then None else Some (m\<lparr>blocks := (blocks m)(a := None)\<rparr>))"

section \<open>Envelopes\<close>

record send_req =
  sr_peer_address :: rstring
  sr_peer_port :: u16
  sr_peer_device_id :: uuid
  sr_file_paths :: "rstring list"

record json_api =
  js_str :: "rstring \<Rightarrow> rstring + rstring"
  js_endpoint :: "ResolvedEndpointDto \<Rightarrow> rstring + rstring"
  js_devices :: "DiscoveredDeviceDto list \<Rightarrow> rstring + rstring"
  js_payload :: "QrPairingPayloadDto \<Rightarrow> rstring + rstring"
  js_ids :: "uuid list \<Rightarrow> rstring + rstring"
  js_progress :: "TransferProgressDto \<Rightarrow> rstring + rstring"
  js_history :: "TransferRecordDto list \<Rightarrow> rstring + rstring"
  js_event :: "FileDropEvent \<Rightarrow> rstring + rstring"
  jp_device :: "rstring \<Rightarrow> rstring + DiscoveredDeviceDto"
  jp_request :: "rstring \<Rightarrow> rstring + send_req"
  jp_uuid :: "rstring \<Rightarrow> uuid option"

definition str_or :: "rstring \<Rightarrow> rstring + rstring \<Rightarrow> rstring" where
  "str_or fallback r = (case r of Inr s \<Rightarrow> s | Inl _ \<Rightarrow> fallback)"

definition json_err :: "json_api \<Rightarrow> rstring \<Rightarrow> rstring" where
  "json_err J msg =
     lit ''{'' @ quoted ''ok'' @ lit '':false,'' @ quoted ''error'' @ lit '':'' @ str_or [] (js_str J msg) @ lit ''}''"

definition ok_or_err :: "json_api \<Rightarrow> rstring + unit \<Rightarrow> rstring" where
  "ok_or_err J result =
     (case result of Inr _ \<Rightarrow> lit ''{'' @ quoted ''ok'' @ lit '':true}'' | Inl e \<Rightarrow> json_err J e)"

text \<open>The envelope around a serialized value.\<close>

definition ok_with :: "json_api \<Rightarrow> string \<Rightarrow> rstring + rstring \<Rightarrow> rstring" where
  "ok_with J field r =
     (case r of
        Inr body \<Rightarrow> lit ''{'' @ quoted ''ok'' @ lit '':true,'' @ quoted field @ lit '':'' @ body @ lit ''}''
      | Inl _ \<Rightarrow> json_err J (lit ''serialization failure''))"

definition refuse :: "json_api \<Rightarrow> string \<Rightarrow> byte list" where
  "refuse J msg = to_c_string (json_err J (lit msg))"

section \<open>The functions\<close>

text \<open>\<open>init\<close> is \<open>init_engine\<close> with what the system gives it.\<close>

definition filedrop_init_engine ::
  "json_api \<Rightarrow> (uuid \<Rightarrow> rstring) \<Rightarrow> (byte list \<Rightarrow> rstring + TransferRecord list) \<Rightarrow> (rstring \<Rightarrow> rstring option) \<Rightarrow> bool \<Rightarrow>
   rstring option \<Rightarrow> uuid \<Rightarrow> c_str \<Rightarrow> c_str \<Rightarrow> process \<Rightarrow> byte list \<times> process" where
  "filedrop_init_engine J show_uuid de dir_io exists_ok read_err fresh device_name app_data p =
     (case from_c_string device_name of None \<Rightarrow> (refuse J ''invalid device_name'', p) | Some name \<Rightarrow>
     (case from_c_string app_data of None \<Rightarrow> (refuse J ''invalid app_data_dir'', p) | Some dir \<Rightarrow>
        (let (result, p') = init_engine show_uuid de dir_io exists_ok read_err fresh name dir p
         in (to_c_string
               (case result of
                  Inr device_id \<Rightarrow>
                    lit ''{'' @ quoted ''ok'' @ lit '':true,'' @ quoted ''device_id'' @ lit '':'' @ [34]
                      @ show_uuid device_id @ [34] @ lit ''}''
                | Inl e \<Rightarrow> json_err J e), p'))))"

definition filedrop_start_server ::
  "json_api \<Rightarrow> (uuid \<Rightarrow> rstring) \<Rightarrow> (128 word \<Rightarrow> rstring) \<Rightarrow> (u16 \<Rightarrow> bool) \<Rightarrow> (u16 \<Rightarrow> rstring + unit) \<Rightarrow>
   rstring + socket_addr \<Rightarrow> ip_addr list result \<Rightarrow> nat \<Rightarrow> process \<Rightarrow> byte list \<times> process" where
  "filedrop_start_server J show_uuid show_v6 bind_ok listen local_addr addresses tx p =
     (let (result, p') = start_server show_uuid show_v6 bind_ok listen local_addr addresses tx p
      in (to_c_string (case result of Inr e \<Rightarrow> ok_with J ''endpoint'' (js_endpoint J e) | Inl e \<Rightarrow> json_err J e), p'))"

definition filedrop_stop_server :: "json_api \<Rightarrow> process \<Rightarrow> byte list \<times> process" where
  "filedrop_stop_server J p = (let (result, p') = stop_server p in (to_c_string (ok_or_err J result), p'))"

definition filedrop_start_discovery ::
  "json_api \<Rightarrow> (uuid \<Rightarrow> rstring) \<Rightarrow> (rstring \<Rightarrow> 128 word option) \<Rightarrow> (service_info \<Rightarrow> rstring + unit) \<Rightarrow>
   (service_info \<Rightarrow> rstring + unit) \<Rightarrow> rstring + unit \<Rightarrow> rstring + unit \<Rightarrow> rstring + unit \<Rightarrow> c_str \<Rightarrow> process \<Rightarrow>
   byte list \<times> process" where
  "filedrop_start_discovery J show_uuid parse_v6 build register daemon browse sockets self_device p =
     (case from_c_string self_device of None \<Rightarrow> (refuse J ''invalid self_device_json'', p) | Some json \<Rightarrow>
     (case jp_device J json of
        Inl e \<Rightarrow> (to_c_string (json_err J (lit ''bad device json: '' @ e)), p)
      | Inr dto \<Rightarrow>
          (let (result, p') = start_discovery show_uuid parse_v6 build register daemon browse sockets dto p
           in (to_c_string (ok_or_err J result), p'))))"

definition filedrop_stop_discovery :: "json_api \<Rightarrow> (uuid \<Rightarrow> rstring) \<Rightarrow> process \<Rightarrow> byte list \<times> process" where
  "filedrop_stop_discovery J show_uuid p =
     (let (result, p') = stop_discovery show_uuid p in (to_c_string (ok_or_err J result), p'))"

definition filedrop_get_nearby_devices :: "json_api \<Rightarrow> uuid list \<Rightarrow> process \<Rightarrow> byte list" where
  "filedrop_get_nearby_devices J ks p =
     to_c_string (case get_nearby_devices ks p of Inr ds \<Rightarrow> str_or (lit ''[]'') (js_devices J ds) | Inl e \<Rightarrow> json_err J e)"

definition filedrop_pair_device ::
  "json_api \<Rightarrow> (128 word \<Rightarrow> rstring) \<Rightarrow> ip_addr list result \<Rightarrow> rstring \<Rightarrow> u64 option \<Rightarrow> u64 option \<Rightarrow> c_str \<Rightarrow> c_str \<Rightarrow>
   process \<Rightarrow> byte list \<times> process" where
  "filedrop_pair_device J show_v6 addresses tok t1 t2 peer_device_id peer_name p =
     (case (from_c_string peer_device_id, from_c_string peer_name) of
        (Some id_str, Some name) \<Rightarrow>
          (case jp_uuid J id_str of
             None \<Rightarrow> (refuse J ''invalid peer_device_id'', p)
           | Some u \<Rightarrow>
               (let (result, p') = pair_device show_v6 addresses tok t1 t2 u name p
                in (to_c_string (case result of Inr qr \<Rightarrow> ok_with J ''payload'' (js_payload J qr) | Inl e \<Rightarrow> json_err J e), p')))
      | _ \<Rightarrow> (refuse J ''invalid arguments'', p))"

definition filedrop_send_files ::
  "json_api \<Rightarrow> (128 word \<Rightarrow> rstring) \<Rightarrow> (rstring \<Rightarrow> rstring + socket_addr) \<Rightarrow> (rstring \<Rightarrow> rstring option) \<Rightarrow> uuid list \<Rightarrow>
   c_str \<Rightarrow> process \<Rightarrow> byte list \<times> process \<times> worker list" where
  "filedrop_send_files J show_v6 parse_addr meta_err fresh request_json p =
     (case from_c_string request_json of None \<Rightarrow> (refuse J ''invalid request_json'', p, []) | Some json \<Rightarrow>
     (case jp_request J json of
        Inl e \<Rightarrow> (to_c_string (json_err J (lit ''bad request json: '' @ e)), p, [])
      | Inr req \<Rightarrow>
          (let (result, p', ws) = send_files show_v6 parse_addr meta_err fresh (sr_peer_address req) (sr_peer_port req)
                                    (sr_peer_device_id req) (sr_file_paths req) p
           in (to_c_string (case result of Inr ids \<Rightarrow> ok_with J ''transfer_ids'' (js_ids J ids) | Inl e \<Rightarrow> json_err J e),
               p', ws))))"

text \<open>The macro \<^verbatim>\<open>transfer_id_fn\<close> and its five instances.\<close>

definition transfer_id_fn ::
  "json_api \<Rightarrow> (uuid \<Rightarrow> process \<Rightarrow> (rstring + unit) \<times> process) \<Rightarrow> c_str \<Rightarrow> process \<Rightarrow> byte list \<times> process" where
  "transfer_id_fn J api_fn transfer_id p =
     (case from_c_string transfer_id of None \<Rightarrow> (refuse J ''invalid transfer_id'', p) | Some id_str \<Rightarrow>
     (case jp_uuid J id_str of
        None \<Rightarrow> (refuse J ''transfer_id is not a valid UUID'', p)
      | Some u \<Rightarrow> (let (result, p') = api_fn u p in (to_c_string (ok_or_err J result), p'))))"

definition filedrop_accept_transfer where
  "filedrop_accept_transfer J show_uuid = transfer_id_fn J (accept_transfer show_uuid)"

definition filedrop_reject_transfer where
  "filedrop_reject_transfer J show_uuid = transfer_id_fn J (reject_transfer show_uuid)"

definition filedrop_pause_transfer where
  "filedrop_pause_transfer J show_uuid = transfer_id_fn J (pause_transfer show_uuid)"

definition filedrop_resume_transfer where
  "filedrop_resume_transfer J show_uuid = transfer_id_fn J (resume_transfer show_uuid)"

definition filedrop_cancel_transfer where
  "filedrop_cancel_transfer J show_uuid = transfer_id_fn J (cancel_transfer show_uuid)"

definition filedrop_get_transfer_status ::
  "json_api \<Rightarrow> (uuid \<Rightarrow> rstring) \<Rightarrow> (real \<Rightarrow> f64) \<Rightarrow> nat \<Rightarrow> c_str \<Rightarrow> process \<Rightarrow> byte list" where
  "filedrop_get_transfer_status J show_uuid fl now transfer_id p =
     (case from_c_string transfer_id of None \<Rightarrow> refuse J ''invalid transfer_id'' | Some id_str \<Rightarrow>
     (case jp_uuid J id_str of
        None \<Rightarrow> refuse J ''transfer_id is not a valid UUID''
      | Some u \<Rightarrow>
          to_c_string
            (case get_transfer_status show_uuid fl now u p of
               Inr progress \<Rightarrow> ok_with J ''progress'' (js_progress J progress)
             | Inl e \<Rightarrow> json_err J e)))"

definition filedrop_get_transfer_history :: "json_api \<Rightarrow> uuid list \<Rightarrow> process \<Rightarrow> byte list" where
  "filedrop_get_transfer_history J ks p =
     to_c_string (case get_transfer_history ks p of Inr h \<Rightarrow> str_or (lit ''[]'') (js_history J h) | Inl e \<Rightarrow> json_err J e)"

text \<open>What the channel yields within the 50 milliseconds of a poll; \<open>None\<close>: nothing.\<close>

definition polled :: "received option \<Rightarrow> FileDropEvent option" where
  "polled r = (case r of Some (Got_event e) \<Rightarrow> Some e | Some (Lagged _) \<Rightarrow> None | Some Closed \<Rightarrow> None | None \<Rightarrow> None)"

definition filedrop_poll_event :: "json_api \<Rightarrow> received option \<Rightarrow> byte list" where
  "filedrop_poll_event J r =
     to_c_string (case polled r of Some e \<Rightarrow> event_to_json (js_event J) e | None \<Rightarrow> lit ''null'')"

section \<open>Strings across the boundary\<close>

lemma utf8_append [simp]: "utf8 (a @ b) = utf8 a @ utf8 b" "utf8 [] = []"
  by (simp_all add: utf8_def)

lemma zero_byte: "rust_str s \<Longrightarrow> 0 \<in> set (utf8 s) \<longleftrightarrow> 0 \<in> set s"
proof -
  assume s: "rust_str s"
  have "(0 :: byte) \<in> set (utf8 s) \<longleftrightarrow> 0 \<in> set (map unat (utf8 s))" by (auto simp: unat_eq_0 image_iff)
  also have "\<dots> \<longleftrightarrow> 0 \<in> set s" by (auto simp: unat_utf8 [OF s] utf8_char_def split: if_splits)
  finally show ?thesis .
qed

lemma rust_str_lit: "list_all (\<lambda>c. of_char c < (128 :: nat)) t \<Longrightarrow> rust_str (lit t)"
  by (induction t) (simp_all add: lit_def rust_str_def scalar_def)

lemma interior_nul_text: "rust_str interior_nul" "0 \<notin> set interior_nul"
  by (simp_all add: interior_nul_def quoted_def lit_def rust_str_def scalar_def)

lemma cstring_new_Some: "rust_str s \<Longrightarrow> 0 \<notin> set s \<Longrightarrow> cstring_new s = Some (utf8 s @ [0])"
  by (simp add: cstring_new_def list_ex_iff zero_byte)

lemma cstring_new_None: "rust_str s \<Longrightarrow> 0 \<in> set s \<Longrightarrow> cstring_new s = None"
  by (auto simp: cstring_new_def list_ex_iff zero_byte)

lemma read_back: "rust_str s \<Longrightarrow> 0 \<notin> set s \<Longrightarrow> from_c_string (Some (utf8 s @ 0 # rest)) = Some s"
proof -
  assume s: "rust_str s" "0 \<notin> set s"
  then have "takeWhile (\<lambda>b. b \<noteq> 0) (utf8 s @ 0 # rest) = utf8 s" by (subst takeWhile_tail) (auto simp: zero_byte)
  with s show ?thesis by (simp add: from_c_string_def from_utf8_utf8)
qed

text \<open>Strings cross the boundary: a reply is one C string whose only NUL is its last byte, and reading it back
  from memory, whatever follows it there, gives the text that was sent, or the fixed error object when
  that text had a NUL in it.\<close>

theorem c_string_round_trip:
  assumes "rust_str s"
  shows "from_c_string (Some (to_c_string s @ rest)) = Some (if 0 \<in> set s then interior_nul else s)
    \<and> to_c_string s = utf8 (if 0 \<in> set s then interior_nul else s) @ [0]
    \<and> 0 \<notin> set (utf8 (if 0 \<in> set s then interior_nul else s))"
proof (cases "0 \<in> set s")
  case True
  then show ?thesis using assms interior_nul_text
    by (simp add: to_c_string_def cstring_new_None read_back zero_byte)
next
  case False
  then show ?thesis using assms by (simp add: to_c_string_def cstring_new_Some read_back zero_byte)
qed

theorem c_string_round_trip_witness:
  "from_c_string (Some (to_c_string [123, 0xE9, 125] @ [7, 8])) = Some [123, 0xE9, 125]"
proof -
  have "rust_str [123, 0xE9, 125]" by (simp add: rust_str_def scalar_def)
  from conjunct1 [OF c_string_round_trip [OF this, of "[7, 8]"]] show ?thesis by (simp only: list.set) simp
qed

lemma free_after_use:
  assumes "\<forall>a. blocks m a \<noteq> None \<longrightarrow> a < next_block m" and "into_raw b m = (a, m1)"
  shows "\<exists>m2. filedrop_free_string (Some a) m1 = Some m2 \<and> blocks m2 = blocks m \<and> filedrop_free_string (Some a) m2 = None"
    and "filedrop_free_string None m1 = Some m1"
proof -
  have "blocks m (next_block m) = None" using assms(1) by blast
  then have "(blocks m)(next_block m := None) = blocks m" by (simp add: fun_upd_idem)
  with assms(2) show "\<exists>m2. filedrop_free_string (Some a) m1 = Some m2 \<and> blocks m2 = blocks m
      \<and> filedrop_free_string (Some a) m2 = None"
    by (auto simp: into_raw_def filedrop_free_string_def)
  show "filedrop_free_string None m1 = Some m1" by (simp add: filedrop_free_string_def)
qed

section \<open>Replies\<close>

definition ok_reply :: "byte list" where
  "ok_reply = to_c_string (lit ''{'' @ quoted ''ok'' @ lit '':true}'')"

lemma ok_or_err_ok: "to_c_string (ok_or_err J (Inr u)) = ok_reply"
  by (simp add: ok_or_err_def ok_reply_def)

lemma error_not_ok: "to_c_string (json_err J msg) \<noteq> ok_reply"
proof -
  have o: "take 7 ok_reply = [123, 34, 111, 107, 34, 58, 116]"
    by (simp add: ok_reply_def to_c_string_def cstring_new_def quoted_def lit_def utf8_def utf8_char_def)
  have n: "take 7 (utf8 interior_nul @ [0]) = [123, 34, 101, 114, 114, 111, 114]"
    by (simp add: interior_nul_def quoted_def lit_def utf8_def utf8_char_def)
  have e: "take 7 (utf8 (json_err J msg) @ [0]) = [123, 34, 111, 107, 34, 58, 102]"
    by (simp add: json_err_def quoted_def lit_def utf8_def utf8_char_def)
  have "take 7 (to_c_string (json_err J msg)) \<noteq> take 7 ok_reply"
    unfolding to_c_string_def cstring_new_def o using n e by simp
  then show ?thesis by metis
qed

lemma refuse_not_ok: "refuse J msg \<noteq> ok_reply"
  by (simp add: refuse_def error_not_ok)

lemma transfer_id_fn_ok:
  "fst (transfer_id_fn J f a p) = ok_reply \<longleftrightarrow>
     (\<exists>s u. from_c_string a = Some s \<and> jp_uuid J s = Some u \<and> (\<exists>x. fst (f u p) = Inr x))"
  by (cases "from_c_string a"; cases "jp_uuid J (the (from_c_string a))"; cases "fst (f (the (jp_uuid J (the (from_c_string a)))) p)")
    (auto simp: transfer_id_fn_def refuse_not_ok ok_or_err_def error_not_ok ok_reply_def [symmetric] split: prod.splits)

lemma control_transfer_ok:
  "(\<exists>x. fst (control_transfer su c u p) = Inr x) \<longleftrightarrow>
     (\<exists>eng session. rt_engine (rt p) = Some eng \<and> find_session u (as_queue eng) = Some session)"
  "fst (control_transfer su c u p) = Inl e \<Longrightarrow> snd (control_transfer su c u p) = p"
  by (auto simp: control_transfer_def the_engine_def Let_def split: option.splits)


definition sample_json :: json_api where
  "sample_json = \<lparr>js_str = Inr, js_endpoint = (\<lambda>_. Inr []), js_devices = (\<lambda>_. Inr []), js_payload = (\<lambda>_. Inr []),
     js_ids = (\<lambda>_. Inr []), js_progress = (\<lambda>_. Inr []), js_history = (\<lambda>_. Inr []), js_event = (\<lambda>_. Inr []),
     jp_device = Inl, jp_request = Inl, jp_uuid = (\<lambda>s. if s = [49] then Some 1 else None)\<rparr>"


text \<open>The endpoint is one field of the reply, not the two fields the comment on the function gives.\<close>

lemma start_server_reply:
  "start_server su sv b l la ad tx p = (Inr e, p') \<Longrightarrow> js_endpoint J e = Inr body \<Longrightarrow>
    fst (filedrop_start_server J su sv b l la ad tx p) =
      to_c_string (lit ''{'' @ quoted ''ok'' @ lit '':true,'' @ quoted ''endpoint'' @ lit '':'' @ body @ lit ''}'')"
  by (simp add: filedrop_start_server_def ok_with_def)

end
