(* ===== verification/Sha256.thy ===== *)
theory Sha256
  imports Checksum
begin

text \<open>
  SHA-256 as FIPS 180-4 defines it, executable: the function the parameter \<open>hash_api\<close> stands for when the program
  runs. It shows that \<open>digest_law\<close> is met by the real algorithm, and lets the digests in the repository's tests
  be computed.
\<close>

unbundle bit_operations_syntax

definition rotr :: "nat \<Rightarrow> 32 word \<Rightarrow> 32 word" where
  "rotr n x = (drop_bit n x OR push_bit (32 - n) x)"

definition upper_sigma0 :: "32 word \<Rightarrow> 32 word" where
  "upper_sigma0 x = (rotr 2 x XOR rotr 13 x XOR rotr 22 x)"

definition upper_sigma1 :: "32 word \<Rightarrow> 32 word" where
  "upper_sigma1 x = (rotr 6 x XOR rotr 11 x XOR rotr 25 x)"

definition lower_sigma0 :: "32 word \<Rightarrow> 32 word" where
  "lower_sigma0 x = (rotr 7 x XOR rotr 18 x XOR drop_bit 3 x)"

definition lower_sigma1 :: "32 word \<Rightarrow> 32 word" where
  "lower_sigma1 x = (rotr 17 x XOR rotr 19 x XOR drop_bit 10 x)"

definition choose_bits :: "32 word \<Rightarrow> 32 word \<Rightarrow> 32 word \<Rightarrow> 32 word" where
  "choose_bits x y z = ((x AND y) XOR (NOT x AND z))"

definition majority_bits :: "32 word \<Rightarrow> 32 word \<Rightarrow> 32 word \<Rightarrow> 32 word" where
  "majority_bits x y z = ((x AND y) XOR (x AND z) XOR (y AND z))"

text \<open>The round constants, each beside the prime whose cube root it comes from: the first 32 bits of its fraction.\<close>

definition cube_root_bits :: "(nat \<times> 32 word) list" where
  "cube_root_bits =
    [(2, 0x428a2f98), (3, 0x71374491), (5, 0xb5c0fbcf), (7, 0xe9b5dba5), (11, 0x3956c25b), (13, 0x59f111f1),
     (17, 0x923f82a4), (19, 0xab1c5ed5), (23, 0xd807aa98), (29, 0x12835b01), (31, 0x243185be), (37, 0x550c7dc3),
     (41, 0x72be5d74), (43, 0x80deb1fe), (47, 0x9bdc06a7), (53, 0xc19bf174), (59, 0xe49b69c1), (61, 0xefbe4786),
     (67, 0x0fc19dc6), (71, 0x240ca1cc), (73, 0x2de92c6f), (79, 0x4a7484aa), (83, 0x5cb0a9dc), (89, 0x76f988da),
     (97, 0x983e5152), (101, 0xa831c66d), (103, 0xb00327c8), (107, 0xbf597fc7), (109, 0xc6e00bf3), (113, 0xd5a79147),
     (127, 0x06ca6351), (131, 0x14292967), (137, 0x27b70a85), (139, 0x2e1b2138), (149, 0x4d2c6dfc), (151, 0x53380d13),
     (157, 0x650a7354), (163, 0x766a0abb), (167, 0x81c2c92e), (173, 0x92722c85), (179, 0xa2bfe8a1), (181, 0xa81a664b),
     (191, 0xc24b8b70), (193, 0xc76c51a3), (197, 0xd192e819), (199, 0xd6990624), (211, 0xf40e3585), (223, 0x106aa070),
     (227, 0x19a4c116), (229, 0x1e376c08), (233, 0x2748774c), (239, 0x34b0bcb5), (241, 0x391c0cb3), (251, 0x4ed8aa4a),
     (257, 0x5b9cca4f), (263, 0x682e6ff3), (269, 0x748f82ee), (271, 0x78a5636f), (277, 0x84c87814), (281, 0x8cc70208),
     (283, 0x90befffa), (293, 0xa4506ceb), (307, 0xbef9a3f7), (311, 0xc67178f2)]"

definition round_constants :: "32 word list" where
  "round_constants = map snd cube_root_bits"

definition is_cube_root_fraction :: "nat \<times> 32 word \<Rightarrow> bool" where
  "is_cube_root_fraction pk =
     (let r = length (takeWhile (\<lambda>i. i ^ 3 \<le> fst pk) [1, 2, 3, 4, 5, 6, 7]) * 2 ^ 32 + unat (snd pk)
      in r ^ 3 \<le> fst pk * 2 ^ 96 \<and> fst pk * 2 ^ 96 < Suc r ^ 3)"

lemma constants_are_cube_roots: "list_all is_cube_root_fraction cube_root_bits"
  by (simp add: cube_root_bits_def is_cube_root_fraction_def)

datatype sha_state = Sha "32 word" "32 word" "32 word" "32 word" "32 word" "32 word" "32 word" "32 word"

definition initial_state :: sha_state where
  "initial_state = Sha 0x6a09e667 0xbb67ae85 0x3c6ef372 0xa54ff53a 0x510e527f 0x9b05688c 0x1f83d9ab 0x5be0cd19"

fun add_state :: "sha_state \<Rightarrow> sha_state \<Rightarrow> sha_state" where
  "add_state (Sha a b c d e f g h) (Sha a' b' c' d' e' f' g' h') =
     Sha (a + a') (b + b') (c + c') (d + d') (e + e') (f + f') (g + g') (h + h')"

fun turn :: "sha_state \<Rightarrow> 32 word \<Rightarrow> 32 word \<Rightarrow> sha_state" where
  "turn (Sha a b c d e f g h) t1 t2 = Sha (t1 + t2) a b c (d + t1) e f g"

fun sha_round :: "32 word \<times> 32 word \<Rightarrow> sha_state \<Rightarrow> sha_state" where
  "sha_round (k, w) (Sha a b c d e f g h) =
     turn (Sha a b c d e f g h) (h + upper_sigma1 e + choose_bits e f g + k + w) (upper_sigma0 a + majority_bits a b c)"

text \<open>The message schedule, newest word first.\<close>

primrec schedule :: "nat \<Rightarrow> 32 word list \<Rightarrow> 32 word list" where
  "schedule 0 ws = ws"
| "schedule (Suc n) ws = schedule n ((lower_sigma1 (ws ! 1) + ws ! 6 + lower_sigma0 (ws ! 14) + ws ! 15) # ws)"

definition compress :: "32 word list \<Rightarrow> sha_state \<Rightarrow> sha_state" where
  "compress block s = add_state s (fold sha_round (zip round_constants (rev (schedule 48 (rev block)))) s)"

fun big_endian_words :: "byte list \<Rightarrow> 32 word list" where
  "big_endian_words (a # b # c # d # rest) =
     (push_bit 24 (ucast a) OR push_bit 16 (ucast b) OR push_bit 8 (ucast c) OR ucast d) # big_endian_words rest"
| "big_endian_words _ = []"

function compress_all :: "32 word list \<Rightarrow> sha_state \<Rightarrow> sha_state" where
  "compress_all ws s = (if ws = [] then s else compress_all (drop 16 ws) (compress (take 16 ws) s))"
  by pat_completeness auto
termination
  by (relation "measure (length \<circ> fst)") auto

declare compress_all.simps [simp del]

definition word_bytes :: "32 word \<Rightarrow> byte list" where
  "word_bytes w = [ucast (drop_bit 24 w), ucast (drop_bit 16 w), ucast (drop_bit 8 w), ucast w]"

fun state_bytes :: "sha_state \<Rightarrow> byte list" where
  "state_bytes (Sha a b c d e f g h) = concat (map word_bytes [a, b, c, d, e, f, g, h])"

definition length_bytes :: "nat \<Rightarrow> byte list" where
  "length_bytes n = map (\<lambda>i. ucast (drop_bit i (of_nat (8 * n) :: 64 word))) [56, 48, 40, 32, 24, 16, 8, 0]"

definition padded :: "byte list \<Rightarrow> byte list" where
  "padded m = m @ 0x80 # replicate ((119 - length m mod 64) mod 64) 0 @ length_bytes (length m)"

definition sha256 :: "byte list \<Rightarrow> byte list" where
  "sha256 m = state_bytes (compress_all (big_endian_words (padded m)) initial_state)"

text \<open>An implementation of the crate's interface that keeps what it was fed.\<close>

definition sha256_api :: "byte list hash_api" where
  "sha256_api = \<lparr>h_new = [], h_update = (@), h_finalize = sha256\<rparr>"

lemma sha256_length: "length (sha256 m) = 32"
  by (cases "compress_all (big_endian_words (padded m)) initial_state") (simp add: sha256_def word_bytes_def)

lemma sha256_law: "digest_law sha256_api sha256"
  by (simp add: digest_law_def sha256_api_def foldl_append_concat sha256_length)

lemma padding_fills: "r < 64 \<Longrightarrow> 64 dvd r + 9 + (119 - r) mod 64" for r :: nat
proof (cases "r \<le> 55")
  case True
  then have "119 - r = 64 + (55 - r)" by simp
  moreover have "(64 + (55 - r)) mod 64 = 55 - r" using mod_less [of "55 - r" 64] by simp
  ultimately show ?thesis using True by simp
next
  case False
  assume "r < 64"
  with False have "(119 - r) mod 64 = 119 - r" by (intro mod_less) simp
  with False \<open>r < 64\<close> have "r + 9 + (119 - r) mod 64 = 64 * 2" by simp
  then show ?thesis by (metis dvd_triv_left)
qed

lemma padded_blocks: "64 dvd length (padded m)"
proof -
  have "length (padded m) = 64 * (length m div 64) + (length m mod 64 + 9 + (119 - length m mod 64) mod 64)"
    using mult_div_mod_eq [of 64 "length m"] by (simp add: padded_def length_bytes_def)
  moreover have "64 dvd length m mod 64 + 9 + (119 - length m mod 64) mod 64" by (rule padding_fills) simp
  ultimately show ?thesis by (metis dvd_add dvd_triv_left)
qed

text \<open>The digest of the text \<^verbatim>\<open>hello world\<close>, in stages: its block, the schedule, sixteen rounds at a time.\<close>

definition hello_bytes :: "byte list" where
  "hello_bytes = [104, 101, 108, 108, 111, 32, 119, 111, 114, 108, 100]"

definition hello_schedule :: "32 word list" where
  "hello_schedule =
    [0x68656c6c, 0x6f20776f, 0x726c6480, 0x00000000, 0x00000000, 0x00000000, 0x00000000, 0x00000000,
     0x00000000, 0x00000000, 0x00000000, 0x00000000, 0x00000000, 0x00000000, 0x00000000, 0x00000058,
     0x37470237, 0x86d0c031, 0xd3bd110b, 0x783f4782, 0x2a907ced, 0x4b2f7cc9, 0x31e1945d, 0x89364964,
     0x7f7a06da, 0xc179a93a, 0xbbe8f655, 0x0c1ae3e6, 0xb0fe0d7d, 0x5f6e5593, 0x00899b52, 0x07f1ca94,
     0x3b5fe5d6, 0x686562e6, 0xc84e0a9e, 0x06af9b25, 0x92ef64d7, 0x63f95e5a, 0xe31667d7, 0x843bde16,
     0xeeeca85b, 0xa04ff221, 0xf918adb8, 0x14a89219, 0x1084531d, 0x6093e0cd, 0x83035fe9, 0xd5ae7938,
     0x393f05ad, 0xfb4b1bef, 0xeb75ff29, 0x6a369534, 0x22fc9cd8, 0xa9740d2b, 0x60cf3885, 0xc4ac983a,
     0x1142fdad, 0xb0b01dd9, 0x98f0c36f, 0x7217b81e, 0xa2d4679a, 0x010f997b, 0xfc174f0a, 0xc2c2eb16]"

lemma hello_block: "big_endian_words (padded hello_bytes) = take 16 hello_schedule"
  by code_simp

lemma hello_schedule: "rev (schedule 48 (rev (take 16 hello_schedule))) = hello_schedule"
  by code_simp

lemma hello_rounds_1:
  "fold sha_round (zip (take 16 (drop 0 round_constants)) (take 16 (drop 0 hello_schedule)))
      (Sha 0x6a09e667 0xbb67ae85 0x3c6ef372 0xa54ff53a 0x510e527f 0x9b05688c 0x1f83d9ab 0x5be0cd19) =
    Sha 0x829e492b 0xd63e2c26 0x4354f5d2 0x14331d35 0xa8ac99c4 0x1d13ea2b 0x4a0a41c5 0xa1fd6572"
  by code_simp

lemma hello_rounds_2:
  "fold sha_round (zip (take 16 (drop 16 round_constants)) (take 16 (drop 16 hello_schedule)))
      (Sha 0x829e492b 0xd63e2c26 0x4354f5d2 0x14331d35 0xa8ac99c4 0x1d13ea2b 0x4a0a41c5 0xa1fd6572) =
    Sha 0x86882a8c 0x6460b31a 0xa7c8c0c8 0x24118386 0xddcadebe 0x3e7738bc 0x058b0a6e 0x16808d93"
  by code_simp

lemma hello_rounds_3:
  "fold sha_round (zip (take 16 (drop 32 round_constants)) (take 16 (drop 32 hello_schedule)))
      (Sha 0x86882a8c 0x6460b31a 0xa7c8c0c8 0x24118386 0xddcadebe 0x3e7738bc 0x058b0a6e 0x16808d93) =
    Sha 0xc0e967d9 0xd4802268 0xb089bcac 0xc834cdb2 0xb66968ea 0x5633b810 0x92eb8b4a 0x812665c6"
  by code_simp

lemma hello_rounds_4:
  "fold sha_round (zip (take 16 (drop 48 round_constants)) (take 16 (drop 48 hello_schedule)))
      (Sha 0xc0e967d9 0xd4802268 0xb089bcac 0xc834cdb2 0xb66968ea 0x5633b810 0x92eb8b4a 0x812665c6) =
    Sha 0x4f434152 0xd7e58f83 0x68bf5f65 0x352db6c0 0x73769d64 0xdf4e1862 0x71051e01 0x870f00d0"
  by code_simp

lemma fold_zip_split:
  "fold f (zip xs ys) s = fold f (zip (drop n xs) (drop n ys)) (fold f (zip (take n xs) (take n ys)) s)"
  by (metis append_take_drop_id comp_apply drop_zip fold_append take_zip)

lemma hello_compressed: "compress (take 16 hello_schedule) initial_state =
    Sha 0xb94d27b9 0x934d3e08 0xa52e52d7 0xda7dabfa 0xc484efe3 0x7a5380ee 0x9088f7ac 0xe2efcde9"
proof -
  have l: "drop 48 round_constants = take 16 (drop 48 round_constants)" "drop 48 hello_schedule = take 16 (drop 48 hello_schedule)"
    by (simp_all add: round_constants_def cube_root_bits_def hello_schedule_def)
  note rounds = hello_rounds_1 [simplified] hello_rounds_2 hello_rounds_3 hello_rounds_4
  have "fold sha_round (zip round_constants hello_schedule) initial_state = Sha 0x4f434152 0xd7e58f83 0x68bf5f65 0x352db6c0 0x73769d64 0xdf4e1862 0x71051e01 0x870f00d0"
    unfolding fold_zip_split [of _ round_constants hello_schedule _ 16]
      fold_zip_split [of _ "drop 16 round_constants" "drop 16 hello_schedule" _ 16]
      fold_zip_split [of _ "drop 16 (drop 16 round_constants)" "drop 16 (drop 16 hello_schedule)" _ 16]
    using l rounds by (simp add: initial_state_def)
  then show ?thesis by (simp add: compress_def hello_schedule initial_state_def)
qed

lemma sha256_hello:
  "hex_encode (sha256 hello_bytes) = lit ''b94d27b9934d3e08a52e52d7da7dabfac484efe37a5380ee9088f7ace2efcde9''"
proof -
  have "take 16 hello_schedule \<noteq> []" by (simp add: hello_schedule_def)
  then have "compress_all (take 16 hello_schedule) initial_state = compress (take 16 hello_schedule) initial_state"
    by (simp add: compress_all.simps)
  then have "sha256 hello_bytes = state_bytes (Sha 0xb94d27b9 0x934d3e08 0xa52e52d7 0xda7dabfa 0xc484efe3 0x7a5380ee 0x9088f7ac 0xe2efcde9)"
    by (simp add: sha256_def hello_block hello_compressed)
  moreover have "hex_encode (state_bytes (Sha 0xb94d27b9 0x934d3e08 0xa52e52d7 0xda7dabfa 0xc484efe3 0x7a5380ee 0x9088f7ac 0xe2efcde9)) =
      lit ''b94d27b9934d3e08a52e52d7da7dabfac484efe37a5380ee9088f7ace2efcde9''"
    by code_simp
  ultimately show ?thesis by simp
qed

end
