(* ===== verification/Crate_Tests.thy ===== *)
theory Crate_Tests
  imports Safe_Join Token History Server Sha256
begin

text \<open>
  The unit tests in the crate \<^verbatim>\<open>filedrop-core\<close>, each as the condition it asserts of the model's functions. A
  temporary directory is a path and a disk on which nothing is there yet; random numbers and JSON are arguments.
\<close>

definition is_err :: "'a result \<Rightarrow> bool" where
  "is_err r = (case r of Inl _ \<Rightarrow> True | Inr _ \<Rightarrow> False)"

definition is_ok :: "'a result \<Rightarrow> bool" where
  "is_ok r = (case r of Inl _ \<Rightarrow> False | Inr _ \<Rightarrow> True)"

fun text_contains :: "rstring \<Rightarrow> rstring \<Rightarrow> bool" where
  "text_contains [] pat = (pat = [])"
| "text_contains (c # cs) pat = (take (length pat) (c # cs) = pat \<or> text_contains cs pat)"

section \<open>\<^verbatim>\<open>security/mod.rs\<close>\<close>

definition test_base :: rstring where
  "test_base = lit ''/tmp/filedrop/received''"

definition rejects_parent_traversal :: bool where
  "rejects_parent_traversal \<longleftrightarrow>
     is_err (safe_join test_base (lit ''../../etc/passwd''))
     \<and> is_err (safe_join test_base (lit ''..'' @ [92] @ lit ''..'' @ [92] @ lit ''windows'' @ [92] @ lit ''system32''))"

definition accepts_plain_filename :: bool where
  "accepts_plain_filename \<longleftrightarrow> is_ok (safe_join test_base (lit ''report.pdf''))"

definition sanitizes_dangerous_characters :: bool where
  "sanitizes_dangerous_characters \<longleftrightarrow>
     (case sanitize_filename (lit ''../../../etc/passwd'') of
        None \<Rightarrow> False
      | Some cleaned \<Rightarrow> \<not> text_contains cleaned (lit ''..'') \<and> 47 \<notin> set cleaned)"

section \<open>\<^verbatim>\<open>pairing/mod.rs\<close>\<close>

text \<open>Two draws of the generator.\<close>

definition generated_tokens_are_unique_and_well_formed ::
  "(nat \<Rightarrow> byte list) \<Rightarrow> (nat \<Rightarrow> byte list) \<Rightarrow> (byte list \<Rightarrow> rstring) \<Rightarrow> bool" where
  "generated_tokens_are_unique_and_well_formed rng1 rng2 b64 \<longleftrightarrow>
     (let a = generate_pairing_token rng1 b64; b = generate_pairing_token rng2 b64
      in a \<noteq> b \<and> is_ok (validate_token_format a))"

section \<open>\<^verbatim>\<open>security/checksum.rs\<close>\<close>

definition hashes_known_content :: "'h hash_api \<Rightarrow> rstring \<Rightarrow> disk \<Rightarrow> bool" where
  "hashes_known_content H dir d \<longleftrightarrow>
     (let path = path_join dir (lit ''test.txt'');
          (f, d1) = disk_open True path d;
          d2 = disk_write f 0 hello_bytes d1
      in hash_of_file H None path d2
           = Some (Inr (lit ''b94d27b9934d3e08a52e52d7da7dabfac484efe37a5380ee9088f7ace2efcde9'')))"

section \<open>\<^verbatim>\<open>storage/history.rs\<close>\<close>

definition test_record :: "uuid \<Rightarrow> uuid \<Rightarrow> TransferRecord" where
  "test_record u peer =
     \<lparr>rec_id = u, rec_file_name = lit ''photo.jpg'', rec_file_size_bytes = 1024, rec_peer_device_id = peer,
      rec_peer_name = lit ''Ashvini'' @ [39] @ lit ''s MacBook'', rec_outgoing = True, rec_status = RecCompleted,
      rec_sha256 = Some (lit ''deadbeef''), rec_started_at = 100, rec_completed_at = 200, rec_saved_path = None\<rparr>"

definition round_trips_through_disk ::
  "(TransferRecord list \<Rightarrow> rstring + byte list) \<Rightarrow> (byte list \<Rightarrow> rstring + TransferRecord list) \<Rightarrow>
   (byte list \<Rightarrow> byte list list) \<Rightarrow> uuid \<Rightarrow> uuid \<Rightarrow> rstring \<Rightarrow> disk \<Rightarrow> bool" where
  "round_trips_through_disk ser de pieces u peer dir d \<longleftrightarrow>
     (let path = path_join dir (lit ''history.json''); record = test_record u peer in
      case history_load de True None path d of Inl _ \<Rightarrow> False | Inr store \<Rightarrow>
     (case history_add ser pieces (\<lambda>_. None) [u] record store d of (Inl _, _, _) \<Rightarrow> False | (Inr _, _, d') \<Rightarrow>
     (case history_load de True None path d' of Inl _ \<Rightarrow> False | Inr reloaded \<Rightarrow>
       (let listed = history_list [u] reloaded in length listed = 1 \<and> rec_id (listed ! 0) = rec_id record))))"

section \<open>They pass\<close>

lemma traversal_rejected: "rejects_parent_traversal"
  by (simp add: rejects_parent_traversal_def is_err_def test_base_def text_defs)

lemma plain_accepted_name: "accepts_plain_filename"
  by code_simp

lemma dangerous_sanitized: "sanitizes_dangerous_characters"
  by (simp add: sanitizes_dangerous_characters_def text_defs)

lemma tokens_unique:
  assumes "fills rng1" and "b64_url_safe b64" and "b64 (rng1 TOKEN_BYTE_LEN) \<noteq> b64 (rng2 TOKEN_BYTE_LEN)"
  shows "generated_tokens_are_unique_and_well_formed rng1 rng2 b64"
proof -
  have "validate_token_format (generate_pairing_token rng1 b64) = Inr ()"
    using assms(1,2) generated_token_valid [OF assms(1,2)] by simp
  then show ?thesis using assms(3)
    by (simp add: generated_tokens_are_unique_and_well_formed_def generate_pairing_token_def is_ok_def)
qed

text \<open>The digest is that of the real SHA-256.\<close>

lemma known_content_hashed: "disk_ok d \<Longrightarrow> hashes_known_content sha256_api dir d"
proof -
  assume "disk_ok d"
  let ?p = "path_join dir (lit ''test.txt'')"
  obtain f d1 where o: "disk_open True ?p d = (f, d1)" by fastforce
  then have "names d1 (components ?p) = Some f" "contents d1 f = []"
    using disk_open_name [of True ?p d] disk_open_contents [of True ?p d] by simp_all
  then have r: "disk_read ?p (disk_write f 0 hello_bytes d1) = Some hello_bytes"
    by (simp add: disk_read_def disk_write_def patch_def)
  have "hash_of_file sha256_api None ?p (disk_write f 0 hello_bytes d1) = Some (Inr (hex_encode (sha256 hello_bytes)))"
    using sha256_file_healthy [OF sha256_law reads_of_buffer] by (simp add: hash_of_file_def r)
  with o show ?thesis by (simp add: hashes_known_content_def sha256_hello)
qed

lemma history_round_trip:
  assumes "disk_ok d" and "cuts pieces" and "codec ser de" and "ser [test_record u peer] = Inr json"
    and "disk_read (path_join dir (lit ''history.json'')) d = None"
  shows "round_trips_through_disk ser de pieces u peer dir d"
proof -
  let ?path = "path_join dir (lit ''history.json'')" and ?r = "test_record u peer"
  have path: "?path = history_file \<lparr>app_data_dir = dir\<rparr>" by (simp add: history_file_def)
  define store where "store = \<lparr>hs_path = ?path, hs_records = (Map.empty :: uuid \<rightharpoonup> TransferRecord)\<rparr>"
  have l: "history_load de True None ?path d = Inr store" using assms(5) by (simp add: history_load_def store_def map_ok_def)
  have v: "map_values [u] (hs_records (insert_record ?r store)) = [?r]"
    by (simp add: map_values_def insert_record_def test_record_def)
  obtain d' where p: "persist ser pieces (\<lambda>_. None) [u] (insert_record ?r store) d = (Inr (), d')"
    using persist_succeeds [of ser "[u]" "insert_record ?r store" json pieces d] assms(4) v by (metis prod.collapse)
  then have a: "history_add ser pieces (\<lambda>_. None) [u] ?r store d = (Inr (), insert_record ?r store, d')"
    by (simp add: history_add_def Let_def)
  have q: "hs_path (insert_record ?r store) = history_file \<lparr>app_data_dir = dir\<rparr>"
    using path by (simp add: insert_record_def store_def)
  from persist_effect(3) [OF assms(1,2) q p refl] have "disk_read ?path d' = Some json"
    using assms(4) path by (auto simp: v)
  then have "history_load de True None ?path d' = Inr \<lparr>hs_path = ?path, hs_records = [u \<mapsto> ?r]\<rparr>"
    using load_written [OF assms(3), of "[u]" "[u \<mapsto> ?r]" json ?path d'] assms(4)
    by (simp add: map_values_def enumerates_def test_record_def)
  with l a show ?thesis
    by (simp add: round_trips_through_disk_def history_list_def map_values_def Let_def)
qed

section \<open>Properties\<close>

text \<open>The crate's own unit tests hold of the model: traversals are rejected and a plain name is accepted, a
  dangerous name is cleaned, two tokens drawn from different random bytes differ and are well formed, the
  digest of a known file is the known one (with SHA-256 itself as the hash), and a history record written
  to a fresh directory is read back.\<close>

theorem crate_tests_pass:
  assumes "disk_ok d" and "disk_read (path_join dir (lit ''history.json'')) d = None"
    and "cuts pieces" and "codec ser de" and "ser [test_record u peer] = Inr json"
    and "fills rng1" and "b64_url_safe b64" and "b64 (rng1 TOKEN_BYTE_LEN) \<noteq> b64 (rng2 TOKEN_BYTE_LEN)"
  shows "rejects_parent_traversal \<and> accepts_plain_filename \<and> sanitizes_dangerous_characters
    \<and> generated_tokens_are_unique_and_well_formed rng1 rng2 b64 \<and> hashes_known_content sha256_api dir d
    \<and> round_trips_through_disk ser de pieces u peer dir d"
  by (intro conjI traversal_rejected plain_accepted_name dangerous_sanitized tokens_unique known_content_hashed
      history_round_trip) (rule assms)+

definition test_ser :: "TransferRecord list \<Rightarrow> rstring + byte list" where
  "test_ser xs = (if xs = [test_record 1 9] then Inr [1] else Inl [])"

definition test_de :: "byte list \<Rightarrow> rstring + TransferRecord list" where
  "test_de b = (if b = [1] then Inr [test_record 1 9] else Inl [])"

theorem crate_tests_pass_witness:
  "generated_tokens_are_unique_and_well_formed (\<lambda>n. replicate n 7) (\<lambda>n. replicate n 8) (rfc4648 \<circ> map unat)
    \<and> hashes_known_content sha256_api (lit ''/tmp'') empty_disk
    \<and> round_trips_through_disk test_ser test_de (\<lambda>b. [b]) 1 9 (lit ''/tmp'') empty_disk"
proof -
  have r: "disk_read (path_join (lit ''/tmp'') (lit ''history.json'')) empty_disk = None"
    by (simp add: disk_read_def empty_disk_def)
  have c: "cuts (\<lambda>b. [b])" "codec test_ser test_de" "test_ser [test_record 1 9] = Inr [1]"
    by (simp_all add: cuts_def codec_def test_ser_def test_de_def)
  have f: "fills (\<lambda>n. replicate n 7)" by (simp add: fills_def)
  have b: "b64_url_safe (rfc4648 \<circ> map unat)" by (simp add: b64_url_safe_def rfc4648_length rfc4648_chars)
  have three: "replicate TOKEN_BYTE_LEN v = v # v # v # replicate 29 v" for v :: byte
    by (rule replicate_eqI [symmetric]) (auto simp: TOKEN_BYTE_LEN_def)
  have n: "(rfc4648 \<circ> map unat) (replicate TOKEN_BYTE_LEN (7 :: byte)) \<noteq> (rfc4648 \<circ> map unat) (replicate TOKEN_BYTE_LEN (8 :: byte))"
    by (simp only: three) (simp add: b64_digit_def)
  note t = crate_tests_pass [where ?rng1.0 = "\<lambda>n. replicate n 7" and ?rng2.0 = "\<lambda>n. replicate n 8"
      and ?b64.0 = "rfc4648 \<circ> map unat", OF disk_ok_empty r c f b n]
  show ?thesis by (rule t [THEN conjunct2, THEN conjunct2, THEN conjunct2])
qed

end
