(* ===== verification/Integration_Test.thy ===== *)
theory Integration_Test
  imports End_To_End Sha256
begin

text \<open>
  The integration test \<^verbatim>\<open>filedrop-core/tests/end_to_end_transfer.rs\<close> as the condition it asserts of the model: client and
  server on one machine and one disk, the server's world as the test sets it up, the network an HTTP connection
  that carries the request's texts and its body in any pieces.
\<close>

definition test_payload :: "byte list" where
  "test_payload = map (\<lambda>i. of_nat (i mod 256)) [0..<3 * 1024 * 1024 + 777]"

definition test_paths :: "rstring \<Rightarrow> StoragePaths" where
  "test_paths dir = \<lparr>app_data_dir = path_join dir (lit ''appdata'')\<rparr>"

definition test_world :: "StoragePaths \<Rightarrow> HistoryStore \<Rightarrow> heap \<Rightarrow> disk \<Rightarrow> world" where
  "test_world paths history h d =
     \<lparr>app = \<lparr>as_paths = paths, as_queue = queue_new, as_history = history, as_pairing = psm_new, as_sessions = Map.empty\<rparr>,
      mem = h, fs = d\<rparr>"

definition answer_of :: "http_request \<Rightarrow> ('h handler \<times> world) option \<Rightarrow> nat \<times> (rstring + nat \<times> rstring option)" where
  "answer_of request served =
     (case served of
        Some (Responded (Text status text), w) \<Rightarrow> (length (rq_body request), Inr (status, Some text))
      | _ \<Rightarrow> (0, Inl []))"

text \<open>The digest of the source file, the send, and what is then found under the received name.\<close>

definition sends_and_receives_a_real_file_over_tcp ::
  "'h hash_api \<Rightarrow> (uuid \<Rightarrow> rstring) \<Rightarrow> (nat \<Rightarrow> rstring) \<Rightarrow> (byte list \<Rightarrow> byte list list) \<Rightarrow>
   (byte list \<Rightarrow> rstring + TransferRecord list) \<Rightarrow> ((rstring \<times> rstring) list \<Rightarrow> headers) \<Rightarrow>
   (byte list list \<Rightarrow> byte list list) \<Rightarrow> rstring \<Rightarrow> uuid \<Rightarrow> nat \<Rightarrow> rstring \<Rightarrow> rstring \<Rightarrow> disk \<Rightarrow> heap \<Rightarrow> bool" where
  "sends_and_receives_a_real_file_over_tcp H show_uuid show_status pieces de wire rechunk addr u now dir src_dir d h \<longleftrightarrow>
     (let paths = test_paths dir;
          (ensured, d0) = ensure_dirs (\<lambda>_. None) paths d;
          loaded = history_load de True None (history_file paths) d0;
          src_path = path_join src_dir (lit ''payload.bin'');
          (f, d1) = disk_open True src_path d0;
          d2 = disk_write f 0 test_payload d1
      in case (ensured, loaded, hash_of_file H None src_path d2) of
           (Inr _, Inr history, Some (Inr expected_hash)) \<Rightarrow>
             (let (session, h1) = session_new u (lit ''payload.bin'') (of_nat (length test_payload)) Send now h;
                  serve = (\<lambda>request. receive_transfer H show_uuid open_fine now u (wire (rq_headers request))
                    (plain_upload (rechunk (rq_body request))) (test_world paths history h1 d2));
                  sent = send_file H show_uuid show_status pieces (\<lambda>request. answer_of request (serve request)) send_fine addr u
                    src_path session SendOptions_default d2 h1;
                  request = send_request show_uuid addr u (lit ''payload.bin'') (of_nat (length test_payload)) (Some expected_hash) 0
                    (pieces test_payload);
                  received_path = path_join (received_files_dir paths) (lit ''payload.bin'')
              in case (sent, serve request) of
                   (Some (Inr _, _), Some (_, w)) \<Rightarrow>
                     disk_read received_path (fs w) = Some test_payload
                     \<and> hash_of_file H None received_path (fs w) = Some (Inr expected_hash)
                 | _ \<Rightarrow> False)
         | _ \<Rightarrow> False)"

lemma payload_name: "normal_part (lit ''payload.bin'')" "visible (lit ''payload.bin'')"
  "sanitize_filename (lit ''payload.bin'') = Some (lit ''payload.bin'')"
  by (simp_all add: normal_part_def visible_def text_defs)

lemma payload_length: "length test_payload < 2 ^ 64"
  unfolding test_payload_def length_map length_upt by simp

lemma file_hash: "digest_law H sha \<Longrightarrow> disk_read p d = Some c \<Longrightarrow> hash_of_file H None p d = Some (Inr (hex_encode (sha c)))"
  using sha256_file_healthy [OF _ reads_of_buffer] by (simp add: hash_of_file_def)

lemma ensured_disk: "ensure_dirs (\<lambda>_. None) sp d = (r, e) \<Longrightarrow> r = Inr () \<and> names e = names d \<and> contents e = contents d
    \<and> next_file e = next_file d"
  by (auto simp: ensure_dirs_def create_dir_all_def)

text \<open>A file just written.\<close>

lemma written_file:
  assumes "disk_ok d" and "disk_open True p d = (f, e)"
  shows "disk_ok (disk_write f 0 c e) \<and> disk_read p (disk_write f 0 c e) = Some c"
proof -
  have "names e (components p) = Some f" "contents e f = []"
    using assms(2) disk_open_name [of True p d] disk_open_contents [of True p d] by simp_all
  moreover have "disk_ok e" using disk_ok_open [OF assms(1), of True p] assms(2) by simp
  ultimately show ?thesis by (simp add: disk_read_def disk_write_def patch_def disk_ok_def)
qed

text \<open>The test passes, on any disk without a history file at the new application directory.\<close>

theorem integration_test_passes:
  assumes "uuid_text show_uuid" and "digest_law H sha" and "wire_law wire" and "reads_in_chunks pieces" and "disk_ok d"
    and "disk_read (history_file (test_paths dir)) d = None" and "\<forall>cs. concat (rechunk cs) = concat cs"
  shows "sends_and_receives_a_real_file_over_tcp H show_uuid show_status pieces de wire rechunk addr u now dir src_dir d h"
proof -
  let ?paths = "test_paths dir" and ?src = "path_join src_dir (lit ''payload.bin'')"
  obtain r d0 where e: "ensure_dirs (\<lambda>_. None) ?paths d = (r, d0)" by fastforce
  note d0 = ensured_disk [OF e]
  have l: "history_load de True None (history_file ?paths) d0 = Inr \<lparr>hs_path = history_file ?paths, hs_records = Map.empty\<rparr>"
    using assms(6) d0 by (simp add: history_load_def disk_read_def map_ok_def)
  obtain f d1 where o: "disk_open True ?src d0 = (f, d1)" by fastforce
  define d2 where "d2 = disk_write f 0 test_payload d1"
  have "disk_ok d0" using assms(5) d0 by (simp add: disk_ok_def)
  from written_file [OF this o] have d2: "disk_ok d2" "disk_read ?src d2 = Some test_payload" by (simp_all add: d2_def)
  obtain session h1 where s: "session_new u (lit ''payload.bin'') (of_nat (length test_payload)) Send now h = (session, h1)" by fastforce
  let ?w = "test_world ?paths \<lparr>hs_path = history_file ?paths, hs_records = Map.empty\<rparr> h1 d2"
  have name: "sent_name ?src = lit ''payload.bin''" using file_name_join [OF payload_name(1)] by (simp add: sent_name_def)
  have w: "disk_ok (fs ?w)" "as_paths (app ?w) = ?paths" using d2(1) by (simp_all add: test_world_def)
  have z: "verify_checksum SendOptions_default" "unat (resume_from SendOptions_default) = 0" "resume_from SendOptions_default = 0"
    by (simp_all add: SendOptions_default_def)
  have "unat (resume_from SendOptions_default) \<le> length test_payload" "resume_from SendOptions_default > 0 \<longrightarrow>
      disk_read (staging_of show_uuid (as_paths (app ?w)) u) (fs ?w) = Some (take (unat (resume_from SendOptions_default)) test_payload)"
    "visible (sent_name ?src)" using z name payload_name(2) by simp_all
  note facts = this
  let ?serve = "\<lambda>request. receive_transfer H show_uuid open_fine now u (wire (rq_headers request)) (plain_upload (rechunk (rq_body request))) ?w"
  let ?request = "send_request show_uuid addr u (lit ''payload.bin'') (of_nat (length test_payload)) (Some (hex_encode (sha test_payload))) 0
    (pieces test_payload)"
  have "(\<lambda>request. answer_of request (?serve request)) = (\<lambda>request. case ?serve request of
      Some (Responded (Text status text), w') \<Rightarrow> (length (rq_body request), Inr (status, Some text)) | _ \<Rightarrow> (0, Inl []))"
    by (simp add: answer_of_def)
  from send_then_receive [OF assms(1-4) d2(2) payload_length facts(3) w(1) z(1) facts(1,2) this assms(7),
      where addr = addr and show_status = show_status and session = session and h = h1]
  obtain h' w' where "send_file H show_uuid show_status pieces (\<lambda>request. answer_of request (?serve request)) send_fine addr u ?src
      session SendOptions_default d2 h1 = Some (Inr (), h')"
    "?serve ?request = Some (Responded (Text OK (lit ''transfer complete'')), w')"
    "disk_read (path_join (received_files_dir ?paths) (lit ''payload.bin'')) (fs w') = Some test_payload"
    by (auto simp: Let_def z name payload_name(3) w(2) final_of_def)
  then show ?thesis unfolding sends_and_receives_a_real_file_over_tcp_def
    by (simp add: Let_def e l o s d0 file_hash [OF assms(2)] file_hash [OF assms(2) d2(2)] flip: d2_def)
qed

theorem integration_test_passes_witness:
  "sends_and_receives_a_real_file_over_tcp sha256_api sample_show nat_to_string byte_reads (\<lambda>_. Inl []) map_of (\<lambda>cs. [concat cs])
    (lit ''127.0.0.1:8080'') 7 0 (lit ''/tmp/a'') (lit ''/tmp/b'') empty_disk sample_heap"
  by (rule integration_test_passes [OF sample_show_text sha256_law _ abc_facts(2) disk_ok_empty])
    (simp_all add: wire_law_def disk_read_def empty_disk_def)

end
